(* ===== verification/Prelude.thy ===== *)
theory Prelude
  imports Main "HOL-Library.Word" "HOL-Library.AList" "HOL-Library.Multiset"
    "HOL-Library.Code_Target_Nat" "HOL-Library.Code_Target_Int"
begin

text \<open>
  The vocabulary every component of VertexDB shares.
  \<^item> C++ exceptions are values of type \<open>exn\<close>, and a function that may throw returns an
    \<open>outcome\<close>: \<open>Inl\<close> the exception or \<open>Inr\<close> the value. \<open>ebind\<close> is the sequencing of two
    such computations, which is what \<open>;\<close> means when the first may throw.
  \<^item> \<open>std::map\<close> is a list of key-value pairs in the order of its comparator. The operations
    walk the list from the front to the first key that is not less, as a lookup by
    \<open>lower_bound\<close> does. Their laws are proved once, in the locale \<open>weak_order\<close>, for any
    comparator that is a strict weak order on the keys that are stored.
  \<^item> \<open>std::unordered_map\<close> is an association list: no code under src/ walks one, so the order
    of the list is not observable. With a comparison other than equality (\<open>HashIndex\<close>) the
    \<open>umap\<close> operations take the comparison as a parameter.
\<close>

section \<open>Collections\<close>

text \<open>
  \<open>handlers\<close> collects the definitions of the statement handlers and of the combinators they are
  made of, \<open>char_evals\<close> what evaluates character classes on literals.
\<close>

named_theorems handlers
named_theorems char_evals

section \<open>Exceptions and outcomes\<close>

text \<open>The exception classes that the code throws, directly or through the standard library.\<close>

datatype exn =
    RuntimeError string
  | InvalidArgument string
  | OutOfRange string
  | LengthError string

type_synonym 'a outcome = "exn + 'a"

definition ebind :: "'a outcome \<Rightarrow> ('a \<Rightarrow> 'b outcome) \<Rightarrow> 'b outcome" where
  "ebind m f = (case m of Inl e \<Rightarrow> Inl e | Inr x \<Rightarrow> f x)"

lemma ebind_simps [simp]:
  "ebind (Inl e) f = Inl e"
  "ebind (Inr x) f = f x"
  by (simp_all add: ebind_def)

lemma ebind_cong [fundef_cong]:
  assumes "m = m'" and "\<And>x. m' = Inr x \<Longrightarrow> f x = f' x"
  shows "ebind m f = ebind m' f'"
  using assms by (cases m') auto

lemma ebind_eq_Inr: "ebind m f = Inr y \<longleftrightarrow> (\<exists>x. m = Inr x \<and> f x = Inr y)"
  by (cases m) auto

lemma ebind_eq_Inl: "ebind m f = Inl e \<longleftrightarrow> m = Inl e \<or> (\<exists>x. m = Inr x \<and> f x = Inl e)"
  by (cases m) auto

lemma ebind_assoc: "ebind (ebind m f) g = ebind m (\<lambda>x. ebind (f x) g)"
  by (cases m) auto

text \<open>A loop over a list whose body may throw, collecting the results.\<close>

fun emap :: "('a \<Rightarrow> 'b outcome) \<Rightarrow> 'a list \<Rightarrow> 'b list outcome" where
  "emap f [] = Inr []"
| "emap f (x # xs) = ebind (f x) (\<lambda>y. ebind (emap f xs) (\<lambda>ys. Inr (y # ys)))"

lemma emap_total: "(\<And>x. x \<in> set xs \<Longrightarrow> f x = Inr (g x)) \<Longrightarrow> emap f xs = Inr (map g xs)"
  by (induction xs) auto

lemma emap_length: "emap f xs = Inr ys \<Longrightarrow> length ys = length xs"
  by (induction xs arbitrary: ys) (auto simp: ebind_eq_Inr)

text \<open>A loop that keeps the elements a test accepts, where the test may throw.\<close>

fun efilter :: "('a \<Rightarrow> bool outcome) \<Rightarrow> 'a list \<Rightarrow> 'a list outcome" where
  "efilter p [] = Inr []"
| "efilter p (x # xs) =
     ebind (p x) (\<lambda>b. ebind (efilter p xs) (\<lambda>ys. Inr (if b then x # ys else ys)))"

lemma efilter_total: "(\<And>x. x \<in> set xs \<Longrightarrow> p x = Inr (q x)) \<Longrightarrow> efilter p xs = Inr (filter q xs)"
  by (induction xs) auto

text \<open>A loop whose body may throw and that threads a state: the first exception ends it.\<close>

fun efold :: "('a \<Rightarrow> 's \<Rightarrow> 's outcome) \<Rightarrow> 'a list \<Rightarrow> 's \<Rightarrow> 's outcome" where
  "efold f [] s = Inr s"
| "efold f (x # xs) s = ebind (f x s) (efold f xs)"

lemma efold_append: "efold f (xs @ ys) s = ebind (efold f xs s) (efold f ys)"
proof (induction xs arbitrary: s)
  case (Cons x xs)
  then show ?case by (cases "f x s") auto
qed simp

lemma efold_invariant:
  assumes "efold f xs s = Inr s'" and "P s"
    and "\<And>x t t'. x \<in> set xs \<Longrightarrow> P t \<Longrightarrow> f x t = Inr t' \<Longrightarrow> P t'"
  shows "P s'"
  using assms by (induction xs arbitrary: s) (auto simp: ebind_eq_Inr)

section \<open>Positions of the elements that satisfy a predicate\<close>

definition positions :: "('a \<Rightarrow> bool) \<Rightarrow> 'a list \<Rightarrow> nat list" where
  "positions P xs = filter (\<lambda>i. P (xs ! i)) [0..<length xs]"

lemma positions_Nil [simp]: "positions P [] = []"
  by (simp add: positions_def)

lemma positions_snoc:
  "positions P (xs @ [x]) = positions P xs @ (if P x then [length xs] else [])"
proof -
  have "filter (\<lambda>i. P ((xs @ [x]) ! i)) [0..<length xs] = filter (\<lambda>i. P (xs ! i)) [0..<length xs]"
    by (rule filter_cong) (auto simp: nth_append)
  then show ?thesis by (simp add: positions_def)
qed

lemma positions_less: "i \<in> set (positions P xs) \<Longrightarrow> i < length xs"
  by (simp add: positions_def)

lemma positions_set: "set (positions P xs) = {i. i < length xs \<and> P (xs ! i)}"
  by (auto simp: positions_def)

lemma positions_distinct [simp]: "distinct (positions P xs)"
  by (simp add: positions_def)

lemma nth_positions: "map ((!) xs) (positions P xs) = filter P xs"
proof (induction xs rule: rev_induct)
  case Nil
  then show ?case by simp
next
  case (snoc x xs)
  have "map ((!) (xs @ [x])) (positions P xs) = map ((!) xs) (positions P xs)"
    by (rule map_cong) (auto simp: nth_append dest: positions_less)
  with snoc show ?case by (simp add: positions_snoc)
qed

lemma positions_cong:
  "xs = ys \<Longrightarrow> (\<And>x. x \<in> set ys \<Longrightarrow> P x = Q x) \<Longrightarrow> positions P xs = positions Q ys"
  by (auto simp: positions_def intro!: filter_cong)

section \<open>Stable insertion\<close>

text \<open>
  \<open>sort_stable lt xs\<close> puts the elements of \<open>xs\<close>, one after the other, behind those that do not come
  after them: a sort that leaves elements of one class in their order. It says in which order an
  ordered index lists row ids.
\<close>

fun insert_stable :: "('a \<Rightarrow> 'a \<Rightarrow> bool) \<Rightarrow> 'a \<Rightarrow> 'a list \<Rightarrow> 'a list" where
  "insert_stable lt x [] = [x]"
| "insert_stable lt x (y # ys) = (if lt x y then x # y # ys else y # insert_stable lt x ys)"

definition sort_stable :: "('a \<Rightarrow> 'a \<Rightarrow> bool) \<Rightarrow> 'a list \<Rightarrow> 'a list" where
  "sort_stable lt xs = fold (insert_stable lt) xs []"

lemma mset_insert_stable [simp]: "mset (insert_stable lt x ys) = add_mset x (mset ys)"
  by (induction ys) auto

lemma sort_stable_simps [simp]:
  "sort_stable lt [] = []" "sort_stable lt (xs @ [x]) = insert_stable lt x (sort_stable lt xs)"
  by (simp_all add: sort_stable_def)

lemma mset_sort_stable [simp]: "mset (sort_stable lt xs) = mset xs"
  by (induction xs rule: rev_induct) simp_all

lemma set_sort_stable [simp]: "set (sort_stable lt xs) = set xs"
  using mset_sort_stable by (rule mset_eq_setD)

lemma insert_stable_skip:
  "\<forall>y \<in> set ys. \<not> lt x y \<Longrightarrow> insert_stable lt x (ys @ zs) = ys @ insert_stable lt x zs"
  by (induction ys) auto

lemma insert_stable_front: "\<forall>z \<in> set zs. lt x z \<Longrightarrow> insert_stable lt x zs = x # zs"
  by (cases zs) auto

lemma insert_stable_cong:
  "\<forall>y \<in> set ys. lt x y = lt' x y \<Longrightarrow> insert_stable lt x ys = insert_stable lt' x ys"
  by (induction ys) auto

lemma sort_stable_cong:
  "\<forall>x \<in> set xs. \<forall>y \<in> set xs. lt x y = lt' x y \<Longrightarrow> sort_stable lt xs = sort_stable lt' xs"
proof (induction xs rule: rev_induct)
  case (snoc x xs)
  then have "sort_stable lt xs = sort_stable lt' xs" by simp
  moreover have "insert_stable lt x (sort_stable lt' xs) = insert_stable lt' x (sort_stable lt' xs)"
    by (rule insert_stable_cong) (use snoc.prems in simp)
  ultimately show ?case by simp
qed simp

section \<open>Collecting the results that exist\<close>

lemma map_filter_Some: "(\<And>x. x \<in> set xs \<Longrightarrow> f x = Some (g x)) \<Longrightarrow> List.map_filter f xs = map g xs"
  by (induction xs) (auto simp: List.map_filter_simps)

lemma map_filter_map_comp: "List.map_filter f (map g xs) = List.map_filter (\<lambda>x. f (g x)) xs"
  by (induction xs) (auto simp: List.map_filter_simps split: option.splits)

section \<open>Erasing an element of a vector\<close>

definition remove_nth :: "nat \<Rightarrow> 'a list \<Rightarrow> 'a list" where
  "remove_nth i xs = take i xs @ drop (Suc i) xs"

lemma length_remove_nth: "i < length xs \<Longrightarrow> length (remove_nth i xs) = length xs - 1"
  by (auto simp: remove_nth_def)

lemma set_remove_nth: "set (remove_nth i xs) \<subseteq> set xs"
  using set_take_subset[of i xs] set_drop_subset[of "Suc i" xs] by (auto simp: remove_nth_def)

lemma remove_nth_append_less:
  "i < length xs \<Longrightarrow> remove_nth i (xs @ ys) = remove_nth i xs @ ys"
  by (simp add: remove_nth_def)

lemma remove_nth_append_length: "remove_nth (length xs) (xs @ y # ys) = xs @ ys"
  by (simp add: remove_nth_def)

section \<open>std::map as a list in key order\<close>

fun omap_find :: "('k \<Rightarrow> 'k \<Rightarrow> bool) \<Rightarrow> 'k \<Rightarrow> ('k \<times> 'v) list \<Rightarrow> 'v option" where
  "omap_find lt k [] = None"
| "omap_find lt k ((k', v) # m) =
     (if lt k' k then omap_find lt k m else if lt k k' then None else Some v)"

text \<open>
  \<open>operator[]\<close>, \<open>emplace\<close> and \<open>try_emplace\<close> all go to the place of the key: the entry
  there is replaced by \<open>f\<close> of what it held, and a missing entry is inserted.
\<close>

fun omap_alter ::
  "('k \<Rightarrow> 'k \<Rightarrow> bool) \<Rightarrow> 'k \<Rightarrow> ('v option \<Rightarrow> 'v) \<Rightarrow> ('k \<times> 'v) list \<Rightarrow> ('k \<times> 'v) list" where
  "omap_alter lt k f [] = [(k, f None)]"
| "omap_alter lt k f ((k', v) # m) =
     (if lt k' k then (k', v) # omap_alter lt k f m
      else if lt k k' then (k, f None) # (k', v) # m
      else (k', f (Some v)) # m)"

fun omap_erase :: "('k \<Rightarrow> 'k \<Rightarrow> bool) \<Rightarrow> 'k \<Rightarrow> ('k \<times> 'v) list \<Rightarrow> ('k \<times> 'v) list" where
  "omap_erase lt k [] = []"
| "omap_erase lt k ((k', v) # m) =
     (if lt k' k then (k', v) # omap_erase lt k m else if lt k k' then (k', v) # m else m)"

definition omap_emplace :: "('k \<Rightarrow> 'k \<Rightarrow> bool) \<Rightarrow> 'k \<Rightarrow> 'v \<Rightarrow> ('k \<times> 'v) list \<Rightarrow> ('k \<times> 'v) list" where
  "omap_emplace lt k v m = omap_alter lt k (\<lambda>old. case old of None \<Rightarrow> v | Some w \<Rightarrow> w) m"

definition omap_wf :: "('k \<Rightarrow> 'k \<Rightarrow> bool) \<Rightarrow> ('k \<Rightarrow> bool) \<Rightarrow> ('k \<times> 'v) list \<Rightarrow> bool" where
  "omap_wf lt ok m \<longleftrightarrow> sorted_wrt lt (map fst m) \<and> (\<forall>k \<in> set (map fst m). ok k)"

lemma omap_wf_Nil [simp]: "omap_wf lt ok []"
  by (simp add: omap_wf_def)

lemma omap_wf_Cons:
  "omap_wf lt ok ((k, v) # m) \<longleftrightarrow> ok k \<and> (\<forall>k' \<in> fst ` set m. lt k k') \<and> omap_wf lt ok m"
  by (auto simp: omap_wf_def)

lemma omap_alter_keys_subset: "fst ` set (omap_alter lt k f m) \<subseteq> insert k (fst ` set m)"
  by (induction lt k f m rule: omap_alter.induct) auto

lemma omap_erase_subset: "set (omap_erase lt k m) \<subseteq> set m"
  by (induction lt k m rule: omap_erase.induct) auto

text \<open>A key after all others goes to the end.\<close>

lemma omap_alter_end: "\<forall>a \<in> fst ` set m. lt a k \<Longrightarrow> omap_alter lt k f m = m @ [(k, f None)]"
  by (induction m) auto

lemma omap_alter_absent:
  "omap_find lt k m = None \<Longrightarrow> f None = g None \<Longrightarrow> omap_alter lt k f m = omap_alter lt k g m"
  by (induction m) (auto split: if_splits)

lemma omap_alter_twice:
  "\<not> lt k k \<Longrightarrow> omap_alter lt k f (omap_alter lt k g m) = omap_alter lt k (\<lambda>old. f (Some (g old))) m"
  by (induction m) auto

lemma omap_find_end: "\<forall>a \<in> fst ` set m. lt a k \<Longrightarrow> omap_find lt k m = None"
  by (induction m) auto

text \<open>
  The contract of a comparator: a strict weak order on the keys \<open>ok\<close> admits. Keys that
  neither comes before the other (\<open>eqv\<close>) are the same key for the map.
\<close>

locale weak_order =
  fixes lt :: "'k \<Rightarrow> 'k \<Rightarrow> bool" and ok :: "'k \<Rightarrow> bool"
  assumes irrefl: "ok a \<Longrightarrow> \<not> lt a a"
    and trans: "ok a \<Longrightarrow> ok b \<Longrightarrow> ok c \<Longrightarrow> lt a b \<Longrightarrow> lt b c \<Longrightarrow> lt a c"
    and neg_trans: "ok a \<Longrightarrow> ok b \<Longrightarrow> ok c \<Longrightarrow> \<not> lt a b \<Longrightarrow> \<not> lt b c \<Longrightarrow> \<not> lt a c"
begin

lemma asym: "ok a \<Longrightarrow> ok b \<Longrightarrow> lt a b \<Longrightarrow> \<not> lt b a"
  using irrefl trans by blast

lemma lt_eqv_left:
  "ok a \<Longrightarrow> ok b \<Longrightarrow> ok c \<Longrightarrow> \<not> lt a b \<Longrightarrow> \<not> lt b a \<Longrightarrow> lt a c \<longleftrightarrow> lt b c"
  using neg_trans by blast

lemma lt_eqv_right:
  "ok a \<Longrightarrow> ok b \<Longrightarrow> ok c \<Longrightarrow> \<not> lt a b \<Longrightarrow> \<not> lt b a \<Longrightarrow> lt c a \<longleftrightarrow> lt c b"
  using neg_trans by blast

text \<open>Stable insertion sorts, and keeps the elements of one class in their order.\<close>

lemma sorted_insert_stable:
  assumes "sorted_wrt (\<lambda>a b. \<not> lt b a) ys" and "ok x" and "\<forall>y \<in> set ys. ok y"
  shows "sorted_wrt (\<lambda>a b. \<not> lt b a) (insert_stable lt x ys)"
  using assms(1,3)
proof (induction ys)
  case (Cons y ys)
  have set: "set (insert_stable lt x ys) = insert x (set ys)"
    using mset_eq_setD[of "insert_stable lt x ys" "x # ys"] by simp
  show ?case
  proof (cases "lt x y")
    case True
    have "\<not> lt z x" if "z \<in> set (y # ys)" for z
      using that Cons.prems True asym[OF assms(2)] trans[of z x y] irrefl[of y] assms(2) by auto
    with True Cons.prems show ?thesis by auto
  next
    case False
    with Cons show ?thesis by (simp add: set)
  qed
qed simp

lemma sort_stable_sorted:
  "\<forall>x \<in> set xs. ok x \<Longrightarrow> sorted_wrt (\<lambda>a b. \<not> lt b a) (sort_stable lt xs)"
  by (induction xs rule: rev_induct) (simp_all add: sorted_insert_stable)

lemma filter_insert_stable:
  assumes "\<forall>a b. P a \<longrightarrow> P b \<longrightarrow> \<not> lt a b" and "\<forall>y \<in> set ys. ok y" and "ok x"
    and "sorted_wrt (\<lambda>a b. \<not> lt b a) ys"
  shows "filter P (insert_stable lt x ys) = filter P ys @ filter P [x]"
  using assms(2-4)
proof (induction ys)
  case (Cons y ys)
  have "\<not> P z" if "lt x y" "P x" "z \<in> set (y # ys)" for z
  proof
    assume "P z"
    then have "\<not> lt x z" using assms(1) that(2) by blast
    moreover have "\<not> lt z y" using Cons.prems(1,3) that(3) irrefl by auto
    ultimately have "\<not> lt x y" using neg_trans[of x z y] Cons.prems(1,2) that(3) by auto
    with that(1) show False by blast
  qed
  with Cons show ?case by (auto simp: filter_empty_conv)
qed simp

lemma sort_stable_stable:
  assumes "\<forall>a b. P a \<longrightarrow> P b \<longrightarrow> \<not> lt a b" and "\<forall>x \<in> set xs. ok x"
  shows "filter P (sort_stable lt xs) = filter P xs"
  using assms(2) filter_insert_stable[OF assms(1)] sort_stable_sorted
  by (induction xs rule: rev_induct) simp_all

lemma omap_wf_alter: "omap_wf lt ok m \<Longrightarrow> ok k \<Longrightarrow> omap_wf lt ok (omap_alter lt k f m)"
proof (induction m)
  case Nil
  then show ?case by (simp add: omap_wf_Cons)
next
  case (Cons e m)
  obtain a v where e: "e = (a, v)" by (cases e)
  note wf = Cons.prems(1)[unfolded e omap_wf_Cons]
  have okm: "\<forall>k' \<in> fst ` set m. ok k'" using wf by (simp add: omap_wf_def)
  consider "lt a k" | "\<not> lt a k" "lt k a" | "\<not> lt a k" "\<not> lt k a" by blast
  then show ?case
  proof cases
    case 1
    then have "\<forall>k' \<in> fst ` set (omap_alter lt k f m). lt a k'"
      using omap_alter_keys_subset[of lt k f m] wf by blast
    with 1 Cons wf e show ?thesis by (simp add: omap_wf_Cons)
  next
    case 2
    have "\<forall>k' \<in> fst ` set m. lt k k'"
      using 2 wf okm Cons.prems(2) trans by blast
    with 2 wf Cons.prems(2) e show ?thesis by (simp add: omap_wf_Cons)
  next
    case 3
    with wf e show ?thesis by (simp add: omap_wf_Cons)
  qed
qed

lemma omap_wf_emplace: "omap_wf lt ok m \<Longrightarrow> ok k \<Longrightarrow> omap_wf lt ok (omap_emplace lt k v m)"
  by (simp add: omap_emplace_def omap_wf_alter)

lemma omap_wf_erase: "omap_wf lt ok m \<Longrightarrow> omap_wf lt ok (omap_erase lt k m)"
proof (induction m)
  case (Cons e m)
  obtain a v where e: "e = (a, v)" by (cases e)
  have "fst ` set (omap_erase lt k m) \<subseteq> fst ` set m"
    by (intro image_mono omap_erase_subset)
  then have "\<forall>k' \<in> fst ` set (omap_erase lt k m). lt a k'"
    using Cons.prems e by (auto simp only: omap_wf_Cons)
  with Cons e show ?case by (simp add: omap_wf_Cons)
qed simp

lemma omap_find_before:
  assumes "omap_wf lt ok m" and "ok k" and "\<forall>k' \<in> fst ` set m. lt k k'"
  shows "omap_find lt k m = None"
proof (cases m)
  case (Cons e m')
  obtain a v where e: "e = (a, v)" by (cases e)
  have "ok a" "lt k a" using assms Cons e by (auto simp: omap_wf_def)
  then have "\<not> lt a k" using asym assms(2) by blast
  with \<open>lt k a\<close> Cons e show ?thesis by simp
qed simp

text \<open>A lookup after a write sees the write at every key equivalent to the one written.\<close>

lemma omap_find_alter:
  assumes "omap_wf lt ok m" and k: "ok k" and k': "ok k'"
  shows "omap_find lt k' (omap_alter lt k f m) =
    (if \<not> lt k k' \<and> \<not> lt k' k then Some (f (omap_find lt k m)) else omap_find lt k' m)"
  using assms(1)
proof (induction m)
  case Nil
  then show ?case by auto
next
  case (Cons e m)
  obtain a v where e: "e = (a, v)" by (cases e)
  note wf = Cons.prems[unfolded e omap_wf_Cons]
  have a: "ok a" using wf by blast
  have IH: "omap_find lt k' (omap_alter lt k f m) =
    (if \<not> lt k k' \<and> \<not> lt k' k then Some (f (omap_find lt k m)) else omap_find lt k' m)"
    using Cons.IH wf by blast
  consider "lt a k" | "\<not> lt a k" "lt k a" | "\<not> lt a k" "\<not> lt k a" by blast
  then show ?case
  proof cases
    case 1
    have "lt a k'" if "\<not> lt k' k"
      using 1 that neg_trans[OF a k' k] by blast
    with 1 IH e show ?thesis by auto
  next
    case 2
    have "\<not> lt a k'" "lt k' a" if "lt k' k"
      using 2 that trans[OF k' k a] asym[OF a k'] by auto
    with 2 e show ?thesis by auto
  next
    case 3
    then show ?thesis
      using e lt_eqv_left[OF a k k'] lt_eqv_right[OF a k k'] by auto
  qed
qed

lemma omap_find_emplace:
  assumes "omap_wf lt ok m" and "ok k" and "ok k'"
  shows "omap_find lt k' (omap_emplace lt k v m) =
    (if \<not> lt k k' \<and> \<not> lt k' k
     then Some (case omap_find lt k m of None \<Rightarrow> v | Some w \<Rightarrow> w) else omap_find lt k' m)"
  using omap_find_alter[OF assms] by (simp add: omap_emplace_def)

lemma omap_find_erase:
  assumes "omap_wf lt ok m" and k: "ok k" and k': "ok k'"
  shows "omap_find lt k' (omap_erase lt k m) =
    (if \<not> lt k k' \<and> \<not> lt k' k then None else omap_find lt k' m)"
  using assms(1)
proof (induction m)
  case Nil
  then show ?case by auto
next
  case (Cons e m)
  obtain a v where e: "e = (a, v)" by (cases e)
  note wf = Cons.prems[unfolded e omap_wf_Cons]
  have a: "ok a" using wf by blast
  have IH: "omap_find lt k' (omap_erase lt k m) =
    (if \<not> lt k k' \<and> \<not> lt k' k then None else omap_find lt k' m)"
    using Cons.IH wf by blast
  consider "lt a k" | "\<not> lt a k" "lt k a" | "\<not> lt a k" "\<not> lt k a" by blast
  then show ?case
  proof cases
    case 1
    have "lt a k'" if "\<not> lt k' k"
      using 1 that neg_trans[OF a k' k] by blast
    with 1 IH e show ?thesis by auto
  next
    case 2
    have "\<not> lt a k'" "lt k' a" if "\<not> lt k k'"
      using 2 that neg_trans[OF k k' a] asym[OF a k'] by auto
    with 2 e show ?thesis by auto
  next
    case 3
    have okm: "\<forall>b \<in> fst ` set m. ok b" using wf by (simp add: omap_wf_def)
    have "\<forall>b \<in> fst ` set m. lt k' b" if "\<not> lt a k'"
      using that wf okm neg_trans[OF a k'] by blast
    then have none: "omap_find lt k' m = None" if "\<not> lt a k'"
      using that wf k' omap_find_before by blast
    have "lt a k' \<longleftrightarrow> lt k k'" "lt k' a \<longleftrightarrow> lt k' k"
      using 3 lt_eqv_left[OF a k k'] lt_eqv_right[OF a k k'] by simp_all
    with none 3 e show ?thesis by simp
  qed
qed

lemma omap_find_eqv:
  assumes "omap_wf lt ok m" and "ok k" and "ok k'" and "\<not> lt k k'" and "\<not> lt k' k"
  shows "omap_find lt k m = omap_find lt k' m"
  using assms(1)
proof (induction m)
  case (Cons e m)
  obtain a v where e: "e = (a, v)" by (cases e)
  have a: "ok a" using Cons.prems e by (simp add: omap_wf_Cons)
  from Cons e show ?case
    using lt_eqv_left[OF assms(2,3) a assms(4,5)] lt_eqv_right[OF assms(2,3) a assms(4,5)]
    by (simp add: omap_wf_Cons)
qed simp

lemma omap_find_Some_iff:
  assumes "omap_wf lt ok m" and k: "ok k"
  shows "omap_find lt k m = Some v \<longleftrightarrow> (\<exists>k'. (k', v) \<in> set m \<and> \<not> lt k k' \<and> \<not> lt k' k)"
  using assms(1)
proof (induction m)
  case (Cons e m)
  obtain a w where e: "e = (a, w)" by (cases e)
  note wf = Cons.prems[unfolded e omap_wf_Cons]
  have a: "ok a" using wf by blast
  have above: "\<forall>(b, x) \<in> set m. ok b \<and> lt a b" using wf by (auto simp: omap_wf_def)
  have after: "lt k b" if "\<not> lt a k" "(b, x) \<in> set m" for b x
    using that above neg_trans[OF a k, of b] by blast
  have IH: "omap_find lt k m = Some v \<longleftrightarrow> (\<exists>k'. (k', v) \<in> set m \<and> \<not> lt k k' \<and> \<not> lt k' k)"
    using Cons.IH wf by blast
  show ?case
  proof (cases "lt a k")
    case True
    with IH e show ?thesis by auto
  next
    case False
    with after e show ?thesis by auto
  qed
qed simp

end

text \<open>A comparator that separates any two different keys.\<close>

locale strict_total_order = weak_order +
  assumes separates: "ok a \<Longrightarrow> ok b \<Longrightarrow> \<not> lt a b \<Longrightarrow> \<not> lt b a \<Longrightarrow> a = b"
begin

lemma omap_wf_distinct: "omap_wf lt ok m \<Longrightarrow> distinct (map fst m)"
proof (induction m)
  case (Cons e m)
  then show ?case using irrefl by (cases e) (auto simp: omap_wf_Cons)
qed simp

lemma omap_find_map_of:
  assumes "omap_wf lt ok m" and "ok k"
  shows "omap_find lt k m = map_of m k"
proof (rule option.expand)
  have key: "k' = k" if "(k', v) \<in> set m" "\<not> lt k k'" "\<not> lt k' k" for k' v
    using that assms separates[of k' k] by (auto simp: omap_wf_def)
  have iff: "omap_find lt k m = Some v \<longleftrightarrow> map_of m k = Some v" for v
    unfolding omap_find_Some_iff[OF assms] map_of_eq_Some_iff[OF omap_wf_distinct[OF assms(1)]]
    using key irrefl[OF assms(2)] by blast
  then show "(omap_find lt k m = None) = (map_of m k = None)"
    by (metis not_None_eq)
  show "the (omap_find lt k m) = the (map_of m k)" if "omap_find lt k m \<noteq> None"
    using that iff by (metis not_None_eq option.sel)
qed

lemma map_of_alter:
  assumes "omap_wf lt ok m" and "ok k" and "ok k'"
  shows "map_of (omap_alter lt k f m) k' =
    (if k' = k then Some (f (map_of m k)) else map_of m k')"
  using omap_find_alter[OF assms, of f] assms omap_wf_alter[OF assms(1,2), of f]
    separates[of k k'] irrefl[of k]
  by (auto simp: omap_find_map_of)

lemma map_of_emplace:
  assumes "omap_wf lt ok m" and "ok k" and "ok k'"
  shows "map_of (omap_emplace lt k v m) k' =
    (if k' = k then Some (case map_of m k of None \<Rightarrow> v | Some w \<Rightarrow> w) else map_of m k')"
  using map_of_alter[OF assms] by (simp add: omap_emplace_def)

lemma map_of_erase:
  assumes "omap_wf lt ok m" and "ok k" and "ok k'"
  shows "map_of (omap_erase lt k m) k' = (if k' = k then None else map_of m k')"
  using omap_find_erase[OF assms] assms omap_wf_erase[OF assms(1), of k]
    separates[of k k'] irrefl[of k]
  by (auto simp: omap_find_map_of)

end

interpretation nat_order: strict_total_order "(<) :: nat \<Rightarrow> nat \<Rightarrow> bool" "\<lambda>_. True"
  by unfold_locales auto

section \<open>std::unordered_map as an association list under a key comparison\<close>

fun umap_find :: "('k \<Rightarrow> 'k \<Rightarrow> bool) \<Rightarrow> 'k \<Rightarrow> ('k \<times> 'v) list \<Rightarrow> 'v option" where
  "umap_find eq k [] = None"
| "umap_find eq k ((k', v) # m) = (if eq k' k then Some v else umap_find eq k m)"

text \<open>As \<open>omap_alter\<close>: a present entry is replaced, a missing one is added.\<close>

fun umap_alter ::
  "('k \<Rightarrow> 'k \<Rightarrow> bool) \<Rightarrow> 'k \<Rightarrow> ('v option \<Rightarrow> 'v) \<Rightarrow> ('k \<times> 'v) list \<Rightarrow> ('k \<times> 'v) list" where
  "umap_alter eq k f [] = [(k, f None)]"
| "umap_alter eq k f ((k', v) # m) =
     (if eq k' k then (k', f (Some v)) # m else (k', v) # umap_alter eq k f m)"

fun umap_erase :: "('k \<Rightarrow> 'k \<Rightarrow> bool) \<Rightarrow> 'k \<Rightarrow> ('k \<times> 'v) list \<Rightarrow> ('k \<times> 'v) list" where
  "umap_erase eq k [] = []"
| "umap_erase eq k ((k', v) # m) = (if eq k' k then m else (k', v) # umap_erase eq k m)"

definition umap_wf :: "('k \<Rightarrow> 'k \<Rightarrow> bool) \<Rightarrow> ('k \<Rightarrow> bool) \<Rightarrow> ('k \<times> 'v) list \<Rightarrow> bool" where
  "umap_wf eq ok m \<longleftrightarrow> (\<forall>k \<in> fst ` set m. ok k) \<and> sorted_wrt (\<lambda>a b. \<not> eq a b) (map fst m)"

lemma umap_wf_Nil [simp]: "umap_wf eq ok []"
  by (simp add: umap_wf_def)

lemma umap_wf_Cons:
  "umap_wf eq ok ((k, v) # m) \<longleftrightarrow> ok k \<and> (\<forall>k' \<in> fst ` set m. \<not> eq k k') \<and> umap_wf eq ok m"
  by (auto simp: umap_wf_def)

lemma umap_alter_keys: "fst ` set (umap_alter eq k f m) \<subseteq> insert k (fst ` set m)"
  by (induction eq k f m rule: umap_alter.induct) auto

lemma umap_erase_keys: "fst ` set (umap_erase eq k m) \<subseteq> fst ` set m"
  by (induction eq k m rule: umap_erase.induct) auto

text \<open>The contract of a key comparison: an equivalence on the keys \<open>ok\<close> admits.\<close>

locale key_equivalence =
  fixes eq :: "'k \<Rightarrow> 'k \<Rightarrow> bool" and ok :: "'k \<Rightarrow> bool"
  assumes refl: "ok a \<Longrightarrow> eq a a"
    and sym: "ok a \<Longrightarrow> ok b \<Longrightarrow> eq a b \<Longrightarrow> eq b a"
    and trans: "ok a \<Longrightarrow> ok b \<Longrightarrow> ok c \<Longrightarrow> eq a b \<Longrightarrow> eq b c \<Longrightarrow> eq a c"
begin

lemma eq_right: "ok a \<Longrightarrow> ok k \<Longrightarrow> ok k' \<Longrightarrow> eq k k' \<Longrightarrow> eq a k \<longleftrightarrow> eq a k'"
  using sym trans by blast

lemma umap_wf_alter: "umap_wf eq ok m \<Longrightarrow> ok k \<Longrightarrow> umap_wf eq ok (umap_alter eq k f m)"
proof (induction m)
  case Nil
  then show ?case by (simp add: umap_wf_Cons)
next
  case (Cons e m)
  obtain a v where e: "e = (a, v)" by (cases e)
  note wf = Cons.prems(1)[unfolded e umap_wf_Cons]
  show ?case
  proof (cases "eq a k")
    case True
    with e wf show ?thesis by (simp add: umap_wf_Cons)
  next
    case False
    have "\<not> eq a b" if "b \<in> fst ` set (umap_alter eq k f m)" for b
      using that False wf umap_alter_keys[of eq k f m] by blast
    with False e wf Cons show ?thesis by (simp add: umap_wf_Cons)
  qed
qed

lemma umap_wf_erase: "umap_wf eq ok m \<Longrightarrow> umap_wf eq ok (umap_erase eq k m)"
proof (induction m)
  case (Cons e m)
  obtain a v where e: "e = (a, v)" by (cases e)
  have "\<not> eq a b" if "b \<in> fst ` set (umap_erase eq k m)" for b
    using that Cons.prems e umap_erase_keys[of eq k m] by (auto simp only: umap_wf_Cons)
  with Cons e show ?case by (simp add: umap_wf_Cons)
qed simp

lemma umap_find_eqv:
  "umap_wf eq ok m \<Longrightarrow> ok k \<Longrightarrow> ok k' \<Longrightarrow> eq k k' \<Longrightarrow> umap_find eq k m = umap_find eq k' m"
proof (induction m)
  case (Cons e m)
  obtain a v where e: "e = (a, v)" by (cases e)
  with Cons eq_right[of a k k'] show ?case by (simp add: umap_wf_Cons)
qed simp

lemma umap_find_alter:
  "umap_wf eq ok m \<Longrightarrow> ok k \<Longrightarrow> ok k' \<Longrightarrow>
   umap_find eq k' (umap_alter eq k f m) =
     (if eq k k' then Some (f (umap_find eq k m)) else umap_find eq k' m)"
proof (induction m)
  case (Cons e m)
  obtain a v where e: "e = (a, v)" by (cases e)
  have a: "ok a" using Cons.prems e by (simp add: umap_wf_Cons)
  have "eq a k' \<longleftrightarrow> eq k k'" if "eq a k"
    using that a Cons.prems sym trans by blast
  moreover have "\<not> eq a k'" if "\<not> eq a k" "eq k k'"
    using that a Cons.prems eq_right by blast
  ultimately show ?case using Cons e by (auto simp: umap_wf_Cons)
qed auto

lemma umap_find_none:
  "\<forall>a \<in> fst ` set m. \<not> eq a k \<Longrightarrow> umap_find eq k m = None"
  by (induction m) auto

lemma umap_find_erase:
  "umap_wf eq ok m \<Longrightarrow> ok k \<Longrightarrow> ok k' \<Longrightarrow>
   umap_find eq k' (umap_erase eq k m) = (if eq k k' then None else umap_find eq k' m)"
proof (induction m)
  case (Cons e m)
  obtain a v where e: "e = (a, v)" by (cases e)
  note wf = Cons.prems(1)[unfolded e umap_wf_Cons]
  have okm: "\<forall>b \<in> fst ` set m. ok b" using wf by (simp add: umap_wf_def)
  have ak: "eq a k \<longleftrightarrow> eq a k'" if "eq k k'"
    using that wf Cons.prems(2,3) eq_right by blast
  have IH: "umap_find eq k' (umap_erase eq k m) = (if eq k k' then None else umap_find eq k' m)"
    using Cons.IH wf Cons.prems(2,3) by blast
  show ?case
  proof (cases "eq a k")
    case False
    with IH ak e show ?thesis by simp
  next
    case True
    have "\<not> eq b k'" if "eq k k'" "b \<in> fst ` set m" for b
      using that True ak wf okm Cons.prems(3) trans[of a k' b] sym[of b k'] by blast
    then have "umap_find eq k' m = None" if "eq k k'"
      using that umap_find_none[of m k'] by blast
    moreover have "\<not> eq a k'" if "\<not> eq k k'"
      using that True wf Cons.prems(2,3) sym[of a k] trans[of k a k'] by blast
    ultimately show ?thesis using True e by simp
  qed
qed simp

end

interpretation eq_keys: key_equivalence "(=)" "\<lambda>_. True"
  by unfold_locales auto

end
