(* ===== verification/CharText.thy ===== *)
theory CharText
  imports Prelude
begin

text \<open>
  What the code uses of \<open><cctype>\<close>, \<open><charconv>\<close>, \<open>std::string\<close> comparison and integer
  output, in the "C" locale the program runs in (it never calls \<open>setlocale\<close>). A \<open>string\<close>
  is a list of bytes, as \<open>std::string\<close> is.
\<close>

section \<open>Character classes\<close>

definition ccode :: "char \<Rightarrow> nat" where
  "ccode c = of_char c"

definition isspace :: "char \<Rightarrow> bool" where
  "isspace c \<longleftrightarrow> (9 \<le> ccode c \<and> ccode c \<le> 13) \<or> ccode c = 32"

definition isdigit :: "char \<Rightarrow> bool" where
  "isdigit c \<longleftrightarrow> 48 \<le> ccode c \<and> ccode c \<le> 57"

definition isalpha :: "char \<Rightarrow> bool" where
  "isalpha c \<longleftrightarrow> (65 \<le> ccode c \<and> ccode c \<le> 90) \<or> (97 \<le> ccode c \<and> ccode c \<le> 122)"

definition isalnum :: "char \<Rightarrow> bool" where
  "isalnum c \<longleftrightarrow> isalpha c \<or> isdigit c"

declare ccode_def [char_evals] isspace_def [char_evals] isdigit_def [char_evals]
  isalpha_def [char_evals] isalnum_def [char_evals]

definition toupper :: "char \<Rightarrow> char" where
  "toupper c = (if 97 \<le> ccode c \<and> ccode c \<le> 122 then char_of (ccode c - 32) else c)"

lemma ccode_char_of: "n < 256 \<Longrightarrow> ccode (char_of n) = n"
  by (simp add: ccode_def)

lemma ccode_eq_iff: "ccode c = ccode d \<longleftrightarrow> c = d"
  by (simp add: ccode_def)

lemma ccode_bound: "ccode c < 256"
  by (simp add: ccode_def)

lemma toupper_idem [simp]: "toupper (toupper c) = toupper c"
proof (cases "97 \<le> ccode c \<and> ccode c \<le> 122")
  case True
  then have "ccode c - 32 < 256" by linarith
  then have "ccode (toupper c) = ccode c - 32"
    using True ccode_char_of[of "ccode c - 32"] by (simp add: toupper_def)
  with True show ?thesis by (auto simp: toupper_def)
next
  case False
  then have "toupper c = c" by (auto simp: toupper_def)
  then show ?thesis by simp
qed

section \<open>The order of std::string\<close>

text \<open>Lexicographic on unsigned bytes, a proper prefix first (\<open>char_traits<char>\<close>).\<close>

fun str_less :: "string \<Rightarrow> string \<Rightarrow> bool" where
  "str_less xs [] = False"
| "str_less [] (y # ys) = True"
| "str_less (x # xs) (y # ys) = (if x = y then str_less xs ys else ccode x < ccode y)"

lemma str_less_irrefl [simp]: "\<not> str_less s s"
  by (induction s) auto

lemma str_less_trans: "str_less a b \<Longrightarrow> str_less b c \<Longrightarrow> str_less a c"
proof (induction a b arbitrary: c rule: str_less.induct)
  case (2 y ys)
  then show ?case by (cases c) auto
next
  case (3 x xs y ys)
  show ?case
  proof (cases c)
    case Nil
    then show ?thesis using 3 by simp
  next
    case (Cons z zs)
    have "str_less xs ys \<Longrightarrow> str_less ys zs \<Longrightarrow> str_less xs zs" if "x = y" using 3(1) that by blast
    with 3(2,3) Cons show ?thesis
      by (cases "x = y"; cases "y = z"; cases "x = z") (simp_all split: if_split_asm)
  qed
qed simp

lemma str_less_total: "str_less a b \<or> a = b \<or> str_less b a"
proof (induction a b rule: str_less.induct)
  case (1 xs)
  then show ?case by (cases xs) auto
next
  case (3 x xs y ys)
  then show ?case using ccode_eq_iff[of x y] by (cases "x = y") auto
qed auto

interpretation str_order: strict_total_order str_less "\<lambda>_. True"
proof unfold_locales
  fix a b c :: string
  assume "\<not> str_less a b" "\<not> str_less b c"
  then show "\<not> str_less a c"
    using str_less_total[of a b] str_less_total[of b c] str_less_trans[of c b a] str_less_trans[of a c b]
      str_less_irrefl by blast
next
  fix a b c :: string
  show "str_less a b \<Longrightarrow> str_less b c \<Longrightarrow> str_less a c" by (rule str_less_trans)
  show "\<not> str_less a b \<Longrightarrow> \<not> str_less b a \<Longrightarrow> a = b" using str_less_total[of a b] by blast
qed simp

section \<open>Integers in decimal\<close>

definition digit_char :: "nat \<Rightarrow> char" where
  "digit_char n = char_of (48 + n)"

fun show_nat :: "nat \<Rightarrow> string" where
  "show_nat n = (if n < 10 then [digit_char n] else show_nat (n div 10) @ [digit_char (n mod 10)])"

declare show_nat.simps [simp del]

text \<open>\<open>std::to_string\<close> and \<open>operator<<\<close> of a signed integer.\<close>

definition show_int :: "int \<Rightarrow> string" where
  "show_int i = (if i < 0 then CHR ''-'' # show_nat (nat (- i)) else show_nat (nat i))"

definition digit_val :: "char \<Rightarrow> nat" where
  "digit_val c = ccode c - 48"

fun digits_val :: "nat \<Rightarrow> string \<Rightarrow> nat" where
  "digits_val acc [] = acc"
| "digits_val acc (c # cs) = digits_val (10 * acc + digit_val c) cs"

lemma digit_char_code: "n < 10 \<Longrightarrow> ccode (digit_char n) = 48 + n"
  by (simp add: digit_char_def ccode_char_of)

lemma isdigit_digit_char: "n < 10 \<Longrightarrow> isdigit (digit_char n)"
  by (simp add: isdigit_def digit_char_code)

lemma digit_val_char: "n < 10 \<Longrightarrow> digit_val (digit_char n) = n"
  by (simp add: digit_val_def digit_char_code)

lemma digits_val_append: "digits_val acc (xs @ ys) = digits_val (digits_val acc xs) ys"
  by (induction acc xs rule: digits_val.induct) auto

lemma show_nat_digits: "\<forall>c \<in> set (show_nat n). isdigit c"
proof (induction n rule: show_nat.induct)
  case (1 n)
  then show ?case
    by (subst show_nat.simps) (auto simp: isdigit_digit_char)
qed

lemma show_nat_nonempty [simp]: "show_nat n \<noteq> []"
  by (subst show_nat.simps) simp

lemma digits_val_show_nat: "digits_val 0 (show_nat n) = n"
proof (induction n rule: show_nat.induct)
  case (1 n)
  then show ?case
    by (subst show_nat.simps) (auto simp: digits_val_append digit_val_char)
qed

lemma isdigit_simps [simp]: "\<not> isdigit (CHR ''-'')" "\<not> isdigit (CHR ''.'')"
  by (simp_all add: isdigit_def ccode_def)

lemma show_nat_hd: "show_nat n = c # cs \<Longrightarrow> isdigit c \<and> c \<noteq> CHR ''-''"
  using show_nat_digits[of n] by auto

text \<open>
  \<open>parseInt\<close> of the parser: \<open>std::from_chars\<close> into an \<open>int64_t\<close>, which takes an optional
  minus sign and at least one digit, must use the whole text and fails out of range.
\<close>

definition int64_ok :: "int \<Rightarrow> bool" where
  "int64_ok i \<longleftrightarrow> - (2 ^ 63) \<le> i \<and> i < 2 ^ 63"

definition parseInt :: "string \<Rightarrow> 64 word outcome" where
  "parseInt text =
     (let neg = (case text of c # _ \<Rightarrow> c = CHR ''-'' | [] \<Rightarrow> False);
          ds = (if neg then tl text else text);
          i = (if neg then - int (digits_val 0 ds) else int (digits_val 0 ds))
      in if ds = [] \<or> \<not> list_all isdigit ds \<or> \<not> int64_ok i
         then Inl (RuntimeError ''invalid integer literal'')
         else Inr (word_of_int i))"

lemma int64_ok_sint: "int64_ok (sint (w :: 64 word))"
  using sint_range_size[of w] by (simp add: int64_ok_def word_size)

text \<open>Every 64-bit integer, the least one included, survives printing and parsing.\<close>

lemma parseInt_show_int: "parseInt (show_int (sint w)) = Inr w"
proof (cases "sint w < 0")
  case True
  then show ?thesis
    using show_nat_digits[of "nat (- sint w)"] int64_ok_sint[of w]
    by (simp add: show_int_def parseInt_def list_all_iff digits_val_show_nat)
next
  case False
  obtain c cs where s: "show_nat (nat (sint w)) = c # cs"
    by (cases "show_nat (nat (sint w))") auto
  have "digits_val 0 (c # cs) = nat (sint w)"
    using digits_val_show_nat[of "nat (sint w)"] s by simp
  moreover have "list_all isdigit (c # cs)" "c \<noteq> CHR ''-''"
    using show_nat_digits[of "nat (sint w)"] show_nat_hd[OF s] s by (auto simp: list_all_iff)
  ultimately show ?thesis
    using False s int64_ok_sint[of w]
    by (simp add: show_int_def parseInt_def Let_def del: digits_val.simps)
qed

section \<open>Prefixes, suffixes and substrings\<close>

definition str_starts_with :: "string \<Rightarrow> string \<Rightarrow> bool" where
  "str_starts_with s p \<longleftrightarrow> take (length p) s = p"

definition str_ends_with :: "string \<Rightarrow> string \<Rightarrow> bool" where
  "str_ends_with s p \<longleftrightarrow> length p \<le> length s \<and> drop (length s - length p) s = p"

text \<open>\<open>a, b, c\<close>: a list of texts with a separator between two.\<close>

fun join_with :: "string \<Rightarrow> string list \<Rightarrow> string" where
  "join_with sep [] = []"
| "join_with sep [x] = x"
| "join_with sep (x # y # zs) = x @ sep @ join_with sep (y # zs)"

end
