(* ===== verification/Doubles.thy ===== *)
theory Doubles
  imports CharText
begin

text \<open>
  C++ \<open>double\<close> as its IEEE 754 binary64 bit pattern, a \<open>64 word\<close>. The code uses four things
  of it: comparison, copying its bytes (which the pattern gives for free), \<open>operator<<\<close>, and
  \<open>std::stod\<close> on number tokens. The two conversions work on exact integers, so they evaluate.
  \<^item> \<open>dbl_show\<close> is \<open>operator<<\<close> with the stream's defaults, that is \<open>printf\<close>'s \<open>%g\<close> with six
    significant digits, correctly rounded (round half to even) from the exact value.
  \<^item> \<open>stod\<close> is \<open>std::stod\<close> on a text over sign, digits and points, which is all the tokenizer
    ever passes: longest valid prefix, correct rounding, \<open>out_of_range\<close> when the result
    overflows or is an inexact subnormal (\<open>ERANGE\<close> of \<open>strtod\<close>).
\<close>

type_synonym double = "64 word"

section \<open>Fields of the pattern\<close>

definition dbl_negative :: "double \<Rightarrow> bool" where
  "dbl_negative d \<longleftrightarrow> 2 ^ 63 \<le> uint d"

definition dbl_magnitude :: "double \<Rightarrow> int" where
  "dbl_magnitude d = uint d mod 2 ^ 63"

definition dbl_infinity :: int where
  "dbl_infinity = 2047 * 2 ^ 52"

definition dbl_isnan :: "double \<Rightarrow> bool" where
  "dbl_isnan d \<longleftrightarrow> dbl_infinity < dbl_magnitude d"

section \<open>Comparison\<close>

text \<open>
  The magnitude bits of two numbers of one sign compare as the numbers do; both zeros have
  key 0. A NaN compares with nothing, itself included.
\<close>

definition dbl_key :: "double \<Rightarrow> int" where
  "dbl_key d = (if dbl_negative d then - dbl_magnitude d else dbl_magnitude d)"

definition dbl_eq :: "double \<Rightarrow> double \<Rightarrow> bool" where
  "dbl_eq a b \<longleftrightarrow> \<not> dbl_isnan a \<and> \<not> dbl_isnan b \<and> dbl_key a = dbl_key b"

definition dbl_less :: "double \<Rightarrow> double \<Rightarrow> bool" where
  "dbl_less a b \<longleftrightarrow> \<not> dbl_isnan a \<and> \<not> dbl_isnan b \<and> dbl_key a < dbl_key b"

section \<open>Exact value\<close>

text \<open>The absolute value of a finite number as a fraction \<open>dbl_num d / dbl_den d\<close>.\<close>

definition dbl_exponent :: "double \<Rightarrow> int" where
  "dbl_exponent d = dbl_magnitude d div 2 ^ 52"

definition dbl_significand :: "double \<Rightarrow> nat" where
  "dbl_significand d =
     nat (dbl_magnitude d mod 2 ^ 52) + (if dbl_exponent d = 0 then 0 else 2 ^ 52)"

definition dbl_scale :: "double \<Rightarrow> int" where
  "dbl_scale d = (if dbl_exponent d = 0 then - 1074 else dbl_exponent d - 1075)"

definition dbl_num :: "double \<Rightarrow> nat" where
  "dbl_num d = dbl_significand d * 2 ^ nat (dbl_scale d)"

definition dbl_den :: "double \<Rightarrow> nat" where
  "dbl_den d = 2 ^ nat (- dbl_scale d)"

text \<open>Integer quotient, rounded half to even.\<close>

definition round_div :: "nat \<Rightarrow> nat \<Rightarrow> nat" where
  "round_div n d =
     (let q = n div d; r = n mod d
      in if 2 * r < d then q else if d < 2 * r then q + 1 else if even q then q else q + 1)"

section \<open>Output\<close>

fun dec_len :: "nat \<Rightarrow> nat" where
  "dec_len n = (if n < 10 then 1 else 1 + dec_len (n div 10))"

declare dec_len.simps [simp del]

text \<open>The decimal exponent \<open>X\<close> with \<open>10^X \<le> n/d < 10^(X+1)\<close>, for positive \<open>n\<close>.\<close>

definition dec_exponent :: "nat \<Rightarrow> nat \<Rightarrow> int" where
  "dec_exponent n d =
     (let e = int (dec_len n) - int (dec_len d)
      in if d * 10 ^ nat e \<le> n * 10 ^ nat (- e) then e else e - 1)"

text \<open>Six significant digits and the exponent they are scaled by.\<close>

definition dec_digits :: "nat \<Rightarrow> nat \<Rightarrow> nat \<times> int" where
  "dec_digits n d =
     (let x = dec_exponent n d;
          q = round_div (n * 10 ^ nat (5 - x)) (d * 10 ^ nat (x - 5))
      in if q = 1000000 then (100000, x + 1) else (q, x))"

definition strip_zeros :: "string \<Rightarrow> string" where
  "strip_zeros s = rev (dropWhile (\<lambda>c. c = CHR ''0'') (rev s))"

definition with_fraction :: "string \<Rightarrow> string \<Rightarrow> string" where
  "with_fraction whole frac =
     (if strip_zeros frac = [] then whole else whole @ CHR ''.'' # strip_zeros frac)"

definition show_g :: "nat \<times> int \<Rightarrow> string" where
  "show_g p =
     (let s = show_nat (fst p); x = snd p
      in if 0 \<le> x \<and> x < 6 then with_fraction (take (nat x + 1) s) (drop (nat x + 1) s)
         else if - 4 \<le> x \<and> x < 0 then with_fraction ''0'' (replicate (nat (- x - 1)) (CHR ''0'') @ s)
         else with_fraction (take 1 s) (drop 1 s)
              @ (if x < 0 then ''e-'' else ''e+'')
              @ (if \<bar>x\<bar> < 10 then CHR ''0'' # show_nat (nat \<bar>x\<bar>) else show_nat (nat \<bar>x\<bar>)))"

definition dbl_show :: "double \<Rightarrow> string" where
  "dbl_show d =
     (if dbl_negative d then ''-'' else '''') @
     (if dbl_isnan d then ''nan''
      else if dbl_magnitude d = dbl_infinity then ''inf''
      else if dbl_magnitude d = 0 then ''0''
      else show_g (dec_digits (dbl_num d) (dbl_den d)))"

section \<open>Input\<close>

fun bit_len :: "nat \<Rightarrow> nat" where
  "bit_len n = (if n = 0 then 0 else 1 + bit_len (n div 2))"

declare bit_len.simps [simp del]

text \<open>The binary exponent \<open>e\<close> with \<open>2^e \<le> n/d < 2^(e+1)\<close>, for positive \<open>n\<close>.\<close>

definition bin_exponent :: "nat \<Rightarrow> nat \<Rightarrow> int" where
  "bin_exponent n d =
     (let e = int (bit_len n) - int (bit_len d)
      in if d * 2 ^ nat e \<le> n * 2 ^ nat (- e) then e else e - 1)"

text \<open>
  The double nearest to \<open>n/d\<close>. The least significant bit of the result weighs \<open>2^q\<close>; adding
  the significand to the shifted exponent field carries into the exponent when rounding
  reaches the next power of two.
\<close>

definition dbl_round :: "bool \<Rightarrow> nat \<Rightarrow> nat \<Rightarrow> double outcome" where
  "dbl_round neg n d =
     (if n = 0 then Inr (if neg then word_of_int (2 ^ 63) else 0)
      else
        (let q = max (bin_exponent n d - 52) (- 1074);
             a = n * 2 ^ nat (- q); b = d * 2 ^ nat q;
             m = round_div a b;
             bits = (q + 1074) * 2 ^ 52 + int m
         in if dbl_infinity \<le> bits \<or> (m < 2 ^ 52 \<and> a mod b \<noteq> 0)
            then Inl (OutOfRange ''stod'')
            else Inr (word_of_int ((if neg then 2 ^ 63 else 0) + bits))))"

definition stod :: "string \<Rightarrow> double outcome" where
  "stod s =
     (let neg = (case s of c # _ \<Rightarrow> c = CHR ''-'' | [] \<Rightarrow> False);
          body = (if neg then tl s else s);
          whole = takeWhile isdigit body;
          rest = dropWhile isdigit body;
          frac = (case rest of c # r \<Rightarrow> if c = CHR ''.'' then takeWhile isdigit r else [] | [] \<Rightarrow> [])
      in if whole = [] \<and> frac = [] then Inl (InvalidArgument ''stod'')
         else dbl_round neg (digits_val 0 (whole @ frac)) (10 ^ length frac))"

section \<open>Laws\<close>

lemma dbl_eq_iff_incomparable:
  "\<not> dbl_isnan a \<Longrightarrow> \<not> dbl_isnan b \<Longrightarrow> dbl_eq a b \<longleftrightarrow> \<not> dbl_less a b \<and> \<not> dbl_less b a"
  by (auto simp: dbl_eq_def dbl_less_def)

lemma dbl_less_irrefl [simp]: "\<not> dbl_less a a"
  by (simp add: dbl_less_def)

lemma dbl_eq_refl: "\<not> dbl_isnan a \<Longrightarrow> dbl_eq a a"
  by (simp add: dbl_eq_def)

text \<open>A parsed number is never a NaN: the rounding refuses everything from infinity up.\<close>

lemma dbl_isnan_word_of_int:
  assumes "0 \<le> i" and "i < dbl_infinity"
  shows "\<not> dbl_isnan (word_of_int i)" and "\<not> dbl_isnan (word_of_int (2 ^ 63 + i))"
proof -
  have i: "i < 2 ^ 63" using assms by (simp add: dbl_infinity_def)
  have "uint (word_of_int i :: double) = i"
    using assms i by (simp add: uint_word_of_int)
  then show "\<not> dbl_isnan (word_of_int i)"
    using assms i by (simp add: dbl_isnan_def dbl_magnitude_def)
  have "uint (word_of_int (2 ^ 63 + i) :: double) = 2 ^ 63 + i"
    using assms i by (subst uint_word_of_int) (simp add: take_bit_eq_mod)
  then show "\<not> dbl_isnan (word_of_int (2 ^ 63 + i))"
    using assms i by (simp add: dbl_isnan_def dbl_magnitude_def)
qed

lemma dbl_round_not_nan:
  assumes "dbl_round neg n d = Inr x"
  shows "\<not> dbl_isnan x"
proof (cases "n = 0")
  case True
  have "\<not> dbl_isnan (word_of_int 0)" "\<not> dbl_isnan (word_of_int (2 ^ 63 + 0))"
    by (rule dbl_isnan_word_of_int; simp add: dbl_infinity_def)+
  with True assms show ?thesis by (auto simp: dbl_round_def split: if_splits)
next
  case False
  define q where "q = max (bin_exponent n d - 52) (- 1074)"
  define m where "m = round_div (n * 2 ^ nat (- q)) (d * 2 ^ nat q)"
  define bits where "bits = (q + 1074) * 2 ^ 52 + int m"
  have "- 1074 \<le> q" by (simp add: q_def)
  then have "0 \<le> bits" by (simp add: bits_def)
  moreover have "bits < dbl_infinity" "x = word_of_int ((if neg then 2 ^ 63 else 0) + bits)"
    using assms False by (auto simp: dbl_round_def Let_def q_def m_def bits_def split: if_splits)
  ultimately show ?thesis
    using dbl_isnan_word_of_int[of bits] by (auto split: if_splits)
qed

lemma stod_not_nan: "stod s = Inr x \<Longrightarrow> \<not> dbl_isnan x"
  by (auto simp: stod_def Let_def split: if_splits dest: dbl_round_not_nan)

end
