(* ===== verification/Values.thy ===== *)
theory Values
  imports Doubles
begin

text \<open>
  \<open>common/value.hpp\<close>, \<open>common/value.cpp\<close>, \<open>common/comparison_operator.hpp\<close> and
  \<open>storage/row.hpp\<close>: column types, values, columns, rows, and the two comparisons every
  other component relies on. \<open>Value_eq\<close> is \<open>operator==\<close>, not HOL equality: it identifies the
  two zeros and separates a NaN from itself. \<open>Value_less\<close> is a strict weak order on the values
  without a NaN (\<open>value_order\<close>), and \<open>Value_eq\<close> is its equivalence.
\<close>

section \<open>Types\<close>

datatype comparison_operator = Equal | Greater | Less

text \<open>
  An enum with a fixed underlying type can hold any byte: \<open>loadDatabase\<close> casts one in
  unchecked. \<open>CRaw b\<close> is such a value without an enumerator.
\<close>

datatype column_type = CInt | CDouble | CString | CRaw "8 word"

datatype sql_value = VNull | VInt "64 word" | VDouble double | VString string

record column =
  col_name :: string
  col_type :: column_type
  col_nullable :: bool

type_synonym row = "sql_value list"
type_synonym row_id = nat

definition ColumnType_code :: "column_type \<Rightarrow> 8 word" where
  "ColumnType_code t = (case t of CInt \<Rightarrow> 0 | CDouble \<Rightarrow> 1 | CString \<Rightarrow> 2 | CRaw b \<Rightarrow> b)"

definition ColumnType_cast :: "8 word \<Rightarrow> column_type" where
  "ColumnType_cast b = (if b = 0 then CInt else if b = 1 then CDouble else if b = 2 then CString else CRaw b)"

definition ColumnType_valid :: "column_type \<Rightarrow> bool" where
  "ColumnType_valid t \<longleftrightarrow> t = CInt \<or> t = CDouble \<or> t = CString"

section \<open>Operations of Value\<close>

definition Value_isNull :: "sql_value \<Rightarrow> bool" where
  "Value_isNull v = (case v of VNull \<Rightarrow> True | _ \<Rightarrow> False)"

fun Value_type :: "sql_value \<Rightarrow> column_type outcome" where
  "Value_type VNull = Inl (RuntimeError ''null value has no concrete column type'')"
| "Value_type (VInt _) = Inr CInt"
| "Value_type (VDouble _) = Inr CDouble"
| "Value_type (VString _) = Inr CString"

fun Value_toString :: "sql_value \<Rightarrow> string" where
  "Value_toString VNull = ''NULL''"
| "Value_toString (VInt i) = show_int (sint i)"
| "Value_toString (VDouble d) = dbl_show d"
| "Value_toString (VString s) = s"

text \<open>\<open>data_.index()\<close> of the variant.\<close>

fun Value_index :: "sql_value \<Rightarrow> nat" where
  "Value_index VNull = 0"
| "Value_index (VInt _) = 1"
| "Value_index (VDouble _) = 2"
| "Value_index (VString _) = 3"

text \<open>The defaulted \<open>operator==\<close>: same alternative, then \<open>==\<close> of the contents.\<close>

fun Value_eq :: "sql_value \<Rightarrow> sql_value \<Rightarrow> bool" where
  "Value_eq VNull VNull = True"
| "Value_eq (VInt a) (VInt b) = (a = b)"
| "Value_eq (VDouble a) (VDouble b) = dbl_eq a b"
| "Value_eq (VString a) (VString b) = (a = b)"
| "Value_eq _ _ = False"

text \<open>\<open>operator<\<close> of the variant, where both sides hold the same alternative.\<close>

fun Value_data_less :: "sql_value \<Rightarrow> sql_value \<Rightarrow> bool" where
  "Value_data_less (VInt a) (VInt b) = (sint a < sint b)"
| "Value_data_less (VDouble a) (VDouble b) = dbl_less a b"
| "Value_data_less (VString a) (VString b) = str_less a b"
| "Value_data_less a b = (Value_index a < Value_index b)"

definition Value_type_code :: "sql_value \<Rightarrow> nat" where
  "Value_type_code v = (case Value_type v of Inl _ \<Rightarrow> 0 | Inr t \<Rightarrow> unat (ColumnType_code t))"

definition Value_less :: "sql_value \<Rightarrow> sql_value \<Rightarrow> bool" where
  "Value_less lhs rhs =
     (if Value_isNull lhs \<or> Value_isNull rhs then Value_index lhs < Value_index rhs
      else if Value_type lhs \<noteq> Value_type rhs then Value_type_code lhs < Value_type_code rhs
      else Value_data_less lhs rhs)"

fun ColumnType_toString :: "column_type \<Rightarrow> string" where
  "ColumnType_toString CInt = ''INT''"
| "ColumnType_toString CDouble = ''DOUBLE''"
| "ColumnType_toString CString = ''STRING''"
| "ColumnType_toString (CRaw _) = ''UNKNOWN''"

definition columnTypeFromString :: "string \<Rightarrow> column_type option" where
  "columnTypeFromString text =
     (let normalized = map toupper text
      in if normalized = ''INT'' then Some CInt
         else if normalized = ''DOUBLE'' then Some CDouble
         else if normalized = ''STRING'' then Some CString
         else None)"

text \<open>The executor's comparison of a column value with a literal.\<close>

fun compare_values :: "sql_value \<Rightarrow> comparison_operator \<Rightarrow> sql_value \<Rightarrow> bool" where
  "compare_values l Equal r = Value_eq l r"
| "compare_values l Greater r = Value_less r l"
| "compare_values l Less r = Value_less l r"

text \<open>The three operators as a finite type, so that quantifiers over them compute.\<close>

instantiation comparison_operator :: enum
begin

definition "enum_comparison_operator = [Equal, Greater, Less]"

definition "enum_all_comparison_operator P \<longleftrightarrow> P Equal \<and> P Greater \<and> P Less"

definition "enum_ex_comparison_operator P \<longleftrightarrow> P Equal \<or> P Greater \<or> P Less"

instance
proof
  have all: "(\<forall>x. P x) \<longleftrightarrow> P Equal \<and> P Greater \<and> P Less" for P :: "comparison_operator \<Rightarrow> bool"
    by (metis comparison_operator.exhaust)
  show "UNIV = set (enum_class.enum :: comparison_operator list)"
    by (auto simp: enum_comparison_operator_def intro: comparison_operator.exhaust)
  show "distinct (enum_class.enum :: comparison_operator list)"
    by (simp add: enum_comparison_operator_def)
  fix P :: "comparison_operator \<Rightarrow> bool"
  show "enum_class.enum_all P \<longleftrightarrow> Ball UNIV P"
    by (simp add: enum_all_comparison_operator_def all)
  show "enum_class.enum_ex P \<longleftrightarrow> Bex UNIV P"
    using all[of "\<lambda>x. \<not> P x"] by (auto simp: enum_ex_comparison_operator_def)
qed

end

section \<open>Laws\<close>

text \<open>The values the order is meant for: everything but a NaN.\<close>

definition value_ok :: "sql_value \<Rightarrow> bool" where
  "value_ok v = (case v of VDouble d \<Rightarrow> \<not> dbl_isnan d | _ \<Rightarrow> True)"

lemma value_ok_simps [simp]:
  "value_ok VNull" "value_ok (VInt i)" "value_ok (VString s)"
  "value_ok (VDouble d) \<longleftrightarrow> \<not> dbl_isnan d"
  by (simp_all add: value_ok_def)

lemma Value_isNull_simps [simp]:
  "Value_isNull VNull" "\<not> Value_isNull (VInt i)" "\<not> Value_isNull (VDouble d)"
  "\<not> Value_isNull (VString s)"
  by (simp_all add: Value_isNull_def)

lemma Value_isNull_iff: "Value_isNull v \<longleftrightarrow> v = VNull"
  by (cases v) auto

lemma Value_less_simps [simp]:
  "\<not> Value_less v VNull"
  "Value_less VNull w \<longleftrightarrow> w \<noteq> VNull"
  "Value_less (VInt a) (VInt b) \<longleftrightarrow> sint a < sint b"
  "Value_less (VInt a) (VDouble d)" "Value_less (VInt a) (VString s)"
  "\<not> Value_less (VDouble d) (VInt a)"
  "Value_less (VDouble d) (VDouble e) \<longleftrightarrow> dbl_less d e"
  "Value_less (VDouble d) (VString s)"
  "\<not> Value_less (VString s) (VInt a)" "\<not> Value_less (VString s) (VDouble d)"
  "Value_less (VString s) (VString t) \<longleftrightarrow> str_less s t"
  by (cases v; cases w; simp add: Value_less_def Value_type_code_def ColumnType_code_def)+

lemma sint_not_less_eq: "\<not> sint a < sint b \<Longrightarrow> \<not> sint b < sint a \<Longrightarrow> a = b" for a b :: "64 word"
  by (simp add: signed_word_eqI)

interpretation value_order: weak_order Value_less value_ok
proof unfold_locales
  fix a b c
  assume ok: "value_ok a" "value_ok b" "value_ok c"
  show "\<not> Value_less a a" by (cases a) auto
  show "Value_less a b \<Longrightarrow> Value_less b c \<Longrightarrow> Value_less a c"
    using ok by (cases a; cases b; cases c) (auto simp: dbl_less_def intro: str_less_trans)
  show "\<not> Value_less a b \<Longrightarrow> \<not> Value_less b c \<Longrightarrow> \<not> Value_less a c"
    using ok by (cases a; cases b; cases c)
      (auto simp: dbl_less_def dest: str_order.neg_trans[OF TrueI TrueI TrueI])
qed

lemma Value_eq_incomparable:
  assumes "value_ok a" and "value_ok b"
  shows "Value_eq a b \<longleftrightarrow> \<not> Value_less a b \<and> \<not> Value_less b a"
  using assms
  by (cases a; cases b)
    (auto simp: dbl_eq_iff_incomparable intro: sint_not_less_eq
      dest: str_order.separates[OF TrueI TrueI])

text \<open>Of the three comparisons of two values exactly one holds.\<close>

lemma compare_values_one:
  assumes "value_ok a" and "value_ok b"
  shows "length (filter (\<lambda>op. compare_values a op b) Enum.enum) = 1"
  using Value_eq_incomparable[OF assms] value_order.asym[OF assms] value_order.asym[OF assms(2,1)]
  by (auto simp: enum_comparison_operator_def)

interpretation value_keys: key_equivalence Value_eq value_ok
proof unfold_locales
  fix a b c
  assume ok: "value_ok a" "value_ok b" "value_ok c"
  show "Value_eq a a" using ok by (cases a) (auto simp: dbl_eq_refl)
  show "Value_eq a b \<Longrightarrow> Value_eq b a" by (cases a; cases b) (auto simp: dbl_eq_def)
  show "Value_eq a b \<Longrightarrow> Value_eq b c \<Longrightarrow> Value_eq a c"
    by (cases a; cases b; cases c) (auto simp: dbl_eq_def)
qed

lemma Value_eq_sym: "Value_eq a b \<longleftrightarrow> Value_eq b a"
  by (cases a; cases b) (auto simp: dbl_eq_def)

text \<open>Away from doubles \<open>operator==\<close> is identity.\<close>

lemma Value_eq_not_double: "(\<forall>d. a \<noteq> VDouble d) \<Longrightarrow> Value_eq a b \<longleftrightarrow> a = b"
  by (cases a; cases b) auto

lemma ColumnType_cast_code: "ColumnType_valid t \<Longrightarrow> ColumnType_cast (ColumnType_code t) = t"
  by (auto simp: ColumnType_valid_def ColumnType_cast_def ColumnType_code_def)

lemma columnTypeFromString_toString:
  "ColumnType_valid t \<Longrightarrow> columnTypeFromString (ColumnType_toString t) = Some t"
  unfolding ColumnType_valid_def by (elim disjE; hypsubst; code_simp)

end
