(* ===== verification/Bytes.thy ===== *)
theory Bytes
  imports CharText
begin

text \<open>
  The bytes of C++ objects, as \<open>row_store.cpp\<close>, \<open>storage_manager.cpp\<close> and
  \<open>write_ahead_log.cpp\<close> copy them. Integers are stored least significant byte first, the order
  of the x86-64 and AArch64 hosts of the project's CI; a \<open>char\<close> is one byte.
\<close>

type_synonym byte = "8 word"

fun le_bytes :: "nat \<Rightarrow> nat \<Rightarrow> byte list" where
  "le_bytes 0 n = []"
| "le_bytes (Suc k) n = word_of_nat n # le_bytes k (n div 256)"

fun le_value :: "byte list \<Rightarrow> nat" where
  "le_value [] = 0"
| "le_value (b # bs) = unat b + 256 * le_value bs"

definition bytes32 :: "32 word \<Rightarrow> byte list" where
  "bytes32 w = le_bytes 4 (unat w)"

definition bytes64 :: "64 word \<Rightarrow> byte list" where
  "bytes64 w = le_bytes 8 (unat w)"

definition byte_of_char :: "char \<Rightarrow> byte" where
  "byte_of_char c = word_of_nat (ccode c)"

definition char_of_byte :: "byte \<Rightarrow> char" where
  "char_of_byte b = char_of (unat b)"

text \<open>A container's size as the \<open>std::uint64_t\<close> the code casts it to.\<close>

definition size64 :: "'a list \<Rightarrow> 64 word" where
  "size64 xs = word_of_nat (length xs)"

lemma length_le_bytes [simp]: "length (le_bytes k n) = k"
  by (induction k n rule: le_bytes.induct) auto

lemma unat_bound: "unat (w :: 'a::len word) < 2 ^ LENGTH('a)"
  by (rule unsigned_less)

lemma unat_byte_of_nat: "unat (word_of_nat n :: byte) = n mod 256"
  by (simp add: unat_of_nat)

lemma le_value_le_bytes: "le_value (le_bytes k n) = n mod 256 ^ k"
proof (induction k n rule: le_bytes.induct)
  case (2 k n)
  have "n mod 256 ^ Suc k = 256 * (n div 256 mod 256 ^ k) + n mod 256"
    by (simp add: mod_mult2_eq)
  with 2 show ?case by (simp add: unat_byte_of_nat)
qed simp

lemma le_value_bytes32: "le_value (bytes32 w) = unat w"
  using unat_bound[of w] by (simp add: bytes32_def le_value_le_bytes)

lemma le_value_bytes64: "le_value (bytes64 w) = unat w"
  using unat_bound[of w] by (simp add: bytes64_def le_value_le_bytes)

lemma length_bytes [simp]: "length (bytes32 w) = 4" "length (bytes64 v) = 8"
  by (simp_all add: bytes32_def bytes64_def)

lemma char_of_byte_of_char [simp]: "char_of_byte (byte_of_char c) = c"
  using ccode_bound[of c]
  by (simp add: char_of_byte_def byte_of_char_def unat_byte_of_nat) (simp add: ccode_def)

lemma map_char_of_byte [simp]: "map char_of_byte (map byte_of_char s) = s"
  by (simp add: comp_def)

lemma unat_size64: "length xs < 2 ^ 64 \<Longrightarrow> unat (size64 xs) = length xs"
  by (simp add: size64_def unat_of_nat)

end
