(* ===== verification/BufferPool.thy ===== *)
theory BufferPool
  imports Bytes
begin

text \<open>
  \<open>storage/buffer_pool.hpp\<close> and \<open>storage/buffer_pool.cpp\<close>: the LRU cache of pages.
  \<open>lru_\<close> lists the page ids from the most to the least recently used; \<open>pages_\<close> maps an id to
  its page and to its position in \<open>lru_\<close>. The position is not stored here: the ids of \<open>lru_\<close>
  are distinct (\<open>BufferPool_inv\<close>), so an id has one. The abstract cache is the list of pages in
  order of recency; \<open>put\<close> and \<open>get\<close> refine operations on it (\<open>BufferPool_put_abs\<close>,
  \<open>BufferPool_get_abs\<close>).
\<close>

type_synonym page_id = nat

record page =
  page_id :: page_id
  page_bytes :: "byte list"
  page_dirty :: bool

record buffer_pool =
  bp_capacity :: nat
  bp_lru :: "page_id list"
  bp_pages :: "(page_id \<times> page) list"

definition BufferPool_new :: "nat \<Rightarrow> buffer_pool outcome" where
  "BufferPool_new capacity =
     (if capacity = 0 then Inl (InvalidArgument ''buffer pool capacity must be positive'')
      else Inr \<lparr>bp_capacity = capacity, bp_lru = [], bp_pages = []\<rparr>)"

text \<open>\<open>splice\<close> moves the node of the page to the front of the list.\<close>

definition BufferPool_touch :: "page_id \<Rightarrow> buffer_pool \<Rightarrow> buffer_pool" where
  "BufferPool_touch i p = p\<lparr>bp_lru := i # remove1 i (bp_lru p)\<rparr>"

text \<open>
  \<open>lru_.back()\<close> of an empty list is undefined behaviour, so the loop stops there; the
  invariant shows that it never gets there (\<open>BufferPool_over_capacity_nonempty\<close>).
\<close>

function BufferPool_evictIfNeeded :: "buffer_pool \<Rightarrow> buffer_pool" where
  "BufferPool_evictIfNeeded p =
     (if bp_capacity p < length (bp_pages p) \<and> bp_lru p \<noteq> []
      then BufferPool_evictIfNeeded
             (p\<lparr>bp_lru := butlast (bp_lru p), bp_pages := AList.delete (last (bp_lru p)) (bp_pages p)\<rparr>)
      else p)"
  by pat_completeness auto
termination
  by (relation "measure (\<lambda>p. length (bp_lru p))") auto

declare BufferPool_evictIfNeeded.simps [simp del]

definition BufferPool_put :: "page \<Rightarrow> buffer_pool \<Rightarrow> buffer_pool" where
  "BufferPool_put pg p =
     (case map_of (bp_pages p) (page_id pg) of
        Some _ \<Rightarrow>
          BufferPool_touch (page_id pg) (p\<lparr>bp_pages := AList.update (page_id pg) pg (bp_pages p)\<rparr>)
      | None \<Rightarrow>
          BufferPool_evictIfNeeded
            (p\<lparr>bp_lru := page_id pg # bp_lru p, bp_pages := (page_id pg, pg) # bp_pages p\<rparr>))"

definition BufferPool_get :: "page_id \<Rightarrow> buffer_pool \<Rightarrow> page option \<times> buffer_pool" where
  "BufferPool_get i p =
     (case map_of (bp_pages p) i of
        None \<Rightarrow> (None, p)
      | Some pg \<Rightarrow> (Some pg, BufferPool_touch i p))"

definition BufferPool_contains :: "page_id \<Rightarrow> buffer_pool \<Rightarrow> bool" where
  "BufferPool_contains i p \<longleftrightarrow> map_of (bp_pages p) i \<noteq> None"

definition BufferPool_size :: "buffer_pool \<Rightarrow> nat" where
  "BufferPool_size p = length (bp_pages p)"

section \<open>Invariant\<close>

definition BufferPool_inv :: "buffer_pool \<Rightarrow> bool" where
  "BufferPool_inv p \<longleftrightarrow>
     0 < bp_capacity p \<and> distinct (bp_lru p) \<and> distinct (map fst (bp_pages p)) \<and>
     set (bp_lru p) = fst ` set (bp_pages p) \<and> length (bp_pages p) \<le> bp_capacity p \<and>
     (\<forall>i pg. map_of (bp_pages p) i = Some pg \<longrightarrow> page_id pg = i)"

text \<open>The invariant without the bound, which holds between the insertion and the eviction.\<close>

definition BufferPool_inv0 :: "buffer_pool \<Rightarrow> bool" where
  "BufferPool_inv0 p \<longleftrightarrow>
     0 < bp_capacity p \<and> distinct (bp_lru p) \<and> distinct (map fst (bp_pages p)) \<and>
     set (bp_lru p) = fst ` set (bp_pages p) \<and> (\<forall>i pg. map_of (bp_pages p) i = Some pg \<longrightarrow> page_id pg = i)"

lemma BufferPool_inv_iff: "BufferPool_inv p \<longleftrightarrow> BufferPool_inv0 p \<and> length (bp_pages p) \<le> bp_capacity p"
  by (auto simp: BufferPool_inv_def BufferPool_inv0_def)

lemma BufferPool_inv0_length: "BufferPool_inv0 p \<Longrightarrow> length (bp_lru p) = length (bp_pages p)"
  by (metis BufferPool_inv0_def distinct_card length_map list.set_map)

lemma BufferPool_over_capacity_nonempty:
  "BufferPool_inv0 p \<Longrightarrow> bp_capacity p < length (bp_pages p) \<Longrightarrow> bp_lru p \<noteq> []"
  using BufferPool_inv0_length[of p] by auto

lemma BufferPool_new_inv: "BufferPool_new c = Inr p \<Longrightarrow> BufferPool_inv p"
  by (auto simp: BufferPool_new_def BufferPool_inv_def split: if_splits)

section \<open>The cache as a list in order of recency\<close>

definition BufferPool_abs :: "buffer_pool \<Rightarrow> (page_id \<times> page) list" where
  "BufferPool_abs p = map (\<lambda>i. (i, the (map_of (bp_pages p) i))) (bp_lru p)"

definition lru_put :: "nat \<Rightarrow> page_id \<Rightarrow> page \<Rightarrow> (page_id \<times> page) list \<Rightarrow> (page_id \<times> page) list" where
  "lru_put cap i pg xs = take cap ((i, pg) # filter (\<lambda>(j, _). j \<noteq> i) xs)"

lemma delete_last_keys:
  assumes "fst ` set m = set (xs @ [x])" and "x \<notin> set xs"
  shows "fst ` set (AList.delete x m) = set xs"
proof -
  have "fst ` set (AList.delete x m) = fst ` set m - {x}"
    using arg_cong[OF AList.delete_keys[of x m], of set] by simp
  with assms show ?thesis by auto
qed

lemma length_delete_one:
  assumes "distinct (map fst m)" and "x \<in> fst ` set m"
  shows "length m = Suc (length (AList.delete x m))"
proof -
  have "length (AList.delete x m) = length (remove1 x (map fst m))"
    using arg_cong[OF AList.delete_keys[of x m], of length] assms(1)
    by (simp add: distinct_remove1_removeAll)
  moreover have "m \<noteq> []" using assms(2) by auto
  ultimately show ?thesis using assms(2) by (simp add: length_remove1)
qed

lemma evict_step:
  assumes inv: "BufferPool_inv0 p" and over: "length (bp_pages p) = Suc (bp_capacity p)"
  defines "q \<equiv> p\<lparr>bp_lru := butlast (bp_lru p), bp_pages := AList.delete (last (bp_lru p)) (bp_pages p)\<rparr>"
  shows "BufferPool_evictIfNeeded p = q" and "BufferPool_inv q"
    and "BufferPool_abs q = take (bp_capacity p) (BufferPool_abs p)"
proof -
  have len: "length (bp_lru p) = Suc (bp_capacity p)"
    using BufferPool_inv0_length[OF inv] over by simp
  then obtain xs x where lru: "bp_lru p = xs @ [x]" "length xs = bp_capacity p"
    by (metis length_Suc_conv_rev)
  have x: "x \<notin> set xs" "distinct xs" using inv lru by (auto simp: BufferPool_inv0_def)
  have dk: "distinct (map fst (bp_pages p))" and ks: "fst ` set (bp_pages p) = set (xs @ [x])"
    using inv lru by (simp_all add: BufferPool_inv0_def)
  have q: "bp_lru q = xs" "bp_pages q = AList.delete x (bp_pages p)" "bp_capacity q = bp_capacity p"
    by (simp_all add: q_def lru)
  have len': "length (bp_pages q) = bp_capacity q"
    using length_delete_one[OF dk, of x] ks over q by simp
  show "BufferPool_inv q"
    using inv x delete_last_keys[OF ks x(1)] AList.distinct_delete[OF dk, of x] len'
    by (simp add: BufferPool_inv_def q BufferPool_inv0_def AList.delete_conv')
  show "BufferPool_evictIfNeeded p = q"
    using over lru len' by (simp add: BufferPool_evictIfNeeded.simps q_def)
  show "BufferPool_abs q = take (bp_capacity p) (BufferPool_abs p)"
    using lru x by (auto simp: BufferPool_abs_def q AList.delete_conv')
qed

text \<open>
  \<open>put\<close> is the abstract \<open>lru_put\<close>: the page becomes the most recent, and when the cache is
  full exactly the least recently used page leaves.
\<close>

lemma BufferPool_put_inv_abs:
  assumes inv: "BufferPool_inv p"
  shows "BufferPool_inv (BufferPool_put pg p)"
    and "BufferPool_abs (BufferPool_put pg p) = lru_put (bp_capacity p) (page_id pg) pg (BufferPool_abs p)"
    and "bp_capacity (BufferPool_put pg p) = bp_capacity p"
proof -
  let ?i = "page_id pg"
  note inv' = inv[unfolded BufferPool_inv_def]
  have "BufferPool_inv (BufferPool_put pg p) \<and>
    BufferPool_abs (BufferPool_put pg p) = lru_put (bp_capacity p) ?i pg (BufferPool_abs p) \<and>
    bp_capacity (BufferPool_put pg p) = bp_capacity p"
  proof (cases "map_of (bp_pages p) ?i")
    case (Some old)
    let ?q = "BufferPool_put pg p"
    have i: "?i \<in> fst ` set (bp_pages p)"
      using Some map_of_eq_None_iff[of "bp_pages p" ?i] by force
    have q: "bp_lru ?q = ?i # filter (\<lambda>j. j \<noteq> ?i) (bp_lru p)"
      "bp_pages ?q = AList.update ?i pg (bp_pages p)" "bp_capacity ?q = bp_capacity p"
      using Some inv'
      by (simp_all add: BufferPool_put_def BufferPool_touch_def distinct_remove1_removeAll
          removeAll_filter_not_eq eq_commute)
    have keys: "map fst (bp_pages ?q) = map fst (bp_pages p)"
      using i by (simp add: q AList.update_keys)
    then have "fst ` set (bp_pages ?q) = fst ` set (bp_pages p)"
      by (metis list.set_map)
    then have "BufferPool_inv ?q"
      unfolding BufferPool_inv_def keys map_eq_imp_length_eq[OF keys]
      using inv' i by (auto simp: q AList.update_conv')
    moreover have "length (BufferPool_abs ?q) \<le> bp_capacity p"
      using calculation BufferPool_inv0_length[of ?q] q
      by (simp add: BufferPool_abs_def BufferPool_inv_iff)
    then have "BufferPool_abs ?q = lru_put (bp_capacity p) ?i pg (BufferPool_abs p)"
      by (simp add: BufferPool_abs_def lru_put_def q AList.update_conv' filter_map comp_def
          take_Cons' split: if_splits)
    ultimately show ?thesis using q by simp
  next
    case None
    let ?r = "p\<lparr>bp_lru := ?i # bp_lru p, bp_pages := (?i, pg) # bp_pages p\<rparr>"
    have i: "?i \<notin> set (bp_lru p)" "?i \<notin> fst ` set (bp_pages p)"
      using None inv' by (auto simp: map_of_eq_None_iff)
    have r0: "BufferPool_inv0 ?r" using inv' i by (auto simp: BufferPool_inv0_def)
    have abs_r: "BufferPool_abs ?r = (?i, pg) # filter (\<lambda>(j, _). j \<noteq> ?i) (BufferPool_abs p)"
      using i by (auto simp: BufferPool_abs_def filter_map comp_def intro!: map_cong filter_True[symmetric])
    have put: "BufferPool_put pg p = BufferPool_evictIfNeeded ?r"
      using None by (simp add: BufferPool_put_def)
    show ?thesis
    proof (cases "length (bp_pages p) = bp_capacity p")
      case True
      then have "length (bp_pages ?r) = Suc (bp_capacity ?r)" by simp
      from evict_step[OF r0 this] show ?thesis
        using put abs_r by (simp add: lru_put_def)
    next
      case False
      then have "length (bp_pages ?r) \<le> bp_capacity p" using inv' by simp
      moreover from this have "length (BufferPool_abs ?r) \<le> bp_capacity p"
        using BufferPool_inv0_length[OF r0] by (simp add: BufferPool_abs_def)
      then have "lru_put (bp_capacity p) ?i pg (BufferPool_abs p) = BufferPool_abs ?r"
        unfolding lru_put_def abs_r[symmetric] by (rule take_all)
      ultimately show ?thesis
        using put r0 by (simp add: BufferPool_evictIfNeeded.simps BufferPool_inv_iff)
    qed
  qed
  then show "BufferPool_inv (BufferPool_put pg p)"
    and "BufferPool_abs (BufferPool_put pg p) = lru_put (bp_capacity p) (page_id pg) pg (BufferPool_abs p)"
    and "bp_capacity (BufferPool_put pg p) = bp_capacity p" by blast+
qed

text \<open>\<open>get\<close> returns the cached page and moves it to the front; it never evicts.\<close>

definition lru_get :: "page_id \<Rightarrow> (page_id \<times> page) list \<Rightarrow> page option \<times> (page_id \<times> page) list" where
  "lru_get i xs =
     (case map_of xs i of None \<Rightarrow> (None, xs)
      | Some pg \<Rightarrow> (Some pg, (i, pg) # filter (\<lambda>(j, _). j \<noteq> i) xs))"

lemma map_of_BufferPool_abs:
  assumes "BufferPool_inv p"
  shows "map_of (BufferPool_abs p) i = map_of (bp_pages p) i"
proof (cases "i \<in> set (bp_lru p)")
  case True
  then obtain pg where "map_of (bp_pages p) i = Some pg"
    using assms by (force simp: BufferPool_inv_def map_of_eq_None_iff dest: weak_map_of_SomeI)
  with True show ?thesis by (simp add: BufferPool_abs_def map_of_map_restrict)
next
  case False
  then have "map_of (bp_pages p) i = None"
    using assms by (simp add: BufferPool_inv_def map_of_eq_None_iff)
  with False show ?thesis by (simp add: BufferPool_abs_def map_of_map_restrict)
qed

lemma BufferPool_get_inv_abs:
  assumes inv: "BufferPool_inv p"
  shows "BufferPool_inv (snd (BufferPool_get i p))"
    and "(fst (BufferPool_get i p), BufferPool_abs (snd (BufferPool_get i p))) = lru_get i (BufferPool_abs p)"
proof -
  note inv' = inv[unfolded BufferPool_inv_def]
  have "BufferPool_inv (snd (BufferPool_get i p)) \<and>
    (fst (BufferPool_get i p), BufferPool_abs (snd (BufferPool_get i p))) = lru_get i (BufferPool_abs p)"
  proof (cases "map_of (bp_pages p) i")
    case None
    then show ?thesis
      by (simp add: BufferPool_get_def lru_get_def map_of_BufferPool_abs[OF inv] inv)
  next
    case (Some pg)
    have i: "i \<in> set (bp_lru p)"
      using Some inv' by (force dest: map_of_SomeD)
    have q: "bp_lru (BufferPool_touch i p) = i # filter (\<lambda>j. j \<noteq> i) (bp_lru p)"
      "bp_pages (BufferPool_touch i p) = bp_pages p" "bp_capacity (BufferPool_touch i p) = bp_capacity p"
      using inv' by (simp_all add: BufferPool_touch_def distinct_remove1_removeAll
          removeAll_filter_not_eq eq_commute)
    have "BufferPool_inv (BufferPool_touch i p)"
      unfolding BufferPool_inv_def q(2,3) using inv' i by (auto simp: q)
    with Some show ?thesis
      by (simp add: BufferPool_get_def lru_get_def map_of_BufferPool_abs[OF inv])
        (simp add: BufferPool_abs_def q filter_map comp_def)
  qed
  then show "BufferPool_inv (snd (BufferPool_get i p))"
    and "(fst (BufferPool_get i p), BufferPool_abs (snd (BufferPool_get i p))) = lru_get i (BufferPool_abs p)"
    by blast+
qed

lemma BufferPool_put_lookup:
  assumes "BufferPool_inv p"
  shows "map_of (bp_pages (BufferPool_put pg p)) (page_id pg) = Some pg"
proof -
  have "0 < bp_capacity p" using assms by (simp add: BufferPool_inv_def)
  then have "map_of (BufferPool_abs (BufferPool_put pg p)) (page_id pg) = Some pg"
    by (simp add: BufferPool_put_inv_abs(2)[OF assms] lru_put_def take_Cons')
  then show ?thesis
    by (simp add: map_of_BufferPool_abs[OF BufferPool_put_inv_abs(1)[OF assms]])
qed

text \<open>A page that is still cached after a \<open>put\<close> of another page is the one cached before.\<close>

lemma map_of_take_subset: "distinct (map fst xs) \<Longrightarrow> map_of (take n xs) k = Some v \<Longrightarrow> map_of xs k = Some v"
  by (metis in_set_takeD map_of_SomeD map_of_is_SomeI)

lemma BufferPool_put_other:
  assumes "BufferPool_inv p" and "j \<noteq> page_id pg"
    and "map_of (bp_pages (BufferPool_put pg p)) j = Some qg"
  shows "map_of (bp_pages p) j = Some qg"
proof -
  let ?xs = "(page_id pg, pg) # filter (\<lambda>(j, _). j \<noteq> page_id pg) (BufferPool_abs p)"
  have "distinct (map fst (BufferPool_abs p))"
    using assms(1) by (simp add: BufferPool_abs_def BufferPool_inv_def comp_def)
  then have d: "distinct (map fst ?xs)" "distinct (map fst (BufferPool_abs p))"
    by (auto simp: distinct_map_filter)
  have "map_of (take (bp_capacity p) ?xs) j = Some qg"
    using assms(3) map_of_BufferPool_abs[OF BufferPool_put_inv_abs(1)[OF assms(1)]]
    by (simp add: BufferPool_put_inv_abs(2)[OF assms(1)] lru_put_def)
  then have "map_of ?xs j = Some qg" by (rule map_of_take_subset[OF d(1)])
  with assms(2) have "(j, qg) \<in> set (BufferPool_abs p)"
    by (auto dest!: map_of_SomeD)
  with d(2) have "map_of (BufferPool_abs p) j = Some qg" by simp
  then show ?thesis by (simp add: map_of_BufferPool_abs[OF assms(1)])
qed

end
