(* ===== verification/RowStore.thy ===== *)
theory RowStore
  imports Values BufferPool
begin

text \<open>
  \<open>storage/row_store.hpp\<close> and \<open>storage/row_store.cpp\<close>. The abstract class \<open>RowStore\<close> is the
  locale \<open>row_store\<close>: its operations, and what a client may rely on, in terms of the list of
  rows \<open>rs_abs\<close>. \<open>VectorRowStore\<close> holds that list; \<open>PageRowStore\<close> holds pages of at most
  \<open>rowsPerPage_\<close> rows, a slot per row, and a mirror of each page's bytes in the buffer pool.
  Both are interpretations, so what is proved of a client in the locale holds with either.
\<close>

section \<open>The interface\<close>

locale row_store =
  fixes rs_append :: "row \<Rightarrow> 's \<Rightarrow> row_id \<times> 's"
    and rs_erase :: "row_id \<Rightarrow> 's \<Rightarrow> bool \<times> 's"
    and rs_update :: "row_id \<Rightarrow> row \<Rightarrow> 's \<Rightarrow> (bool \<times> 's) outcome"
    and rs_get :: "row_id \<Rightarrow> 's \<Rightarrow> row option"
    and rs_snapshot :: "'s \<Rightarrow> row list"
    and rs_rowsById :: "row_id list \<Rightarrow> 's \<Rightarrow> row list"
    and rs_size :: "'s \<Rightarrow> nat"
    and rs_replaceRows :: "row list \<Rightarrow> 's \<Rightarrow> 's"
    and rs_inv :: "'s \<Rightarrow> bool"
    and rs_abs :: "'s \<Rightarrow> row list"
  assumes append_id: "rs_inv s \<Longrightarrow> fst (rs_append r s) = length (rs_abs s)"
    and append_inv: "rs_inv s \<Longrightarrow> rs_inv (snd (rs_append r s))"
    and append_abs: "rs_inv s \<Longrightarrow> rs_abs (snd (rs_append r s)) = rs_abs s @ [r]"
    and erase_result: "rs_inv s \<Longrightarrow> fst (rs_erase i s) = (i < length (rs_abs s))"
    and erase_inv: "rs_inv s \<Longrightarrow> rs_inv (snd (rs_erase i s))"
    and erase_abs: "rs_inv s \<Longrightarrow> rs_abs (snd (rs_erase i s)) =
      (if i < length (rs_abs s) then remove_nth i (rs_abs s) else rs_abs s)"
    and update_beyond: "rs_inv s \<Longrightarrow> length (rs_abs s) \<le> i \<Longrightarrow> rs_update i r s = Inr (False, s)"
    and update_within: "rs_inv s \<Longrightarrow> i < length (rs_abs s) \<Longrightarrow>
      \<exists>s'. rs_update i r s = Inr (True, s') \<and> rs_inv s' \<and> rs_abs s' = (rs_abs s)[i := r]"
    and get_abs: "rs_inv s \<Longrightarrow> rs_get i s = (if i < length (rs_abs s) then Some (rs_abs s ! i) else None)"
    and snapshot_abs: "rs_inv s \<Longrightarrow> rs_snapshot s = rs_abs s"
    and rowsById_get: "rs_inv s \<Longrightarrow> rs_rowsById ids s = List.map_filter (\<lambda>i. rs_get i s) ids"
    and size_abs: "rs_inv s \<Longrightarrow> rs_size s = length (rs_abs s)"
    and replaceRows_inv: "rs_inv s \<Longrightarrow> rs_inv (rs_replaceRows rows s)"
    and replaceRows_abs: "rs_inv s \<Longrightarrow> rs_abs (rs_replaceRows rows s) = rows"
begin

lemma rowsById_abs:
  "rs_inv s \<Longrightarrow> rs_rowsById ids s = map ((!) (rs_abs s)) (filter (\<lambda>i. i < length (rs_abs s)) ids)"
  by (induction ids) (auto simp: rowsById_get get_abs List.map_filter_simps)

text \<open>Fetching the positions that satisfy a predicate gives the rows that do, in order.\<close>

lemma rowsById_positions:
  assumes "rs_inv s"
  shows "rs_rowsById (positions P (rs_abs s)) s = filter P (rs_abs s)"
proof -
  have "filter (\<lambda>i. i < length (rs_abs s)) (positions P (rs_abs s)) = positions P (rs_abs s)"
    by (rule filter_True) (auto dest: positions_less)
  with assms show ?thesis by (simp add: rowsById_abs nth_positions)
qed

lemma rowsById_snapshot: "rs_inv s \<Longrightarrow> rs_rowsById [0..<rs_size s] s = rs_snapshot s"
  by (simp add: rowsById_abs size_abs snapshot_abs map_nth)

lemma update_twice:
  assumes "rs_inv s" and "i < length (rs_abs s)"
    and "rs_update i r s = Inr (b, s')" and "rs_update i r' s' = Inr (b', s'')"
  shows "rs_abs s'' = (rs_abs s)[i := r']"
proof -
  obtain t where t: "rs_update i r s = Inr (True, t)" "rs_inv t" "rs_abs t = (rs_abs s)[i := r]"
    using update_within[OF assms(1,2)] by blast
  with assms(3) have "t = s'" by simp
  with t update_within[of s' i r'] assms(2,4) show ?thesis by auto
qed

end

section \<open>VectorRowStore\<close>

record vector_row_store =
  vrs_rows :: "row list"

definition VectorRowStore_append :: "row \<Rightarrow> vector_row_store \<Rightarrow> row_id \<times> vector_row_store" where
  "VectorRowStore_append r s =
     (let s' = s\<lparr>vrs_rows := vrs_rows s @ [r]\<rparr> in (length (vrs_rows s') - 1, s'))"

definition VectorRowStore_erase :: "row_id \<Rightarrow> vector_row_store \<Rightarrow> bool \<times> vector_row_store" where
  "VectorRowStore_erase i s =
     (if length (vrs_rows s) \<le> i then (False, s)
      else (True, s\<lparr>vrs_rows := remove_nth i (vrs_rows s)\<rparr>))"

definition VectorRowStore_update ::
  "row_id \<Rightarrow> row \<Rightarrow> vector_row_store \<Rightarrow> (bool \<times> vector_row_store) outcome" where
  "VectorRowStore_update i r s =
     (if length (vrs_rows s) \<le> i then Inr (False, s)
      else Inr (True, s\<lparr>vrs_rows := (vrs_rows s)[i := r]\<rparr>))"

definition VectorRowStore_get :: "row_id \<Rightarrow> vector_row_store \<Rightarrow> row option" where
  "VectorRowStore_get i s = (if length (vrs_rows s) \<le> i then None else Some (vrs_rows s ! i))"

definition VectorRowStore_snapshot :: "vector_row_store \<Rightarrow> row list" where
  "VectorRowStore_snapshot s = vrs_rows s"

definition VectorRowStore_rowsById :: "row_id list \<Rightarrow> vector_row_store \<Rightarrow> row list" where
  "VectorRowStore_rowsById ids s = List.map_filter (\<lambda>i. VectorRowStore_get i s) ids"

definition VectorRowStore_size :: "vector_row_store \<Rightarrow> nat" where
  "VectorRowStore_size s = length (vrs_rows s)"

definition VectorRowStore_replaceRows :: "row list \<Rightarrow> vector_row_store \<Rightarrow> vector_row_store" where
  "VectorRowStore_replaceRows rows s = s\<lparr>vrs_rows := rows\<rparr>"

interpretation vector_store: row_store VectorRowStore_append VectorRowStore_erase
  VectorRowStore_update VectorRowStore_get VectorRowStore_snapshot VectorRowStore_rowsById
  VectorRowStore_size VectorRowStore_replaceRows "\<lambda>_. True" vrs_rows
  by unfold_locales
    (auto simp: VectorRowStore_append_def VectorRowStore_erase_def VectorRowStore_update_def
      VectorRowStore_get_def VectorRowStore_snapshot_def VectorRowStore_rowsById_def
      VectorRowStore_size_def VectorRowStore_replaceRows_def)

section \<open>PageRowStore\<close>

text \<open>A slot is the pair of the page id and the offset in the page.\<close>

record page_row_store =
  prs_rowsPerPage :: nat
  prs_bufferPool :: buffer_pool
  prs_slots :: "(page_id \<times> nat) list"
  prs_pages :: "(page_id \<times> row list) list"

definition PageRowStore_new :: "nat \<Rightarrow> nat \<Rightarrow> page_row_store outcome" where
  "PageRowStore_new rowsPerPage bufferPageCapacity =
     ebind (BufferPool_new bufferPageCapacity) (\<lambda>bp.
       if rowsPerPage = 0 then Inl (InvalidArgument ''rows per page must be positive'')
       else Inr \<lparr>prs_rowsPerPage = rowsPerPage, prs_bufferPool = bp, prs_slots = [], prs_pages = []\<rparr>)"

definition value_tag :: "sql_value \<Rightarrow> byte" where
  "value_tag v =
     (if Value_isNull v then 255
      else case Value_type v of Inl _ \<Rightarrow> 255 | Inr t \<Rightarrow> ColumnType_code t)"

definition appendValue :: "sql_value \<Rightarrow> byte list" where
  "appendValue v = value_tag v #
     (case v of
        VNull \<Rightarrow> []
      | VInt i \<Rightarrow> bytes64 i
      | VDouble d \<Rightarrow> bytes64 d
      | VString text \<Rightarrow> bytes64 (size64 text) @ map byte_of_char text)"

definition serializePage :: "page_id \<Rightarrow> row list \<Rightarrow> page" where
  "serializePage pageId rows =
     \<lparr>page_id = pageId,
      page_bytes = bytes64 (size64 rows)
        @ concat (map (\<lambda>row. bytes64 (size64 row) @ concat (map appendValue row)) rows),
      page_dirty = True\<rparr>"

text \<open>\<open>pages_[pageId]\<close>: a missing page is created empty.\<close>

definition page_rows :: "page_id \<Rightarrow> page_row_store \<Rightarrow> row list" where
  "page_rows pageId s = (case map_of (prs_pages s) pageId of None \<Rightarrow> [] | Some rows \<Rightarrow> rows)"

definition PageRowStore_append :: "row \<Rightarrow> page_row_store \<Rightarrow> row_id \<times> page_row_store" where
  "PageRowStore_append r s =
     (let rowId = length (prs_slots s);
          pageId = rowId div prs_rowsPerPage s + 1;
          pageRows = page_rows pageId s @ [r]
      in (rowId,
          s\<lparr>prs_pages := AList.update pageId pageRows (prs_pages s),
            prs_slots := prs_slots s @ [(pageId, length pageRows - 1)],
            prs_bufferPool := BufferPool_put (serializePage pageId pageRows) (prs_bufferPool s)\<rparr>))"

definition PageRowStore_get :: "row_id \<Rightarrow> page_row_store \<Rightarrow> row option" where
  "PageRowStore_get rowId s =
     (if length (prs_slots s) \<le> rowId then None
      else (let (pageId, offset) = prs_slots s ! rowId
            in case map_of (prs_pages s) pageId of
                 None \<Rightarrow> None
               | Some rows \<Rightarrow> if length rows \<le> offset then None else Some (rows ! offset)))"

definition PageRowStore_snapshot :: "page_row_store \<Rightarrow> row list" where
  "PageRowStore_snapshot s =
     List.map_filter (\<lambda>(pageId, offset).
       case map_of (prs_pages s) pageId of
         None \<Rightarrow> None
       | Some rows \<Rightarrow> if offset < length rows then Some (rows ! offset) else None) (prs_slots s)"

definition PageRowStore_rowsById :: "row_id list \<Rightarrow> page_row_store \<Rightarrow> row list" where
  "PageRowStore_rowsById ids s = List.map_filter (\<lambda>i. PageRowStore_get i s) ids"

definition PageRowStore_size :: "page_row_store \<Rightarrow> nat" where
  "PageRowStore_size s = length (prs_slots s)"

text \<open>The buffer pool is not cleared: pages that are not written again stay in it.\<close>

definition PageRowStore_replaceRows :: "row list \<Rightarrow> page_row_store \<Rightarrow> page_row_store" where
  "PageRowStore_replaceRows rows s =
     fold (\<lambda>r t. snd (PageRowStore_append r t)) rows (s\<lparr>prs_pages := [], prs_slots := []\<rparr>)"

definition PageRowStore_erase :: "row_id \<Rightarrow> page_row_store \<Rightarrow> bool \<times> page_row_store" where
  "PageRowStore_erase rowId s =
     (if length (prs_slots s) \<le> rowId then (False, s)
      else (True, PageRowStore_replaceRows (remove_nth rowId (PageRowStore_snapshot s)) s))"

definition PageRowStore_update ::
  "row_id \<Rightarrow> row \<Rightarrow> page_row_store \<Rightarrow> (bool \<times> page_row_store) outcome" where
  "PageRowStore_update rowId r s =
     (if length (prs_slots s) \<le> rowId then Inr (False, s)
      else (let (pageId, offset) = prs_slots s ! rowId
            in case map_of (prs_pages s) pageId of
                 None \<Rightarrow> Inl (OutOfRange ''unordered_map::at'')
               | Some rows \<Rightarrow>
                   (let rows' = rows[offset := r]
                    in Inr (True, s\<lparr>prs_pages := AList.update pageId rows' (prs_pages s),
                         prs_bufferPool :=
                           BufferPool_put (serializePage pageId rows') (prs_bufferPool s)\<rparr>))))"

definition makePageRowStore :: "page_row_store outcome" where
  "makePageRowStore = PageRowStore_new 256 128"

section \<open>Pages represent a list of rows\<close>

text \<open>
  \<open>prs_repr s rows\<close>: page \<open>p + 1\<close> holds the rows from \<open>p * rowsPerPage\<close> on, the slots number
  them in order, and there are no other pages.
\<close>

definition page_chunk :: "nat \<Rightarrow> 'a list \<Rightarrow> nat \<Rightarrow> 'a list option" where
  "page_chunk n rows pageId =
     (if 0 < pageId \<and> (pageId - 1) * n < length rows
      then Some (take n (drop ((pageId - 1) * n) rows)) else None)"

definition prs_repr :: "page_row_store \<Rightarrow> row list \<Rightarrow> bool" where
  "prs_repr s rows \<longleftrightarrow>
     0 < prs_rowsPerPage s \<and> BufferPool_inv (prs_bufferPool s) \<and>
     prs_slots s = map (\<lambda>i. (i div prs_rowsPerPage s + 1, i mod prs_rowsPerPage s)) [0..<length rows] \<and>
     (\<forall>p. map_of (prs_pages s) p = page_chunk (prs_rowsPerPage s) rows p)"

lemma page_chunk_nth:
  assumes "0 < n" and "i < length rows"
  shows "\<exists>c. page_chunk n rows (i div n + 1) = Some c \<and> i mod n < length c \<and> c ! (i mod n) = rows ! i"
proof -
  have e: "i div n * n + i mod n = i" by (rule div_mult_mod_eq)
  with assms(2) have "i div n * n < length rows" "i mod n < length rows - i div n * n"
    by linarith+
  with assms(1) show ?thesis by (simp add: page_chunk_def e)
qed

lemma page_chunk_snoc:
  assumes n: "0 < n"
  shows "page_chunk n (rows @ [r]) p =
    (if p = length rows div n + 1
     then Some ((case page_chunk n rows p of None \<Rightarrow> [] | Some c \<Rightarrow> c) @ [r])
     else page_chunk n rows p)"
proof (cases p)
  case 0
  then show ?thesis by (simp add: page_chunk_def)
next
  case (Suc j)
  let ?L = "length rows"
  have e: "?L div n * n + ?L mod n = ?L" by (rule div_mult_mod_eq)
  have m: "?L mod n < n" using n by simp
  consider "j < ?L div n" | "j = ?L div n" | "?L div n < j" by linarith
  then show ?thesis
  proof cases
    case 1
    then have "Suc j * n \<le> ?L div n * n" by (intro mult_le_mono1) simp
    with e have "j * n + n \<le> ?L" unfolding mult_Suc by linarith
    with 1 Suc n show ?thesis by (auto simp: page_chunk_def)
  next
    case 2
    have "j * n + ?L mod n = ?L" unfolding 2 by (rule div_mult_mod_eq)
    then have "j * n \<le> ?L" "?L - j * n < n" using m by linarith+
    then have "page_chunk n (rows @ [r]) (Suc j) = Some (drop (j * n) rows @ [r])"
      "(case page_chunk n rows (Suc j) of None \<Rightarrow> [] | Some c \<Rightarrow> c) = drop (j * n) rows"
      by (auto simp: page_chunk_def)
    with 2 Suc show ?thesis by simp
  next
    case 3
    then have "Suc (?L div n) * n \<le> j * n" by (intro mult_le_mono1) simp
    with e m have "?L < j * n" unfolding mult_Suc by linarith
    with 3 Suc show ?thesis by (auto simp: page_chunk_def)
  qed
qed

lemma page_chunk_update:
  assumes n: "0 < n" and i: "i < length rows"
  shows "page_chunk n (rows[i := r]) p =
    (if p = i div n + 1 then map_option (\<lambda>c. c[i mod n := r]) (page_chunk n rows p)
     else page_chunk n rows p)"
proof (cases p)
  case 0
  then show ?thesis by (simp add: page_chunk_def)
next
  case (Suc j)
  have e: "i div n * n + i mod n = i" by (rule div_mult_mod_eq)
  have m: "i mod n < n" using n by simp
  consider "j < i div n" | "j = i div n" | "i div n < j" by linarith
  then show ?thesis
  proof cases
    case 1
    then have "Suc j * n \<le> i div n * n" by (intro mult_le_mono1) simp
    with e have "j * n + n \<le> i" unfolding mult_Suc by linarith
    with 1 Suc show ?thesis
      by (auto simp: page_chunk_def drop_update_swap take_update_cancel)
  next
    case 2
    have "j * n + i mod n = i" unfolding 2 by (rule div_mult_mod_eq)
    then have "j * n \<le> i" "i - j * n = i mod n" by linarith+
    with 2 Suc m show ?thesis
      by (auto simp: page_chunk_def drop_update_swap take_update_swap)
  next
    case 3
    then have "Suc (i div n) * n \<le> j * n" by (intro mult_le_mono1) simp
    with e m have "i < j * n" unfolding mult_Suc by linarith
    with 3 Suc show ?thesis by (auto simp: page_chunk_def)
  qed
qed

lemma prs_repr_get:
  assumes "prs_repr s rows"
  shows "PageRowStore_get i s = (if i < length rows then Some (rows ! i) else None)"
proof (cases "i < length rows")
  case True
  with assms page_chunk_nth[of "prs_rowsPerPage s" i rows] show ?thesis
    by (auto simp: PageRowStore_get_def prs_repr_def)
next
  case False
  with assms show ?thesis by (simp add: PageRowStore_get_def prs_repr_def)
qed

lemma prs_repr_snapshot: "prs_repr s rows \<Longrightarrow> PageRowStore_snapshot s = rows"
proof -
  assume repr: "prs_repr s rows"
  let ?look = "\<lambda>(pageId, offset). case map_of (prs_pages s) pageId of None \<Rightarrow> None
    | Some rows \<Rightarrow> if offset < length rows then Some (rows ! offset) else None"
  have slots: "prs_slots s = map (\<lambda>i. (i div prs_rowsPerPage s + 1, i mod prs_rowsPerPage s)) [0..<length rows]"
    and n: "0 < prs_rowsPerPage s"
    and pages: "\<And>p. map_of (prs_pages s) p = page_chunk (prs_rowsPerPage s) rows p"
    using repr by (simp_all add: prs_repr_def)
  have "?look (i div prs_rowsPerPage s + 1, i mod prs_rowsPerPage s) = Some (rows ! i)"
    if "i < length rows" for i
    using page_chunk_nth[OF n that] by (auto simp: pages)
  then have "List.map_filter (\<lambda>i. ?look (i div prs_rowsPerPage s + 1, i mod prs_rowsPerPage s))
      [0..<length rows] = map ((!) rows) [0..<length rows]"
    by (intro map_filter_Some) simp
  then show ?thesis
    unfolding PageRowStore_snapshot_def slots map_filter_map_comp by (simp add: map_nth)
qed

lemma prs_repr_append:
  assumes "prs_repr s rows"
  shows "fst (PageRowStore_append r s) = length rows"
    and "prs_repr (snd (PageRowStore_append r s)) (rows @ [r])"
proof -
  let ?n = "prs_rowsPerPage s" and ?p = "length rows div prs_rowsPerPage s + 1"
  have n: "0 < ?n" and bp: "BufferPool_inv (prs_bufferPool s)"
    and len: "length (prs_slots s) = length rows"
    and pages: "\<And>p. map_of (prs_pages s) p = page_chunk ?n rows p"
    using assms by (simp_all add: prs_repr_def)
  show "fst (PageRowStore_append r s) = length rows"
    by (simp add: PageRowStore_append_def Let_def len)
  have e: "length rows div ?n * ?n + length rows mod ?n = length rows" by (rule div_mult_mod_eq)
  then have "length rows - length rows div ?n * ?n = length rows mod ?n" by linarith
  then have "length (page_rows ?p s) = length rows mod ?n"
    using n e by (auto simp: page_rows_def pages page_chunk_def min_def not_less
        dest: mod_less_divisor[of ?n "length rows"])
  then show "prs_repr (snd (PageRowStore_append r s)) (rows @ [r])"
    using assms bp n
    by (simp add: prs_repr_def PageRowStore_append_def Let_def len BufferPool_put_inv_abs(1)
        AList.update_conv' page_chunk_snoc page_rows_def pages)
qed

lemma prs_repr_update:
  assumes "prs_repr s rows" and i: "i < length rows"
  obtains s' where "PageRowStore_update i r s = Inr (True, s')" and "prs_repr s' (rows[i := r])"
proof -
  let ?n = "prs_rowsPerPage s" and ?p = "i div prs_rowsPerPage s + 1"
  have n: "0 < ?n" and bp: "BufferPool_inv (prs_bufferPool s)"
    and slot: "prs_slots s ! i = (?p, i mod ?n)" and len: "length (prs_slots s) = length rows"
    and pages: "\<And>p. map_of (prs_pages s) p = page_chunk ?n rows p"
    using assms by (simp_all add: prs_repr_def)
  obtain c where c: "page_chunk ?n rows ?p = Some c" using page_chunk_nth[OF n i] by blast
  let ?s = "s\<lparr>prs_pages := AList.update ?p (c[i mod ?n := r]) (prs_pages s),
    prs_bufferPool := BufferPool_put (serializePage ?p (c[i mod ?n := r])) (prs_bufferPool s)\<rparr>"
  have "PageRowStore_update i r s = Inr (True, ?s)"
    using i c[simplified] by (simp add: PageRowStore_update_def Let_def len slot pages)
  moreover have "prs_repr ?s (rows[i := r])"
    using assms(1) n bp i c
    by (simp add: prs_repr_def BufferPool_put_inv_abs(1) AList.update_conv' page_chunk_update pages)
  ultimately show ?thesis by (rule that)
qed

lemma prs_repr_clear:
  assumes "prs_repr s rows"
  shows "prs_repr (s\<lparr>prs_pages := [], prs_slots := []\<rparr>) []"
  using assms by (simp add: prs_repr_def page_chunk_def)

lemma prs_repr_append_all:
  "prs_repr s rows \<Longrightarrow> prs_repr (fold (\<lambda>r t. snd (PageRowStore_append r t)) rs s) (rows @ rs)"
proof (induction rs arbitrary: s rows)
  case (Cons r rs)
  from Cons.IH[OF prs_repr_append(2)[OF Cons.prems]] show ?case by simp
qed simp

lemma prs_repr_replaceRows: "prs_repr s rows \<Longrightarrow> prs_repr (PageRowStore_replaceRows rs s) rs"
  using prs_repr_append_all[OF prs_repr_clear, of s rows rs]
  by (simp add: PageRowStore_replaceRows_def)

text \<open>
  The invariant of the class: the pages represent the rows a snapshot returns. With it the
  page store is a \<open>RowStore\<close>, for any page size and any buffer capacity.
\<close>

definition PageRowStore_inv :: "page_row_store \<Rightarrow> bool" where
  "PageRowStore_inv s \<longleftrightarrow> prs_repr s (PageRowStore_snapshot s)"

lemma PageRowStore_invI: "prs_repr s rows \<Longrightarrow> PageRowStore_inv s"
  using prs_repr_snapshot[of s rows] by (simp add: PageRowStore_inv_def)

lemma PageRowStore_new_inv:
  "PageRowStore_new n c = Inr s \<Longrightarrow> PageRowStore_inv s \<and> PageRowStore_snapshot s = []"
  by (auto simp: PageRowStore_new_def ebind_eq_Inr PageRowStore_inv_def PageRowStore_snapshot_def
      prs_repr_def page_chunk_def List.map_filter_simps BufferPool_new_inv split: if_splits)

interpretation page_store: row_store PageRowStore_append PageRowStore_erase PageRowStore_update
  PageRowStore_get PageRowStore_snapshot PageRowStore_rowsById PageRowStore_size
  PageRowStore_replaceRows PageRowStore_inv PageRowStore_snapshot
proof unfold_locales
  fix s r i ids rows
  assume "PageRowStore_inv s"
  then have repr: "prs_repr s (PageRowStore_snapshot s)" (is "prs_repr s ?rows")
    by (simp add: PageRowStore_inv_def)
  then have len: "length (prs_slots s) = length ?rows" by (simp add: prs_repr_def)
  note snap = prs_repr_snapshot[OF prs_repr_append(2)[OF repr, of r]]
  show "fst (PageRowStore_append r s) = length ?rows" by (rule prs_repr_append(1)[OF repr])
  show "PageRowStore_inv (snd (PageRowStore_append r s))"
    by (rule PageRowStore_invI[OF prs_repr_append(2)[OF repr]])
  show "PageRowStore_snapshot (snd (PageRowStore_append r s)) = ?rows @ [r]" by (rule snap)
  show "fst (PageRowStore_erase i s) = (i < length ?rows)"
    by (simp add: PageRowStore_erase_def len)
  show "PageRowStore_inv (snd (PageRowStore_erase i s))"
    using PageRowStore_invI[OF repr] PageRowStore_invI[OF prs_repr_replaceRows[OF repr]]
    by (simp add: PageRowStore_erase_def)
  show "PageRowStore_snapshot (snd (PageRowStore_erase i s)) =
      (if i < length ?rows then remove_nth i ?rows else ?rows)"
    using prs_repr_snapshot[OF prs_repr_replaceRows[OF repr]]
    by (simp add: PageRowStore_erase_def len)
  show "PageRowStore_update i r s = Inr (False, s)" if "length ?rows \<le> i"
    using that by (simp add: PageRowStore_update_def len)
  show "\<exists>s'. PageRowStore_update i r s = Inr (True, s') \<and> PageRowStore_inv s' \<and>
      PageRowStore_snapshot s' = ?rows[i := r]" if i: "i < length ?rows"
    using prs_repr_update[OF repr i, of r] PageRowStore_invI prs_repr_snapshot by metis
  show "PageRowStore_get i s = (if i < length ?rows then Some (?rows ! i) else None)"
    by (rule prs_repr_get[OF repr])
  show "PageRowStore_rowsById ids s = List.map_filter (\<lambda>i. PageRowStore_get i s) ids"
    by (simp add: PageRowStore_rowsById_def)
  show "PageRowStore_size s = length ?rows" by (simp add: PageRowStore_size_def len)
  show "PageRowStore_inv (PageRowStore_replaceRows rows s)"
    by (rule PageRowStore_invI[OF prs_repr_replaceRows[OF repr]])
  show "PageRowStore_snapshot (PageRowStore_replaceRows rows s) = rows"
    by (rule prs_repr_snapshot[OF prs_repr_replaceRows[OF repr]])
qed (rule refl)

section \<open>The mirror in the buffer pool\<close>

text \<open>
  Every page of the store that is cached is cached as it is now. Nothing is said of cached
  pages the store no longer has: \<open>replaceRows\<close>, and with it \<open>erase\<close>, leaves those behind.
\<close>

definition PageRowStore_mirror :: "page_row_store \<Rightarrow> bool" where
  "PageRowStore_mirror s \<longleftrightarrow>
     (\<forall>p rows pg. map_of (prs_pages s) p = Some rows \<longrightarrow>
        map_of (bp_pages (prs_bufferPool s)) p = Some pg \<longrightarrow> pg = serializePage p rows)"

lemma mirror_put:
  assumes "PageRowStore_mirror s" and "BufferPool_inv (prs_bufferPool s)"
  shows "PageRowStore_mirror (s\<lparr>prs_pages := AList.update p rows (prs_pages s),
    prs_slots := slots, prs_bufferPool := BufferPool_put (serializePage p rows) (prs_bufferPool s)\<rparr>)"
proof -
  have new: "map_of (bp_pages (BufferPool_put (serializePage p rows) (prs_bufferPool s))) p =
      Some (serializePage p rows)"
    using BufferPool_put_lookup[OF assms(2), of "serializePage p rows"] by (simp add: serializePage_def)
  have other: "map_of (bp_pages (prs_bufferPool s)) q = Some pg"
    if "q \<noteq> p" "map_of (bp_pages (BufferPool_put (serializePage p rows) (prs_bufferPool s))) q = Some pg"
    for q pg
    using BufferPool_put_other[OF assms(2) _ that(2)] that(1) by (simp add: serializePage_def)
  show ?thesis
    using assms(1) new other by (auto simp: PageRowStore_mirror_def AList.update_conv')
qed

lemma PageRowStore_append_mirror:
  "PageRowStore_mirror s \<Longrightarrow> BufferPool_inv (prs_bufferPool s) \<Longrightarrow>
   PageRowStore_mirror (snd (PageRowStore_append r s)) \<and>
   BufferPool_inv (prs_bufferPool (snd (PageRowStore_append r s)))"
  using mirror_put[of s "length (prs_slots s) div prs_rowsPerPage s + 1"]
  by (simp add: PageRowStore_append_def Let_def BufferPool_put_inv_abs(1))

lemma PageRowStore_replaceRows_mirror:
  assumes "BufferPool_inv (prs_bufferPool s)"
  shows "PageRowStore_mirror (PageRowStore_replaceRows rows s)"
proof -
  have "PageRowStore_mirror (fold (\<lambda>r t. snd (PageRowStore_append r t)) rows t)"
    if "PageRowStore_mirror t" "BufferPool_inv (prs_bufferPool t)" for t
    using that
  proof (induction rows arbitrary: t)
    case (Cons r rows)
    from Cons.IH PageRowStore_append_mirror[OF Cons.prems] show ?case by simp
  qed simp
  moreover have "PageRowStore_mirror (s\<lparr>prs_pages := [], prs_slots := []\<rparr>)"
    by (simp add: PageRowStore_mirror_def)
  ultimately show ?thesis
    unfolding PageRowStore_replaceRows_def using assms by simp
qed

lemma PageRowStore_update_mirror:
  assumes "PageRowStore_mirror s" and "BufferPool_inv (prs_bufferPool s)"
    and "PageRowStore_update i r s = Inr (b, s')"
  shows "PageRowStore_mirror s'"
proof (cases "length (prs_slots s) \<le> i")
  case True
  with assms show ?thesis by (simp add: PageRowStore_update_def)
next
  case False
  obtain p off where slot: "prs_slots s ! i = (p, off)" by (cases "prs_slots s ! i")
  with False assms(3) obtain rows where "map_of (prs_pages s) p = Some rows"
    by (auto simp: PageRowStore_update_def Let_def split: option.splits)
  with False slot assms(3) have "s' = s\<lparr>prs_pages := AList.update p (rows[off := r]) (prs_pages s),
      prs_slots := prs_slots s,
      prs_bufferPool := BufferPool_put (serializePage p (rows[off := r])) (prs_bufferPool s)\<rparr>"
    by (simp add: PageRowStore_update_def Let_def)
  then show ?thesis by (simp only: mirror_put[OF assms(1,2)])
qed

end
