(* ===== verification/IndexSpec.thy ===== *)
theory IndexSpec
  imports Values
begin

text \<open>
  What \<open>Table\<close> relies on in an index. \<open>row_index\<close> is the contract of equality lookup:
  inserting a row id under a key appends it to the ids found under every equal key.
  \<open>ordered_index\<close> adds range lookup: its entries are an ordered map from keys to row ids,
  and every ordered index is a \<open>row_index\<close>. \<open>HashIndex\<close> interprets the first and
  \<open>BTreeIndex\<close> the second. A NaN key is outside both contracts, as it is outside the
  requirements of the containers the classes are built on.
\<close>

text \<open>The ids filed under a key of an ordered map.\<close>

definition entries_find :: "sql_value \<Rightarrow> (sql_value \<times> row_id list) list \<Rightarrow> row_id list" where
  "entries_find k es = (case omap_find Value_less k es of None \<Rightarrow> [] | Some ids \<Rightarrow> ids)"

definition push_id :: "row_id \<Rightarrow> row_id list option \<Rightarrow> row_id list" where
  "push_id r old = (case old of None \<Rightarrow> [] | Some ids \<Rightarrow> ids) @ [r]"

section \<open>Equality lookup\<close>

locale row_index =
  fixes ix_insert :: "sql_value \<Rightarrow> row_id \<Rightarrow> 'ix \<Rightarrow> 'ix"
    and ix_clear :: "'ix \<Rightarrow> 'ix"
    and ix_find :: "sql_value \<Rightarrow> 'ix \<Rightarrow> row_id list"
    and ix_inv :: "'ix \<Rightarrow> bool"
  assumes clear_inv: "ix_inv ix \<Longrightarrow> ix_inv (ix_clear ix)"
    and find_clear: "ix_inv ix \<Longrightarrow> value_ok k \<Longrightarrow> ix_find k (ix_clear ix) = []"
    and insert_inv: "ix_inv ix \<Longrightarrow> value_ok k \<Longrightarrow> ix_inv (ix_insert k r ix)"
    and find_insert: "ix_inv ix \<Longrightarrow> value_ok k \<Longrightarrow> value_ok k' \<Longrightarrow>
      ix_find k' (ix_insert k r ix) = ix_find k' ix @ (if Value_eq k k' then [r] else [])"
begin

text \<open>The index lists, under each key, the rows whose column equals it.\<close>

definition lists_rows :: "nat \<Rightarrow> row list \<Rightarrow> 'ix \<Rightarrow> bool" where
  "lists_rows col rows ix \<longleftrightarrow>
     ix_inv ix \<and> (\<forall>k. value_ok k \<longrightarrow> ix_find k ix = positions (\<lambda>r. Value_eq (r ! col) k) rows)"

lemma lists_rows_clear: "ix_inv ix \<Longrightarrow> lists_rows col [] (ix_clear ix)"
  by (simp add: lists_rows_def clear_inv find_clear)

lemma lists_rows_snoc:
  "lists_rows col rows ix \<Longrightarrow> value_ok (r ! col) \<Longrightarrow>
   lists_rows col (rows @ [r]) (ix_insert (r ! col) (length rows) ix)"
  by (simp add: lists_rows_def insert_inv find_insert positions_snoc)

text \<open>Filling a cleared index row by row, as \<open>createIndex\<close> and \<open>rebuildIndexes\<close> do.\<close>

lemma lists_rows_fill:
  assumes "ix_inv ix" and "\<forall>r \<in> set rows. value_ok (r ! col)"
  shows "lists_rows col rows
    (fold (\<lambda>i ix. ix_insert (rows ! i ! col) i ix) [0..<length rows] (ix_clear ix))"
  using assms(2)
proof (induction rows rule: rev_induct)
  case Nil
  then show ?case using lists_rows_clear[OF assms(1)] by simp
next
  case (snoc r rows)
  have "fold (\<lambda>i ix. ix_insert ((rows @ [r]) ! i ! col) i ix) [0..<length rows] ix' =
      fold (\<lambda>i ix. ix_insert (rows ! i ! col) i ix) [0..<length rows] ix'" for ix'
    by (rule fold_cong) (auto simp: nth_append)
  with snoc show ?case by (simp add: lists_rows_snoc)
qed

end

section \<open>Range lookup\<close>

locale ordered_index =
  fixes ox_insert :: "sql_value \<Rightarrow> row_id \<Rightarrow> 'ix \<Rightarrow> 'ix"
    and ox_clear :: "'ix \<Rightarrow> 'ix"
    and ox_find :: "sql_value \<Rightarrow> 'ix \<Rightarrow> row_id list"
    and ox_lessThan :: "sql_value \<Rightarrow> 'ix \<Rightarrow> row_id list"
    and ox_greaterThan :: "sql_value \<Rightarrow> 'ix \<Rightarrow> row_id list"
    and ox_entries :: "'ix \<Rightarrow> (sql_value \<times> row_id list) list"
    and ox_inv :: "'ix \<Rightarrow> bool"
  assumes entries_wf: "ox_inv ix \<Longrightarrow> omap_wf Value_less value_ok (ox_entries ix)"
    and oclear_inv: "ox_inv ix \<Longrightarrow> ox_inv (ox_clear ix)"
    and oclear_entries: "ox_inv ix \<Longrightarrow> ox_entries (ox_clear ix) = []"
    and oinsert_inv: "ox_inv ix \<Longrightarrow> value_ok k \<Longrightarrow> ox_inv (ox_insert k r ix)"
    and oinsert_entries: "ox_inv ix \<Longrightarrow> value_ok k \<Longrightarrow>
      ox_entries (ox_insert k r ix) = omap_alter Value_less k (push_id r) (ox_entries ix)"
    and ofind_entries: "ox_inv ix \<Longrightarrow> value_ok k \<Longrightarrow> ox_find k ix = entries_find k (ox_entries ix)"
    and lessThan_entries: "ox_inv ix \<Longrightarrow> value_ok k \<Longrightarrow>
      ox_lessThan k ix = concat (map snd (filter (\<lambda>(k', _). Value_less k' k) (ox_entries ix)))"
    and greaterThan_entries: "ox_inv ix \<Longrightarrow> value_ok k \<Longrightarrow>
      ox_greaterThan k ix = concat (map snd (filter (\<lambda>(k', _). Value_less k k') (ox_entries ix)))"

sublocale ordered_index \<subseteq> row_index ox_insert ox_clear ox_find ox_inv
proof unfold_locales
  fix ix k k' r
  assume inv: "ox_inv ix"
  show "ox_inv (ox_clear ix)" by (rule oclear_inv[OF inv])
  assume ok: "value_ok k"
  show "ox_find k (ox_clear ix) = []"
    by (simp add: ofind_entries oclear_inv oclear_entries inv ok entries_find_def)
  show "ox_inv (ox_insert k r ix)" by (rule oinsert_inv[OF inv ok])
  assume ok': "value_ok k'"
  have "omap_find Value_less k (ox_entries ix) = omap_find Value_less k' (ox_entries ix)"
    if "Value_eq k k'"
    using value_order.omap_find_eqv[OF entries_wf[OF inv] ok ok'] that
      Value_eq_incomparable[OF ok ok'] by blast
  then show "ox_find k' (ox_insert k r ix) = ox_find k' ix @ (if Value_eq k k' then [r] else [])"
    using value_order.omap_find_alter[OF entries_wf[OF inv] ok ok'] Value_eq_incomparable[OF ok ok']
    by (simp add: ofind_entries oinsert_inv oinsert_entries inv ok ok' entries_find_def push_id_def)
qed

text \<open>
  A predicate on keys that does not tell equal keys apart selects, from the entries, the ids of
  exactly the rows whose column satisfies it. Range lookups are two instances.
\<close>

definition respects_eq :: "(sql_value \<Rightarrow> bool) \<Rightarrow> bool" where
  "respects_eq P \<longleftrightarrow> (\<forall>a b. value_ok a \<longrightarrow> value_ok b \<longrightarrow> Value_eq a b \<longrightarrow> P a = P b)"

lemma respects_eq_less: "value_ok k \<Longrightarrow> respects_eq (\<lambda>v. Value_less v k)"
  unfolding respects_eq_def using Value_eq_incomparable value_order.lt_eqv_left by blast

lemma respects_eq_greater: "value_ok k \<Longrightarrow> respects_eq (\<lambda>v. Value_less k v)"
  unfolding respects_eq_def using Value_eq_incomparable value_order.lt_eqv_right by blast

text \<open>
  The order of an ordered index: by the value in the column, ids of equal values in the order of
  the rows.
\<close>

definition sorted_ids :: "nat \<Rightarrow> row list \<Rightarrow> row_id list" where
  "sorted_ids col rows =
     sort_stable (\<lambda>i j. Value_less (rows ! i ! col) (rows ! j ! col)) [0..<length rows]"

text \<open>The ids whose value in the column satisfies a predicate, in that order.\<close>

definition selected_ids :: "(sql_value \<Rightarrow> bool) \<Rightarrow> nat \<Rightarrow> row list \<Rightarrow> row_id list" where
  "selected_ids P col rows = filter (\<lambda>i. P (rows ! i ! col)) (sorted_ids col rows)"

lemma sorted_ids_Nil [simp]: "sorted_ids col [] = []"
  by (simp add: sorted_ids_def)

lemma sorted_ids_less: "i \<in> set (sorted_ids col rows) \<Longrightarrow> i < length rows"
  by (simp add: sorted_ids_def)

lemma mset_selected_ids: "mset (selected_ids P col rows) = mset (positions (\<lambda>r. P (r ! col)) rows)"
  by (simp add: selected_ids_def sorted_ids_def positions_def mset_filter)

lemma sorted_ids_snoc:
  "sorted_ids col (rows @ [r]) =
     insert_stable (\<lambda>i j. Value_less ((rows @ [r]) ! i ! col) ((rows @ [r]) ! j ! col)) (length rows)
       (sorted_ids col rows)"
proof -
  have "sort_stable (\<lambda>i j. Value_less ((rows @ [r]) ! i ! col) ((rows @ [r]) ! j ! col)) [0..<length rows] =
      sorted_ids col rows"
    unfolding sorted_ids_def by (rule sort_stable_cong) (simp add: nth_append)
  then show ?thesis by (simp add: sorted_ids_def)
qed

text \<open>Entries that list, in the order of their keys, ids of rows with these values.\<close>

definition entries_list :: "nat \<Rightarrow> row list \<Rightarrow> (sql_value \<times> row_id list) list \<Rightarrow> bool" where
  "entries_list col rows es \<longleftrightarrow>
     (\<forall>(k, ids) \<in> set es. \<forall>i \<in> set ids. i < length rows \<and> value_ok (rows ! i ! col) \<and>
        Value_eq (rows ! i ! col) k)"

lemma entries_list_simps [simp]:
  "entries_list col rows []"
  "entries_list col rows ((k, ids) # es) \<longleftrightarrow>
     (\<forall>i \<in> set ids. i < length rows \<and> value_ok (rows ! i ! col) \<and> Value_eq (rows ! i ! col) k) \<and>
     entries_list col rows es"
  by (auto simp: entries_list_def)

lemma entries_list_snoc: "entries_list col rows es \<Longrightarrow> entries_list col (rows @ [r]) es"
  by (auto simp: entries_list_def nth_append split: prod.splits)

text \<open>A comparison with a key is one with every value listed under it.\<close>

lemma eq_key_less:
  assumes "Value_eq a k" and "value_ok a" and "value_ok k" and "value_ok v"
  shows "Value_less v a \<longleftrightarrow> Value_less v k" and "Value_less a v \<longleftrightarrow> Value_less k v"
proof -
  have "\<not> Value_less a k" "\<not> Value_less k a" using assms Value_eq_incomparable by blast+
  then show "Value_less v a \<longleftrightarrow> Value_less v k" "Value_less a v \<longleftrightarrow> Value_less k v"
    using value_order.lt_eqv_right[OF assms(2,3,4)] value_order.lt_eqv_left[OF assms(2,3,4)] by blast+
qed

lemma entries_insert:
  assumes "omap_wf Value_less value_ok es" and "entries_list col rows es" and "value_ok (r ! col)"
  shows "entries_list col (rows @ [r])
      (omap_alter Value_less (r ! col) (push_id (length rows)) es) \<and>
    concat (map snd (omap_alter Value_less (r ! col) (push_id (length rows)) es)) =
    insert_stable (\<lambda>i j. Value_less ((rows @ [r]) ! i ! col) ((rows @ [r]) ! j ! col)) (length rows)
      (concat (map snd es))"
  using assms(1,2)
proof (induction es)
  case Nil
  then show ?case using assms(3) value_keys.refl by (simp add: push_id_def)
next
  case (Cons e es)
  obtain a ids where e: "e = (a, ids)" by (cases e)
  let ?k = "r ! col" and ?lt = "\<lambda>i j. Value_less ((rows @ [r]) ! i ! col) ((rows @ [r]) ! j ! col)"
  have a: "value_ok a" "omap_wf Value_less value_ok es" "\<forall>k' \<in> fst ` set es. Value_less a k'"
    using Cons.prems(1) by (simp_all add: e omap_wf_Cons)
  have okes: "\<forall>k' \<in> fst ` set es. value_ok k'" using a(2) by (simp add: omap_wf_def)
  have ids: "\<forall>i \<in> set ids. ?lt (length rows) i \<longleftrightarrow> Value_less ?k a"
    using Cons.prems(2) eq_key_less(1)[OF _ _ a(1) assms(3)] by (auto simp: e nth_append)
  have rest: "\<forall>i \<in> set (concat (map snd es)). ?lt (length rows) i"
    if "\<forall>k' \<in> fst ` set es. Value_less ?k k'"
  proof
    fix i assume "i \<in> set (concat (map snd es))"
    then obtain k' js where k': "(k', js) \<in> set es" "i \<in> set js" by auto
    with Cons.prems(2) have "i < length rows" "value_ok (rows ! i ! col)" "Value_eq (rows ! i ! col) k'"
      by (auto simp: e entries_list_def)
    with eq_key_less(1)[of "rows ! i ! col" k' ?k] okes that k'(1) assms(3)
    show "?lt (length rows) i" by (force simp: nth_append)
  qed
  consider "Value_less a ?k" | "\<not> Value_less a ?k" "Value_less ?k a" | "\<not> Value_less a ?k" "\<not> Value_less ?k a"
    by blast
  then show ?case
  proof cases
    case 1
    then have "\<not> Value_less ?k a" using value_order.asym[OF a(1) assms(3)] by blast
    with 1 Cons ids a(2) show ?thesis
      by (simp add: e insert_stable_skip entries_list_snoc) (auto simp: nth_append)
  next
    case 2
    then have "\<forall>k' \<in> fst ` set es. Value_less ?k k'"
      using a okes value_order.trans[OF assms(3) a(1)] by blast
    with rest ids 2 have "\<forall>i \<in> set (ids @ concat (map snd es)). ?lt (length rows) i" by auto
    with 2 Cons.prems(2) show ?thesis
      using insert_stable_front[of "ids @ concat (map snd es)" ?lt "length rows"] assms(3) value_keys.refl
      by (simp add: e push_id_def entries_list_snoc) (auto simp: nth_append)
  next
    case 3
    have eq: "Value_eq ?k a" using 3 Value_eq_incomparable[OF assms(3) a(1)] by blast
    have "\<forall>k' \<in> fst ` set es. Value_less ?k k'"
      using a(3) okes eq_key_less(2)[OF eq assms(3) a(1)] by blast
    with rest have "insert_stable ?lt (length rows) (concat (map snd es)) = length rows # concat (map snd es)"
      by (intro insert_stable_front) blast
    with 3 ids Cons.prems(2) eq assms(3) show ?thesis
      by (simp add: e push_id_def insert_stable_skip entries_list_snoc) (auto simp: nth_append)
  qed
qed

lemma concat_filter_entries:
  assumes "entries_list col rows es" and "\<forall>k \<in> fst ` set es. value_ok k" and "respects_eq P"
  shows "concat (map snd (filter (\<lambda>(k, _). P k) es)) =
    filter (\<lambda>i. P (rows ! i ! col)) (concat (map snd es))"
  using assms(1,2)
proof (induction es)
  case (Cons e es)
  obtain k ids where e: "e = (k, ids)" by (cases e)
  have "P (rows ! i ! col) = P k" if "i \<in> set ids" for i
    using that Cons.prems assms(3) by (auto simp: e respects_eq_def)
  then have "filter (\<lambda>i. P (rows ! i ! col)) ids = (if P k then ids else [])"
    by (auto simp: filter_empty_conv filter_id_conv)
  with Cons show ?case by (simp add: e)
qed simp

context ordered_index begin

text \<open>The index lists the rows in the order of the column.\<close>

definition orders_rows :: "nat \<Rightarrow> row list \<Rightarrow> 'ix \<Rightarrow> bool" where
  "orders_rows col rows ix \<longleftrightarrow> ox_inv ix \<and> entries_list col rows (ox_entries ix) \<and>
     concat (map snd (ox_entries ix)) = sorted_ids col rows"

lemma orders_rows_clear: "ox_inv ix \<Longrightarrow> orders_rows col [] (ox_clear ix)"
  by (simp add: orders_rows_def oclear_inv oclear_entries)

lemma orders_rows_snoc:
  assumes "orders_rows col rows ix" and "value_ok (r ! col)"
  shows "orders_rows col (rows @ [r]) (ox_insert (r ! col) (length rows) ix)"
proof -
  have inv: "ox_inv ix" using assms(1) by (simp add: orders_rows_def)
  from entries_insert[OF entries_wf[OF inv] _ assms(2)] assms inv show ?thesis
    by (simp add: orders_rows_def oinsert_inv oinsert_entries sorted_ids_snoc)
qed

lemma orders_rows_fill:
  assumes "ox_inv ix" and "\<forall>r \<in> set rows. value_ok (r ! col)"
  shows "orders_rows col rows
    (fold (\<lambda>i ix. ox_insert (rows ! i ! col) i ix) [0..<length rows] (ox_clear ix))"
  using assms(2)
proof (induction rows rule: rev_induct)
  case Nil
  then show ?case using orders_rows_clear[OF assms(1)] by simp
next
  case (snoc r rows)
  have "fold (\<lambda>i ix. ox_insert ((rows @ [r]) ! i ! col) i ix) [0..<length rows] ix' =
      fold (\<lambda>i ix. ox_insert (rows ! i ! col) i ix) [0..<length rows] ix'" for ix'
    by (rule fold_cong) (auto simp: nth_append)
  with snoc show ?case by (simp add: orders_rows_snoc)
qed

lemma orders_rows_select:
  assumes "orders_rows col rows ix" and "respects_eq P"
  shows "concat (map snd (filter (\<lambda>(k, _). P k) (ox_entries ix))) = selected_ids P col rows"
proof -
  have "\<forall>k \<in> fst ` set (ox_entries ix). value_ok k"
    using assms(1) entries_wf[of ix] by (simp add: orders_rows_def omap_wf_def)
  with assms show ?thesis
    using concat_filter_entries[of col rows "ox_entries ix" P] by (simp add: orders_rows_def selected_ids_def)
qed

lemma lessThan_rows:
  assumes "orders_rows col rows ix" and "value_ok k"
  shows "ox_lessThan k ix = selected_ids (\<lambda>v. Value_less v k) col rows"
  using lessThan_entries[OF _ assms(2)] orders_rows_select[OF assms(1) respects_eq_less[OF assms(2)]] assms(1)
  by (simp add: orders_rows_def)

lemma greaterThan_rows:
  assumes "orders_rows col rows ix" and "value_ok k"
  shows "ox_greaterThan k ix = selected_ids (\<lambda>v. Value_less k v) col rows"
  using greaterThan_entries[OF _ assms(2)] orders_rows_select[OF assms(1) respects_eq_greater[OF assms(2)]] assms(1)
  by (simp add: orders_rows_def)

end

end
