(* ===== verification/HashIndex.thy ===== *)
theory HashIndex
  imports IndexSpec
begin

text \<open>
  \<open>indexing/hash_index.hpp\<close> and \<open>indexing/hash_index.cpp\<close>: an \<open>unordered_map\<close> from values to
  row ids under \<open>operator==\<close>. The bucket of a key is decided by \<open>ValueHash\<close>; since equal
  values hash alike (\<open>ValueHash_respects\<close>), looking only in that bucket finds what looking at
  every entry finds (\<open>HashIndex_bucket_find\<close>), and the model looks at every entry.
\<close>

section \<open>The hash\<close>

text \<open>The three \<open>std::hash\<close> specialisations are parameters: their values are unspecified.\<close>

definition HashIndex_ValueHash ::
  "(64 word \<Rightarrow> 64 word) \<Rightarrow> (double \<Rightarrow> 64 word) \<Rightarrow> (string \<Rightarrow> 64 word) \<Rightarrow> sql_value \<Rightarrow> 64 word" where
  "HashIndex_ValueHash hash_int hash_double hash_string v =
     (case v of
        VNull \<Rightarrow> 0x9e3779b97f4a7c15
      | VInt i \<Rightarrow> hash_int i
      | VDouble d \<Rightarrow> hash_double d
      | VString s \<Rightarrow> hash_string s)"

text \<open>
  \<open>std::hash<double>\<close> is documented to give equal results for arguments that compare equal,
  so the two zeros hash alike.
\<close>

lemma ValueHash_respects:
  assumes "\<And>a b. dbl_eq a b \<Longrightarrow> hash_double a = hash_double b" and "Value_eq v w"
  shows "HashIndex_ValueHash hash_int hash_double hash_string v =
    HashIndex_ValueHash hash_int hash_double hash_string w"
  using assms by (cases v; cases w) (auto simp: HashIndex_ValueHash_def)

section \<open>Operations\<close>

record hash_index =
  hi_entries :: "(sql_value \<times> row_id list) list"

definition HashIndex_new :: hash_index where
  "HashIndex_new = \<lparr>hi_entries = []\<rparr>"

definition HashIndex_insert :: "sql_value \<Rightarrow> row_id \<Rightarrow> hash_index \<Rightarrow> hash_index" where
  "HashIndex_insert key rowId ix =
     ix\<lparr>hi_entries := umap_alter Value_eq key (push_id rowId) (hi_entries ix)\<rparr>"

definition HashIndex_remove :: "sql_value \<Rightarrow> row_id \<Rightarrow> hash_index \<Rightarrow> hash_index" where
  "HashIndex_remove key rowId ix =
     (case umap_find Value_eq key (hi_entries ix) of
        None \<Rightarrow> ix
      | Some rowIds \<Rightarrow>
          (let left = filter (\<lambda>r. r \<noteq> rowId) rowIds
           in if left = [] then ix\<lparr>hi_entries := umap_erase Value_eq key (hi_entries ix)\<rparr>
              else ix\<lparr>hi_entries := umap_alter Value_eq key (\<lambda>_. left) (hi_entries ix)\<rparr>))"

definition HashIndex_clear :: "hash_index \<Rightarrow> hash_index" where
  "HashIndex_clear ix = ix\<lparr>hi_entries := []\<rparr>"

definition HashIndex_find :: "sql_value \<Rightarrow> hash_index \<Rightarrow> row_id list" where
  "HashIndex_find key ix =
     (case umap_find Value_eq key (hi_entries ix) of None \<Rightarrow> [] | Some rowIds \<Rightarrow> rowIds)"

definition HashIndex_size :: "hash_index \<Rightarrow> nat" where
  "HashIndex_size ix = length (hi_entries ix)"

section \<open>The contract\<close>

definition HashIndex_inv :: "hash_index \<Rightarrow> bool" where
  "HashIndex_inv ix \<longleftrightarrow> umap_wf Value_eq value_ok (hi_entries ix)"

lemma HashIndex_new_inv: "HashIndex_inv HashIndex_new"
  by (simp add: HashIndex_inv_def HashIndex_new_def)

interpretation hash: row_index HashIndex_insert HashIndex_clear HashIndex_find HashIndex_inv
proof unfold_locales
  fix ix k k' r
  assume inv: "HashIndex_inv ix"
  show "HashIndex_inv (HashIndex_clear ix)" by (simp add: HashIndex_inv_def HashIndex_clear_def)
  show "HashIndex_find k (HashIndex_clear ix) = []"
    by (simp add: HashIndex_find_def HashIndex_clear_def)
  assume ok: "value_ok k"
  have wf: "umap_wf Value_eq value_ok (hi_entries ix)" using inv by (simp add: HashIndex_inv_def)
  show "HashIndex_inv (HashIndex_insert k r ix)"
    using value_keys.umap_wf_alter[OF wf ok] by (simp add: HashIndex_inv_def HashIndex_insert_def)
  assume ok': "value_ok k'"
  show "HashIndex_find k' (HashIndex_insert k r ix) =
      HashIndex_find k' ix @ (if Value_eq k k' then [r] else [])"
    using value_keys.umap_find_alter[OF wf ok ok'] value_keys.umap_find_eqv[OF wf ok ok']
    by (simp add: HashIndex_find_def HashIndex_insert_def push_id_def)
qed

text \<open>Looking up a key in its bucket alone, for a hash that respects \<open>operator==\<close>.\<close>

lemma HashIndex_bucket_find:
  assumes "\<And>v w. Value_eq v w \<Longrightarrow> h v = h w"
  shows "umap_find Value_eq k (filter (\<lambda>(a, _). h a = h k) es) = umap_find Value_eq k es"
  using assms by (induction es) auto

text \<open>\<open>remove\<close> takes the id out under every equal key and keeps the rest.\<close>

lemma HashIndex_find_remove:
  assumes inv: "HashIndex_inv ix" and ok: "value_ok k" "value_ok k'"
  shows "HashIndex_find k' (HashIndex_remove k r ix) =
    (if Value_eq k k' then filter (\<lambda>i. i \<noteq> r) (HashIndex_find k' ix) else HashIndex_find k' ix)"
proof -
  have wf: "umap_wf Value_eq value_ok (hi_entries ix)" using inv by (simp add: HashIndex_inv_def)
  note laws = value_keys.umap_find_erase[OF wf ok] value_keys.umap_find_alter[OF wf ok]
    value_keys.umap_find_eqv[OF wf ok]
  show ?thesis
    using laws by (cases "umap_find Value_eq k (hi_entries ix)"; cases "Value_eq k k'")
      (auto simp: HashIndex_remove_def HashIndex_find_def Let_def split: option.splits)
qed

lemma HashIndex_remove_inv: "HashIndex_inv ix \<Longrightarrow> value_ok k \<Longrightarrow> HashIndex_inv (HashIndex_remove k r ix)"
  by (auto simp: HashIndex_inv_def HashIndex_remove_def Let_def value_keys.umap_wf_erase
      value_keys.umap_wf_alter split: option.split)

end
