(* ===== verification/BTreeIndex.thy ===== *)
theory BTreeIndex
  imports IndexSpec
begin

text \<open>
  \<open>indexing/btree_index.hpp\<close> and \<open>indexing/btree_index.cpp\<close>. Mutations change the ordered map
  \<open>entries_\<close> and rebuild the nodes from it: a row of leaves of at most \<open>maxKeysPerLeaf_\<close> keys,
  linked in order, and above them, when there are several, one root. Lookups read only the
  leaves. The invariant \<open>BTreeIndex_inv\<close> says that the nodes are the layout of the entries, so
  lookups in the leaves are lookups in the map; \<open>btree_layout\<close> spells the layout out.
\<close>

type_synonym btree_page_id = nat

record btree_node =
  bn_pageId :: btree_page_id
  bn_leaf :: bool
  bn_keys :: "sql_value list"
  bn_rowIds :: "row_id list list"
  bn_children :: "btree_page_id list"
  bn_nextLeaf :: "btree_page_id option"

record btree_index =
  bt_entries :: "(sql_value \<times> row_id list) list"
  bt_maxKeysPerLeaf :: nat
  bt_nodes :: "btree_node list"

section \<open>Layout\<close>

definition make_leaf :: "btree_page_id \<Rightarrow> (sql_value \<times> row_id list) list \<Rightarrow> btree_node" where
  "make_leaf p es = \<lparr>bn_pageId = p, bn_leaf = True, bn_keys = map fst es, bn_rowIds = map snd es,
     bn_children = [], bn_nextLeaf = None\<rparr>"

text \<open>
  The loop that fills the leaves. With a leaf capacity of 0 it would not end; the constructor
  refuses that capacity.
\<close>

function fill_leaves :: "nat \<Rightarrow> btree_page_id \<Rightarrow> (sql_value \<times> row_id list) list \<Rightarrow> btree_node list" where
  "fill_leaves n p es =
     (if es = [] \<or> n = 0 then [] else make_leaf p (take n es) # fill_leaves n (p + 1) (drop n es))"
  by pat_completeness auto
termination
  by (relation "measure (\<lambda>(n, p, es). length es)") auto

declare fill_leaves.simps [simp del]

fun link_leaves :: "btree_node list \<Rightarrow> btree_node list" where
  "link_leaves (a # b # ns) = a\<lparr>bn_nextLeaf := Some (bn_pageId b)\<rparr> # link_leaves (b # ns)"
| "link_leaves ns = ns"

definition make_root :: "btree_node list \<Rightarrow> btree_node" where
  "make_root leaves = \<lparr>bn_pageId = length leaves + 1, bn_leaf = False,
     bn_keys = map (\<lambda>n. hd (bn_keys n)) (tl leaves), bn_rowIds = [],
     bn_children = map bn_pageId leaves, bn_nextLeaf = None\<rparr>"

definition layout_nodes :: "nat \<Rightarrow> (sql_value \<times> row_id list) list \<Rightarrow> btree_node list" where
  "layout_nodes n es =
     (if es = [] then [make_leaf 1 []]
      else (let leaves = link_leaves (fill_leaves n 1 es)
            in if length leaves = 1 then leaves else leaves @ [make_root leaves]))"

definition BTreeIndex_rebuildLayout :: "btree_index \<Rightarrow> btree_index" where
  "BTreeIndex_rebuildLayout ix = ix\<lparr>bt_nodes := layout_nodes (bt_maxKeysPerLeaf ix) (bt_entries ix)\<rparr>"

section \<open>Operations\<close>

definition BTreeIndex_new :: "nat \<Rightarrow> btree_index outcome" where
  "BTreeIndex_new maxKeysPerLeaf =
     (if maxKeysPerLeaf = 0 then Inl (InvalidArgument ''B+ tree leaf capacity must be positive'')
      else Inr (BTreeIndex_rebuildLayout
             \<lparr>bt_entries = [], bt_maxKeysPerLeaf = maxKeysPerLeaf, bt_nodes = []\<rparr>))"

definition BTreeIndex_insert :: "sql_value \<Rightarrow> row_id \<Rightarrow> btree_index \<Rightarrow> btree_index" where
  "BTreeIndex_insert key rowId ix =
     BTreeIndex_rebuildLayout
       (ix\<lparr>bt_entries := omap_alter Value_less key (push_id rowId) (bt_entries ix)\<rparr>)"

definition BTreeIndex_remove :: "sql_value \<Rightarrow> row_id \<Rightarrow> btree_index \<Rightarrow> btree_index" where
  "BTreeIndex_remove key rowId ix =
     (case omap_find Value_less key (bt_entries ix) of
        None \<Rightarrow> ix
      | Some rowIds \<Rightarrow>
          (let left = filter (\<lambda>r. r \<noteq> rowId) rowIds
           in BTreeIndex_rebuildLayout
                (if left = [] then ix\<lparr>bt_entries := omap_erase Value_less key (bt_entries ix)\<rparr>
                 else ix\<lparr>bt_entries := omap_alter Value_less key (\<lambda>_. left) (bt_entries ix)\<rparr>)))"

definition BTreeIndex_clear :: "btree_index \<Rightarrow> btree_index" where
  "BTreeIndex_clear ix = BTreeIndex_rebuildLayout (ix\<lparr>bt_entries := []\<rparr>)"

text \<open>The keys and payloads of the leaves in the order the lookups visit them.\<close>

definition leaf_entries :: "btree_node list \<Rightarrow> (sql_value \<times> row_id list) list" where
  "leaf_entries nodes = concat (map (\<lambda>n. if bn_leaf n then zip (bn_keys n) (bn_rowIds n) else []) nodes)"

definition BTreeIndex_find :: "sql_value \<Rightarrow> btree_index \<Rightarrow> row_id list" where
  "BTreeIndex_find key ix =
     (case List.find (\<lambda>(k, _). Value_eq k key) (leaf_entries (bt_nodes ix)) of
        None \<Rightarrow> [] | Some (_, rowIds) \<Rightarrow> rowIds)"

text \<open>The scan returns at the first key that is not less.\<close>

definition BTreeIndex_lessThan :: "sql_value \<Rightarrow> btree_index \<Rightarrow> row_id list" where
  "BTreeIndex_lessThan key ix =
     concat (map snd (takeWhile (\<lambda>(k, _). Value_less k key) (leaf_entries (bt_nodes ix))))"

text \<open>The scan collects from the first greater key on.\<close>

definition BTreeIndex_greaterThan :: "sql_value \<Rightarrow> btree_index \<Rightarrow> row_id list" where
  "BTreeIndex_greaterThan key ix =
     concat (map snd (dropWhile (\<lambda>(k, _). \<not> Value_less key k) (leaf_entries (bt_nodes ix))))"

definition BTreeIndex_size :: "btree_index \<Rightarrow> nat" where
  "BTreeIndex_size ix = length (bt_entries ix)"

definition BTreeIndex_height :: "btree_index \<Rightarrow> nat" where
  "BTreeIndex_height ix = (if length (bt_nodes ix) \<le> 1 then 1 else 2)"

definition BTreeIndex_leafPageCount :: "btree_index \<Rightarrow> nat" where
  "BTreeIndex_leafPageCount ix = length (filter bn_leaf (bt_nodes ix))"

section \<open>The layout is right\<close>

lemma make_leaf_simps [simp]:
  "bn_leaf (make_leaf p es)" "bn_keys (make_leaf p es) = map fst es"
  "bn_rowIds (make_leaf p es) = map snd es" "bn_pageId (make_leaf p es) = p"
  by (simp_all add: make_leaf_def)

lemma leaf_entries_append [simp]: "leaf_entries (ns @ ms) = leaf_entries ns @ leaf_entries ms"
  by (simp add: leaf_entries_def)

lemma leaf_entries_make_root [simp]: "leaf_entries [make_root ls] = []"
  by (simp add: leaf_entries_def make_root_def)

lemma leaf_entries_link [simp]: "leaf_entries (link_leaves ns) = leaf_entries ns"
  by (induction ns rule: link_leaves.induct) (simp_all add: leaf_entries_def)

lemma length_link_leaves [simp]: "length (link_leaves ns) = length ns"
  by (induction ns rule: link_leaves.induct) auto

lemma leaf_entries_fill: "0 < n \<Longrightarrow> leaf_entries (fill_leaves n p es) = es"
proof (induction n p es rule: fill_leaves.induct)
  case (1 n p es)
  show ?case
  proof (cases "es = []")
    case True
    then show ?thesis by (simp add: fill_leaves.simps leaf_entries_def)
  next
    case False
    with 1 have "leaf_entries (fill_leaves n (p + 1) (drop n es)) = drop n es" by simp
    with False 1 show ?thesis
      by (subst fill_leaves.simps) (simp add: leaf_entries_def zip_map_fst_snd)
  qed
qed

lemma leaf_entries_layout: "0 < n \<Longrightarrow> leaf_entries (layout_nodes n es) = es"
  by (auto simp: layout_nodes_def Let_def leaf_entries_fill) (simp add: leaf_entries_def)

text \<open>
  What the layout promises: leaves hold the entries in order, each leaf has at most \<open>n\<close> keys
  and only the empty index has an empty leaf; leaf pages are numbered from 1 and linked; with
  more than one leaf there is one root whose children are the leaves and whose separators are
  the first keys of all leaves but the first.
\<close>

definition btree_layout :: "nat \<Rightarrow> (sql_value \<times> row_id list) list \<Rightarrow> btree_node list \<Rightarrow> bool" where
  "btree_layout n es nodes \<longleftrightarrow>
     (let leaves = filter bn_leaf nodes; inner = filter (\<lambda>x. \<not> bn_leaf x) nodes
      in nodes = leaves @ inner \<and> leaf_entries nodes = es \<and>
         (\<forall>l \<in> set leaves. length (bn_rowIds l) = length (bn_keys l) \<and> length (bn_keys l) \<le> n \<and>
            (es \<noteq> [] \<longrightarrow> bn_keys l \<noteq> [])) \<and>
         map bn_pageId nodes = [1..<length nodes + 1] \<and>
         map bn_nextLeaf leaves = map Some [2..<length leaves + 1] @ [None] \<and>
         (if length leaves = 1 then inner = []
          else \<exists>r. inner = [r] \<and> bn_children r = map bn_pageId leaves \<and>
                 bn_keys r = map (\<lambda>l. hd (bn_keys l)) (tl leaves)))"

lemma fill_leaves_nonempty: "0 < n \<Longrightarrow> es \<noteq> [] \<Longrightarrow> fill_leaves n p es \<noteq> []"
  by (subst fill_leaves.simps) simp

definition leaf_ok :: "nat \<Rightarrow> btree_node \<Rightarrow> bool" where
  "leaf_ok n l \<longleftrightarrow> bn_leaf l \<and> length (bn_rowIds l) = length (bn_keys l) \<and>
     length (bn_keys l) \<le> n \<and> bn_keys l \<noteq> []"

lemma fill_leaves_ok: "0 < n \<Longrightarrow> \<forall>l \<in> set (fill_leaves n p es). leaf_ok n l \<and> bn_nextLeaf l = None"
proof (induction n p es rule: fill_leaves.induct)
  case (1 n p es)
  then show ?case by (subst fill_leaves.simps) (auto simp: leaf_ok_def make_leaf_def)
qed

lemma fill_leaves_pageIds:
  "0 < n \<Longrightarrow> map bn_pageId (fill_leaves n p es) = [p..<p + length (fill_leaves n p es)]"
proof (induction n p es rule: fill_leaves.induct)
  case (1 n p es)
  show ?case
  proof (cases "es = []")
    case True
    then show ?thesis by (simp add: fill_leaves.simps)
  next
    case False
    let ?f = "fill_leaves n (p + 1) (drop n es)"
    have "map bn_pageId ?f = [p + 1..<p + 1 + length ?f]" using 1 False by simp
    moreover have "fill_leaves n p es = make_leaf p (take n es) # ?f"
      using False 1(2) by (simp add: fill_leaves.simps[of n p es])
    moreover have "[p..<p + Suc (length ?f)] = p # [p + 1..<p + 1 + length ?f]"
      using upt_conv_Cons[of p "p + Suc (length ?f)"] by (simp del: upt_Suc)
    ultimately show ?thesis by (simp del: upt_Suc)
  qed
qed

lemma leaf_ok_link [simp]: "leaf_ok n (l\<lparr>bn_nextLeaf := x\<rparr>) = leaf_ok n l"
  by (simp add: leaf_ok_def)

lemma link_leaves_ok: "\<forall>l \<in> set ns. leaf_ok n l \<Longrightarrow> \<forall>l \<in> set (link_leaves ns). leaf_ok n l"
  by (induction ns rule: link_leaves.induct) auto

lemma link_leaves_pageIds [simp]: "map bn_pageId (link_leaves ns) = map bn_pageId ns"
  by (induction ns rule: link_leaves.induct) auto

lemma link_leaves_nextLeaf:
  "ns \<noteq> [] \<Longrightarrow> \<forall>l \<in> set ns. bn_nextLeaf l = None \<Longrightarrow>
   map bn_nextLeaf (link_leaves ns) = map Some (tl (map bn_pageId ns)) @ [None]"
  by (induction ns rule: link_leaves.induct) auto

lemma layout_leaves:
  assumes "0 < n" and "es \<noteq> []" and leaves: "leaves = link_leaves (fill_leaves n 1 es)"
  shows "leaves \<noteq> []" and "\<forall>l \<in> set leaves. leaf_ok n l"
    and "map bn_pageId leaves = [1..<length leaves + 1]"
    and "map bn_nextLeaf leaves = map Some [2..<length leaves + 1] @ [None]"
proof -
  let ?f = "fill_leaves n 1 es"
  have ne: "?f \<noteq> []" using fill_leaves_nonempty assms by blast
  have ok: "\<forall>l \<in> set ?f. leaf_ok n l \<and> bn_nextLeaf l = None" by (rule fill_leaves_ok[OF assms(1)])
  have ids: "map bn_pageId ?f = [1..<1 + length ?f]" by (rule fill_leaves_pageIds[OF assms(1)])
  show "leaves \<noteq> []" using ne leaves by (metis length_link_leaves length_0_conv)
  show "\<forall>l \<in> set leaves. leaf_ok n l" using ok link_leaves_ok leaves by blast
  show "map bn_pageId leaves = [1..<length leaves + 1]" using ids by (simp add: leaves)
  have "tl [1..<1 + length ?f] = [2..<1 + length ?f]" by (simp only: tl_upt Suc_1)
  with ids link_leaves_nextLeaf[OF ne] ok
  show "map bn_nextLeaf leaves = map Some [2..<length leaves + 1] @ [None]"
    by (simp add: leaves del: upt_Suc)
qed

lemma layout_nodes_layout:
  assumes "0 < n"
  shows "btree_layout n es (layout_nodes n es)"
proof (cases "es = []")
  case True
  then show ?thesis by (simp add: layout_nodes_def btree_layout_def Let_def make_leaf_def leaf_entries_def)
next
  case False
  define leaves where l: "leaves = link_leaves (fill_leaves n 1 es)"
  note facts = layout_leaves[OF assms False l]
  have fl: "filter bn_leaf leaves = leaves" "filter (\<lambda>x. \<not> bn_leaf x) leaves = []"
    using facts(2) by (auto simp: leaf_ok_def filter_id_conv filter_empty_conv)
  have entries: "leaf_entries leaves = es" by (simp add: l leaf_entries_fill assms)
  have ok: "\<forall>l \<in> set leaves. length (bn_rowIds l) = length (bn_keys l) \<and> length (bn_keys l) \<le> n \<and>
      bn_keys l \<noteq> []"
    using facts(2) by (simp add: leaf_ok_def)
  have root: "\<not> bn_leaf (make_root leaves)" "bn_pageId (make_root leaves) = length leaves + 1"
    "bn_children (make_root leaves) = map bn_pageId leaves"
    "bn_keys (make_root leaves) = map (\<lambda>l. hd (bn_keys l)) (tl leaves)"
    by (simp_all add: make_root_def)
  show ?thesis
  proof (cases "length leaves = 1")
    case True
    then have "layout_nodes n es = leaves" using False by (simp add: layout_nodes_def l Let_def)
    with True facts fl entries ok show ?thesis by (simp add: btree_layout_def Let_def)
  next
    case many: False
    then have "layout_nodes n es = leaves @ [make_root leaves]"
      using False by (simp add: layout_nodes_def l Let_def)
    with many facts fl entries ok root show ?thesis by (simp add: btree_layout_def Let_def)
  qed
qed

section \<open>The contract\<close>

definition BTreeIndex_inv :: "btree_index \<Rightarrow> bool" where
  "BTreeIndex_inv ix \<longleftrightarrow> 0 < bt_maxKeysPerLeaf ix \<and>
     omap_wf Value_less value_ok (bt_entries ix) \<and>
     bt_nodes ix = layout_nodes (bt_maxKeysPerLeaf ix) (bt_entries ix)"

lemma BTreeIndex_new_inv: "BTreeIndex_new n = Inr ix \<Longrightarrow> BTreeIndex_inv ix"
  by (auto simp: BTreeIndex_new_def BTreeIndex_inv_def BTreeIndex_rebuildLayout_def split: if_splits)

lemma BTreeIndex_new_entries: "BTreeIndex_new n = Inr ix \<Longrightarrow> bt_entries ix = []"
  by (auto simp: BTreeIndex_new_def BTreeIndex_rebuildLayout_def split: if_splits)

lemma BTreeIndex_inv_leaves: "BTreeIndex_inv ix \<Longrightarrow> leaf_entries (bt_nodes ix) = bt_entries ix"
  by (simp add: BTreeIndex_inv_def leaf_entries_layout)

text \<open>The scans of the leaves against the map they hold.\<close>

lemma find_eq_omap_find:
  "omap_wf Value_less value_ok es \<Longrightarrow> value_ok k \<Longrightarrow>
   (case List.find (\<lambda>(k', _). Value_eq k' k) es of None \<Rightarrow> [] | Some (_, ids) \<Rightarrow> ids) =
     entries_find k es"
proof (induction es)
  case Nil
  then show ?case by (simp add: entries_find_def)
next
  case (Cons e es)
  obtain a ids where e: "e = (a, ids)" by (cases e)
  note wf = Cons.prems(1)[unfolded e omap_wf_Cons]
  have okm: "\<forall>b \<in> fst ` set es. value_ok b" using wf by (simp add: omap_wf_def)
  show ?case
  proof (cases "Value_less k a")
    case True
    then have "\<forall>b \<in> fst ` set es. Value_less k b"
      using wf okm Cons.prems(2) value_order.trans by blast
    then have "omap_find Value_less k es = None"
      using value_order.omap_find_before wf Cons.prems(2) by blast
    with True Cons e wf show ?thesis
      using value_order.asym[of k a]
      by (simp add: Value_eq_incomparable entries_find_def)
  next
    case False
    with Cons e wf show ?thesis
      by (auto simp: Value_eq_incomparable entries_find_def)
  qed
qed

lemma takeWhile_less:
  "omap_wf Value_less value_ok es \<Longrightarrow> value_ok k \<Longrightarrow>
   takeWhile (\<lambda>(k', _). Value_less k' k) es = filter (\<lambda>(k', _). Value_less k' k) es"
proof (induction es)
  case (Cons e es)
  obtain a ids where e: "e = (a, ids)" by (cases e)
  note wf = Cons.prems(1)[unfolded e omap_wf_Cons]
  have okm: "\<forall>b \<in> fst ` set es. value_ok b" using wf by (simp add: omap_wf_def)
  show ?case
  proof (cases "Value_less a k")
    case False
    then have "\<not> Value_less b k" if "b \<in> fst ` set es" for b
      using that wf okm Cons.prems(2) value_order.trans[of a b k] by blast
    then have "filter (\<lambda>(k', _). Value_less k' k) es = []"
      by (force simp: filter_empty_conv)
    with False e show ?thesis by simp
  qed (use Cons e wf in simp)
qed simp

lemma dropWhile_greater:
  "omap_wf Value_less value_ok es \<Longrightarrow> value_ok k \<Longrightarrow>
   dropWhile (\<lambda>(k', _). \<not> Value_less k k') es = filter (\<lambda>(k', _). Value_less k k') es"
proof (induction es)
  case (Cons e es)
  obtain a ids where e: "e = (a, ids)" by (cases e)
  note wf = Cons.prems(1)[unfolded e omap_wf_Cons]
  have okm: "\<forall>b \<in> fst ` set es. value_ok b" using wf by (simp add: omap_wf_def)
  show ?case
  proof (cases "Value_less k a")
    case True
    then have "Value_less k b" if "b \<in> fst ` set es" for b
      using that wf okm Cons.prems(2) value_order.trans[of k a b] by blast
    then have "filter (\<lambda>(k', _). Value_less k k') es = es"
      by (force simp: filter_id_conv)
    with True e show ?thesis by simp
  qed (use Cons e wf in simp)
qed simp

interpretation btree: ordered_index BTreeIndex_insert BTreeIndex_clear BTreeIndex_find
  BTreeIndex_lessThan BTreeIndex_greaterThan bt_entries BTreeIndex_inv
proof unfold_locales
  fix ix k r
  assume inv: "BTreeIndex_inv ix"
  then show wf: "omap_wf Value_less value_ok (bt_entries ix)" by (simp add: BTreeIndex_inv_def)
  show "BTreeIndex_inv (BTreeIndex_clear ix)" "bt_entries (BTreeIndex_clear ix) = []"
    using inv by (simp_all add: BTreeIndex_inv_def BTreeIndex_clear_def BTreeIndex_rebuildLayout_def)
  assume ok: "value_ok k"
  show "BTreeIndex_inv (BTreeIndex_insert k r ix)"
    using inv value_order.omap_wf_alter[OF wf ok]
    by (simp add: BTreeIndex_inv_def BTreeIndex_insert_def BTreeIndex_rebuildLayout_def)
  show "bt_entries (BTreeIndex_insert k r ix) = omap_alter Value_less k (push_id r) (bt_entries ix)"
    by (simp add: BTreeIndex_insert_def BTreeIndex_rebuildLayout_def)
  show "BTreeIndex_find k ix = entries_find k (bt_entries ix)"
    by (simp add: BTreeIndex_find_def BTreeIndex_inv_leaves inv find_eq_omap_find[OF wf ok])
  show "BTreeIndex_lessThan k ix =
      concat (map snd (filter (\<lambda>(k', _). Value_less k' k) (bt_entries ix)))"
    by (simp add: BTreeIndex_lessThan_def BTreeIndex_inv_leaves inv takeWhile_less[OF wf ok])
  show "BTreeIndex_greaterThan k ix =
      concat (map snd (filter (\<lambda>(k', _). Value_less k k') (bt_entries ix)))"
    by (simp add: BTreeIndex_greaterThan_def BTreeIndex_inv_leaves inv dropWhile_greater[OF wf ok])
qed

lemma BTreeIndex_remove_inv:
  "BTreeIndex_inv ix \<Longrightarrow> value_ok k \<Longrightarrow> BTreeIndex_inv (BTreeIndex_remove k r ix)"
  by (auto simp: BTreeIndex_inv_def BTreeIndex_remove_def BTreeIndex_rebuildLayout_def Let_def
      value_order.omap_wf_erase value_order.omap_wf_alter split: option.split)

text \<open>\<open>remove\<close> takes the id out under every equal key and keeps the rest.\<close>

lemma BTreeIndex_find_remove:
  assumes inv: "BTreeIndex_inv ix" and ok: "value_ok k" "value_ok k'"
  shows "BTreeIndex_find k' (BTreeIndex_remove k r ix) =
    (if Value_eq k k' then filter (\<lambda>i. i \<noteq> r) (BTreeIndex_find k' ix) else BTreeIndex_find k' ix)"
proof -
  have wf: "omap_wf Value_less value_ok (bt_entries ix)" using inv by (simp add: BTreeIndex_inv_def)
  note laws = value_order.omap_find_erase[OF wf ok] value_order.omap_find_alter[OF wf ok]
    value_order.omap_find_eqv[OF wf ok] Value_eq_incomparable[OF ok]
  note entries = btree.ofind_entries[OF inv ok(2)]
    btree.ofind_entries[OF BTreeIndex_remove_inv[OF inv ok(1)] ok(2)]
  show ?thesis
    unfolding entries using laws
    by (cases "omap_find Value_less k (bt_entries ix)"; cases "Value_eq k k'")
      (auto simp: BTreeIndex_remove_def BTreeIndex_rebuildLayout_def entries_find_def Let_def
        split: option.splits)
qed

end
