(* ===== verification/Transactions.thy ===== *)
theory Transactions
  imports Values
begin

text \<open>
  \<open>transaction/transaction_manager.hpp/.cpp\<close> and \<open>transaction/mvcc_row_store.hpp/.cpp\<close>. The
  manager hands out 64-bit ids and keeps the state of each transaction; \<open>tm_reach\<close> are the
  managers a program can reach, with the outcomes of its calls recorded, and its lemmas say that
  a transaction ends at most once. The row store keeps, per row id, the versions written in
  order; a read at a transaction id scans them from the newest.
\<close>

type_synonym transaction_id = "64 word"

section \<open>TransactionManager\<close>

datatype transaction_state = Active | Committed | RolledBack

record transaction =
  tx_id :: transaction_id
  tx_state :: transaction_state

record transaction_manager =
  tm_nextId :: transaction_id
  tm_transactions :: "(transaction_id \<times> transaction) list"

definition TransactionManager_new :: transaction_manager where
  "TransactionManager_new = \<lparr>tm_nextId = 1, tm_transactions = []\<rparr>"

definition TransactionManager_find :: "transaction_id \<Rightarrow> transaction_manager \<Rightarrow> transaction option" where
  "TransactionManager_find i tm = umap_find (=) i (tm_transactions tm)"

text \<open>\<open>emplace\<close> keeps an entry that is already there.\<close>

definition TransactionManager_begin :: "transaction_manager \<Rightarrow> transaction \<times> transaction_manager" where
  "TransactionManager_begin tm =
     (let t = \<lparr>tx_id = tm_nextId tm, tx_state = Active\<rparr>
      in (t, \<lparr>tm_nextId = tm_nextId tm + 1,
              tm_transactions = umap_alter (=) (tx_id t)
                (\<lambda>old. case old of None \<Rightarrow> t | Some t' \<Rightarrow> t') (tm_transactions tm)\<rparr>))"

definition TransactionManager_set ::
  "transaction_state \<Rightarrow> transaction_id \<Rightarrow> transaction \<Rightarrow> transaction_manager \<Rightarrow> transaction_manager" where
  "TransactionManager_set s i t tm =
     tm\<lparr>tm_transactions := umap_alter (=) i (\<lambda>_. t\<lparr>tx_state := s\<rparr>) (tm_transactions tm)\<rparr>"

definition TransactionManager_commit ::
  "transaction_id \<Rightarrow> transaction_manager \<Rightarrow> transaction_manager outcome" where
  "TransactionManager_commit i tm =
     (case TransactionManager_find i tm of
        None \<Rightarrow> Inl (RuntimeError ''cannot commit inactive transaction'')
      | Some t \<Rightarrow>
          if tx_state t \<noteq> Active then Inl (RuntimeError ''cannot commit inactive transaction'')
          else Inr (TransactionManager_set Committed i t tm))"

definition TransactionManager_rollback ::
  "transaction_id \<Rightarrow> transaction_manager \<Rightarrow> transaction_manager outcome" where
  "TransactionManager_rollback i tm =
     (case TransactionManager_find i tm of
        None \<Rightarrow> Inl (RuntimeError ''cannot roll back inactive transaction'')
      | Some t \<Rightarrow>
          if tx_state t \<noteq> Active then Inl (RuntimeError ''cannot roll back inactive transaction'')
          else Inr (TransactionManager_set RolledBack i t tm))"

lemma tm_find_alter:
  "umap_wf (=) (\<lambda>_. True) m \<Longrightarrow>
   umap_find (=) j (umap_alter (=) i f m) = (if i = j then Some (f (umap_find (=) i m)) else umap_find (=) j m)"
  using eq_keys.umap_find_alter[OF _ TrueI TrueI] by metis

subsection \<open>Reachable managers\<close>

text \<open>What a caller observes: an id handed out, or the end of a transaction.\<close>

datatype tm_event = EvBegin transaction_id | EvCommit transaction_id | EvRollback transaction_id

inductive tm_reach :: "tm_event list \<Rightarrow> transaction_manager \<Rightarrow> bool" where
  tm_init: "tm_reach [] TransactionManager_new"
| tm_begin: "tm_reach evs tm \<Longrightarrow> TransactionManager_begin tm = (t, tm') \<Longrightarrow>
    tm_reach (evs @ [EvBegin (tx_id t)]) tm'"
| tm_commit: "tm_reach evs tm \<Longrightarrow> TransactionManager_commit i tm = Inr tm' \<Longrightarrow>
    tm_reach (evs @ [EvCommit i]) tm'"
| tm_rollback: "tm_reach evs tm \<Longrightarrow> TransactionManager_rollback i tm = Inr tm' \<Longrightarrow>
    tm_reach (evs @ [EvRollback i]) tm'"

inductive_cases tm_reach_snocE: "tm_reach (evs @ [e]) tm"

definition ended :: "transaction_id \<Rightarrow> tm_event list \<Rightarrow> tm_event list" where
  "ended i evs = filter (\<lambda>e. e = EvCommit i \<or> e = EvRollback i) evs"

text \<open>
  The table of transactions says what happened: a transaction is active when it began and did
  not end, and otherwise its state is the one event that ended it.
\<close>

definition tx_record :: "tm_event list \<Rightarrow> transaction_id \<Rightarrow> transaction option \<Rightarrow> bool" where
  "tx_record evs i entry \<longleftrightarrow>
     (case entry of
        None \<Rightarrow> EvBegin i \<notin> set evs \<and> ended i evs = []
      | Some t \<Rightarrow> tx_id t = i \<and> EvBegin i \<in> set evs \<and>
          (case tx_state t of
             Active \<Rightarrow> ended i evs = []
           | Committed \<Rightarrow> ended i evs = [EvCommit i]
           | RolledBack \<Rightarrow> ended i evs = [EvRollback i]))"

definition tm_records :: "tm_event list \<Rightarrow> transaction_manager \<Rightarrow> bool" where
  "tm_records evs tm \<longleftrightarrow> umap_wf (=) (\<lambda>_. True) (tm_transactions tm) \<and>
     (\<forall>i. tx_record evs i (TransactionManager_find i tm))"

lemma ended_append [simp]: "ended i (evs @ evs') = ended i evs @ ended i evs'"
  by (simp add: ended_def)

lemma ended_single [simp]:
  "ended i [EvBegin j] = []"
  "ended i [EvCommit j] = (if i = j then [EvCommit i] else [])"
  "ended i [EvRollback j] = (if i = j then [EvRollback i] else [])"
  by (auto simp: ended_def)

lemma tx_record_begin:
  "tx_record evs i entry \<Longrightarrow> j \<noteq> i \<Longrightarrow> tx_record (evs @ [EvBegin j]) i entry"
  "tx_record evs i entry \<Longrightarrow> tx_id t = i \<Longrightarrow> tx_state t = Active \<Longrightarrow>
   tx_record (evs @ [EvBegin i]) i (Some (case entry of None \<Rightarrow> t | Some t' \<Rightarrow> t'))"
  by (auto simp: tx_record_def split: option.splits transaction_state.splits)

lemma tx_record_end:
  "tx_record evs i entry \<Longrightarrow> j \<noteq> i \<Longrightarrow> tx_record (evs @ [EvCommit j]) i entry"
  "tx_record evs i entry \<Longrightarrow> j \<noteq> i \<Longrightarrow> tx_record (evs @ [EvRollback j]) i entry"
  "tx_record evs i (Some t) \<Longrightarrow> tx_state t = Active \<Longrightarrow>
   tx_record (evs @ [EvCommit i]) i (Some (t\<lparr>tx_state := Committed\<rparr>))"
  "tx_record evs i (Some t) \<Longrightarrow> tx_state t = Active \<Longrightarrow>
   tx_record (evs @ [EvRollback i]) i (Some (t\<lparr>tx_state := RolledBack\<rparr>))"
  by (auto simp: tx_record_def split: option.splits transaction_state.splits)

lemma tm_set_find:
  "umap_wf (=) (\<lambda>_. True) (tm_transactions tm) \<Longrightarrow>
   TransactionManager_find j (TransactionManager_set s i t tm) =
     (if i = j then Some (t\<lparr>tx_state := s\<rparr>) else TransactionManager_find j tm)"
  by (simp add: TransactionManager_find_def TransactionManager_set_def tm_find_alter)

lemma tm_set_wf:
  "umap_wf (=) (\<lambda>_. True) (tm_transactions tm) \<Longrightarrow>
   umap_wf (=) (\<lambda>_. True) (tm_transactions (TransactionManager_set s i t tm))"
  by (simp add: TransactionManager_set_def eq_keys.umap_wf_alter)

lemma tm_commit_Inr:
  "TransactionManager_commit i tm = Inr tm' \<longleftrightarrow>
   (\<exists>t. TransactionManager_find i tm = Some t \<and> tx_state t = Active \<and>
      tm' = TransactionManager_set Committed i t tm)"
  by (auto simp: TransactionManager_commit_def split: option.splits if_splits)

lemma tm_rollback_Inr:
  "TransactionManager_rollback i tm = Inr tm' \<longleftrightarrow>
   (\<exists>t. TransactionManager_find i tm = Some t \<and> tx_state t = Active \<and>
      tm' = TransactionManager_set RolledBack i t tm)"
  by (auto simp: TransactionManager_rollback_def split: option.splits if_splits)

lemma tm_reach_records: "tm_reach evs tm \<Longrightarrow> tm_records evs tm"
proof (induction rule: tm_reach.induct)
  case tm_init
  then show ?case
    by (simp add: tm_records_def tx_record_def TransactionManager_new_def
        TransactionManager_find_def ended_def)
next
  case (tm_begin evs tm t tm')
  then have wf: "umap_wf (=) (\<lambda>_. True) (tm_transactions tm)"
    and rec: "\<And>i. tx_record evs i (TransactionManager_find i tm)" by (simp_all add: tm_records_def)
  have t: "tx_state t = Active" and
    m: "tm_transactions tm' = umap_alter (=) (tx_id t)
      (\<lambda>old. case old of None \<Rightarrow> t | Some t' \<Rightarrow> t') (tm_transactions tm)"
    using tm_begin.hyps(2) by (auto simp: TransactionManager_begin_def Let_def)
  have "tx_record (evs @ [EvBegin (tx_id t)]) i (TransactionManager_find i tm')" for i
    using tx_record_begin(1)[OF rec, of "tx_id t" i] tx_record_begin(2)[OF rec, of t "tx_id t"] t
    by (auto simp: TransactionManager_find_def m tm_find_alter[OF wf])
  then show ?case using eq_keys.umap_wf_alter[OF wf] by (simp add: tm_records_def m)
next
  case (tm_commit evs tm i tm')
  then show ?case
    by (auto simp: tm_records_def tm_commit_Inr tm_set_find tm_set_wf)
      (metis tx_record_end(3), metis tx_record_end(1))
next
  case (tm_rollback evs tm i tm')
  then show ?case
    by (auto simp: tm_records_def tm_rollback_Inr tm_set_find tm_set_wf)
      (metis tx_record_end(4), metis tx_record_end(2))
qed

text \<open>Ids are fresh as long as the 64-bit counter has not wrapped.\<close>

definition begins :: "tm_event list \<Rightarrow> transaction_id list" where
  "begins evs = List.map_filter (\<lambda>e. case e of EvBegin i \<Rightarrow> Some i | _ \<Rightarrow> None) evs"

lemma begins_simps [simp]:
  "begins [] = []" "begins (evs @ [EvBegin i]) = begins evs @ [i]"
  "begins (evs @ [EvCommit i]) = begins evs" "begins (evs @ [EvRollback i]) = begins evs"
  by (simp_all add: begins_def List.map_filter_def)

lemma tm_reach_ids:
  "tm_reach evs tm \<Longrightarrow>
   begins evs = map of_nat [1..<Suc (length (begins evs))] \<and>
   tm_nextId tm = of_nat (Suc (length (begins evs)))"
proof (induction rule: tm_reach.induct)
  case tm_init
  then show ?case by (simp add: TransactionManager_new_def)
next
  case (tm_begin evs tm t tm')
  then show ?case by (auto simp: TransactionManager_begin_def Let_def)
next
  case (tm_commit evs tm i tm')
  then show ?case by (auto simp: tm_commit_Inr TransactionManager_set_def)
next
  case (tm_rollback evs tm i tm')
  then show ?case by (auto simp: tm_rollback_Inr TransactionManager_set_def)
qed

lemma tm_reach_distinct:
  assumes "tm_reach evs tm" and "length (begins evs) < 2 ^ 64"
  shows "distinct (begins evs)"
proof -
  have "inj_on (of_nat :: nat \<Rightarrow> 64 word) (set [1..<Suc (length (begins evs))])"
  proof (rule inj_onI)
    fix x y :: nat
    assume "x \<in> set [1..<Suc (length (begins evs))]" "y \<in> set [1..<Suc (length (begins evs))]"
    then have "x < 2 ^ LENGTH(64)" "y < 2 ^ LENGTH(64)" using assms(2) by auto
    then have "unat (of_nat x :: 64 word) = x" "unat (of_nat y :: 64 word) = y"
      by (simp_all add: unsigned_of_nat take_bit_nat_eq_self)
    then show "(of_nat x :: 64 word) = of_nat y \<Longrightarrow> x = y" by metis
  qed
  then have "distinct (map (of_nat :: nat \<Rightarrow> 64 word) [1..<Suc (length (begins evs))])"
    by (simp only: distinct_map distinct_upt simp_thms)
  then show ?thesis using tm_reach_ids[OF assms(1)] by metis
qed

section \<open>MVCCRowStore\<close>

record row_version =
  rv_createdBy :: transaction_id
  rv_deletedBy :: "transaction_id option"
  rv_row :: row

record mvcc_row_store =
  mv_versions :: "(row_id \<times> row_version list) list"

definition MVCCRowStore_new :: mvcc_row_store where
  "MVCCRowStore_new = \<lparr>mv_versions = []\<rparr>"

definition MVCCRowStore_write ::
  "row_id \<Rightarrow> row \<Rightarrow> transaction_id \<Rightarrow> mvcc_row_store \<Rightarrow> mvcc_row_store" where
  "MVCCRowStore_write rowId r transactionId st =
     st\<lparr>mv_versions := omap_alter (<) rowId
       (\<lambda>old. (case old of None \<Rightarrow> [] | Some vs \<Rightarrow> vs) @
          [\<lparr>rv_createdBy = transactionId, rv_deletedBy = None, rv_row = r\<rparr>]) (mv_versions st)\<rparr>"

definition mark_deleted :: "transaction_id \<Rightarrow> row_version list \<Rightarrow> row_version list" where
  "mark_deleted transactionId vs =
     (if vs = [] then vs else butlast vs @ [(last vs)\<lparr>rv_deletedBy := Some transactionId\<rparr>])"

definition MVCCRowStore_erase :: "row_id \<Rightarrow> transaction_id \<Rightarrow> mvcc_row_store \<Rightarrow> mvcc_row_store" where
  "MVCCRowStore_erase rowId transactionId st =
     (case omap_find (<) rowId (mv_versions st) of
        None \<Rightarrow> st
      | Some vs \<Rightarrow> st\<lparr>mv_versions :=
          omap_alter (<) rowId (\<lambda>_. mark_deleted transactionId vs) (mv_versions st)\<rparr>)"

definition MVCCRowStore_clear :: "mvcc_row_store \<Rightarrow> mvcc_row_store" where
  "MVCCRowStore_clear st = st\<lparr>mv_versions := []\<rparr>"

definition version_visible :: "transaction_id \<Rightarrow> row_version \<Rightarrow> bool" where
  "version_visible readerId v \<longleftrightarrow> rv_createdBy v \<le> readerId \<and>
     (case rv_deletedBy v of None \<Rightarrow> True | Some d \<Rightarrow> readerId < d)"

definition newest_visible :: "transaction_id \<Rightarrow> row_version list \<Rightarrow> row option" where
  "newest_visible readerId vs = map_option rv_row (List.find (version_visible readerId) (rev vs))"

definition MVCCRowStore_read :: "row_id \<Rightarrow> transaction_id \<Rightarrow> mvcc_row_store \<Rightarrow> row option" where
  "MVCCRowStore_read rowId readerId st =
     (case omap_find (<) rowId (mv_versions st) of
        None \<Rightarrow> None
      | Some vs \<Rightarrow> newest_visible readerId vs)"

definition MVCCRowStore_visibleRowsById ::
  "row_id list \<Rightarrow> transaction_id \<Rightarrow> mvcc_row_store \<Rightarrow> row list" where
  "MVCCRowStore_visibleRowsById rowIds readerId st =
     List.map_filter (\<lambda>i. MVCCRowStore_read i readerId st) rowIds"

definition MVCCRowStore_visibleRows :: "transaction_id \<Rightarrow> mvcc_row_store \<Rightarrow> row list" where
  "MVCCRowStore_visibleRows readerId st =
     List.map_filter (\<lambda>i. MVCCRowStore_read i readerId st) (map fst (mv_versions st))"

definition MVCCRowStore_versionCount :: "row_id \<Rightarrow> mvcc_row_store \<Rightarrow> nat" where
  "MVCCRowStore_versionCount rowId st =
     (case omap_find (<) rowId (mv_versions st) of None \<Rightarrow> 0 | Some vs \<Rightarrow> length vs)"

definition mvcc_inv :: "mvcc_row_store \<Rightarrow> bool" where
  "mvcc_inv st \<longleftrightarrow> omap_wf (<) (\<lambda>_. True) (mv_versions st)"

lemma mvcc_inv_new [simp]: "mvcc_inv MVCCRowStore_new" and
  mvcc_inv_clear [simp]: "mvcc_inv (MVCCRowStore_clear st)"
  by (simp_all add: mvcc_inv_def MVCCRowStore_new_def MVCCRowStore_clear_def)

lemma mvcc_inv_write: "mvcc_inv st \<Longrightarrow> mvcc_inv (MVCCRowStore_write i r t st)"
  by (simp add: mvcc_inv_def MVCCRowStore_write_def nat_order.omap_wf_alter)

lemma mvcc_inv_erase: "mvcc_inv st \<Longrightarrow> mvcc_inv (MVCCRowStore_erase i t st)"
  by (simp add: mvcc_inv_def MVCCRowStore_erase_def nat_order.omap_wf_alter split: option.split)

lemma mv_find_alter:
  "mvcc_inv st \<Longrightarrow> omap_find (<) j (omap_alter (<) i f (mv_versions st)) =
   (if i = j then Some (f (omap_find (<) i (mv_versions st))) else omap_find (<) j (mv_versions st))"
  unfolding mvcc_inv_def using nat_order.omap_find_alter[OF _ TrueI TrueI] by (metis nat_neq_iff)

lemma newest_visible_snoc:
  "newest_visible t (vs @ [v]) = (if version_visible t v then Some (rv_row v) else newest_visible t vs)"
  by (simp add: newest_visible_def)

text \<open>A write is seen by every reader from its transaction on, and by none before it.\<close>

lemma mvcc_read_write:
  assumes "mvcc_inv st"
  shows "MVCCRowStore_read j readerId (MVCCRowStore_write i r t st) =
    (if i = j \<and> t \<le> readerId then Some r else MVCCRowStore_read j readerId st)"
  by (auto simp: MVCCRowStore_read_def MVCCRowStore_write_def mv_find_alter[OF assms]
      newest_visible_snoc version_visible_def split: option.split) (simp_all add: newest_visible_def)

text \<open>An erase is not seen by a reader before it, provided the newest version was still live.\<close>

definition live_row :: "row_id \<Rightarrow> mvcc_row_store \<Rightarrow> bool" where
  "live_row i st \<longleftrightarrow> (\<exists>vs v. omap_find (<) i (mv_versions st) = Some (vs @ [v]) \<and> rv_deletedBy v = None)"

lemma mvcc_read_erase:
  assumes "mvcc_inv st" and "live_row i st" and "readerId < t"
  shows "MVCCRowStore_read j readerId (MVCCRowStore_erase i t st) = MVCCRowStore_read j readerId st"
proof -
  obtain vs v where v: "omap_find (<) i (mv_versions st) = Some (vs @ [v])" "rv_deletedBy v = None"
    using assms(2) by (auto simp: live_row_def)
  then show ?thesis
    using assms(3) by (auto simp: MVCCRowStore_read_def MVCCRowStore_erase_def mark_deleted_def
        mv_find_alter[OF assms(1)] newest_visible_snoc version_visible_def)
qed

section \<open>Version chains of rows that are never deleted\<close>

text \<open>The reader with the largest id, which is what a read inside a transaction uses, sees every row.\<close>

definition mvcc_current :: "row list \<Rightarrow> mvcc_row_store \<Rightarrow> bool" where
  "mvcc_current rows st \<longleftrightarrow> mvcc_inv st \<and> map fst (mv_versions st) = [0..<length rows] \<and>
     (\<forall>i < length rows. MVCCRowStore_read i (- 1) st = Some (rows ! i))"

lemma mvcc_current_new [simp]: "mvcc_current [] MVCCRowStore_new"
  by (simp add: mvcc_current_def MVCCRowStore_new_def mvcc_inv_def)

lemma omap_alter_present:
  "omap_wf (<) (\<lambda>_. True) m \<Longrightarrow> k \<in> fst ` set m \<Longrightarrow> map fst (omap_alter (<) k f m) = map fst m" for k :: nat
proof (induction m)
  case (Cons e m)
  obtain a v where e: "e = (a, v)" by (cases e)
  have "\<not> k < a" using Cons.prems e by (auto simp: omap_wf_Cons)
  with Cons e show ?case by (auto simp: omap_wf_Cons)
qed simp

lemma mvcc_current_append:
  assumes "mvcc_current rows st"
  shows "mvcc_current (rows @ [r]) (MVCCRowStore_write (length rows) r t st)"
proof -
  have inv: "mvcc_inv st" and keys: "map fst (mv_versions st) = [0..<length rows]"
    using assms by (simp_all add: mvcc_current_def)
  have "fst ` set (mv_versions st) = {0..<length rows}"
    using arg_cong[OF keys, of set] by simp
  then have "map fst (mv_versions (MVCCRowStore_write (length rows) r t st)) = [0..<length rows] @ [length rows]"
    by (simp add: MVCCRowStore_write_def omap_alter_end keys)
  with assms show ?thesis
    by (auto simp: mvcc_current_def mvcc_inv_write mvcc_read_write nth_append less_Suc_eq)
qed

lemma mvcc_current_update:
  assumes "mvcc_current rows st" and "i < length rows"
  shows "mvcc_current (rows[i := r]) (MVCCRowStore_write i r t st)"
proof -
  have inv: "mvcc_inv st" and keys: "map fst (mv_versions st) = [0..<length rows]"
    using assms by (simp_all add: mvcc_current_def)
  have "i \<in> fst ` set (mv_versions st)" using arg_cong[OF keys, of set] assms(2) by simp
  then have "map fst (mv_versions (MVCCRowStore_write i r t st)) = [0..<length rows]"
    using inv keys by (simp add: MVCCRowStore_write_def omap_alter_present mvcc_inv_def)
  with assms inv show ?thesis
    by (auto simp: mvcc_current_def mvcc_inv_write mvcc_read_write nth_list_update)
qed

lemma mvcc_current_visible:
  assumes "mvcc_current rows st"
  shows "MVCCRowStore_visibleRows (- 1) st = rows"
    and "MVCCRowStore_visibleRowsById ids (- 1) st =
      List.map_filter (\<lambda>i. if i < length rows then Some (rows ! i) else None) ids"
proof -
  have inv: "mvcc_inv st" and keys: "map fst (mv_versions st) = [0..<length rows]"
    and read: "\<And>i. i < length rows \<Longrightarrow> MVCCRowStore_read i (- 1) st = Some (rows ! i)"
    using assms by (simp_all add: mvcc_current_def)
  have "MVCCRowStore_visibleRows (- 1) st = map ((!) rows) [0..<length rows]"
    unfolding MVCCRowStore_visibleRows_def keys by (rule map_filter_Some) (simp add: read)
  then show "MVCCRowStore_visibleRows (- 1) st = rows" by (simp add: map_nth)
  have "MVCCRowStore_read i (- 1) st = None" if "\<not> i < length rows" for i
  proof -
    have "i \<notin> set (map fst (mv_versions st))" using that by (simp add: keys)
    then have "map_of (mv_versions st) i = None" by (simp add: map_of_eq_None_iff)
    then show ?thesis
      using inv nat_order.omap_find_map_of[of "mv_versions st" i]
      by (simp add: MVCCRowStore_read_def mvcc_inv_def)
  qed
  then have "(\<lambda>i. MVCCRowStore_read i (- 1) st) = (\<lambda>i. if i < length rows then Some (rows ! i) else None)"
    using read by auto
  then show "MVCCRowStore_visibleRowsById ids (- 1) st =
      List.map_filter (\<lambda>i. if i < length rows then Some (rows ! i) else None) ids"
    by (simp add: MVCCRowStore_visibleRowsById_def)
qed

end
