(* ===== verification/Table.thy ===== *)
theory Table
  imports RowStore HashIndex BTreeIndex Transactions
begin

text \<open>
  \<open>storage/table.hpp\<close> and \<open>storage/table.cpp\<close>. A table owns a page store, and for every index
  a hash index and a B+ tree over the same column, and a version store. Its invariant
  \<open>Table_inv\<close> ties them together: every stored row fits the schema, and every index lists
  exactly the rows of the page store. Every operation that changes the table keeps it
  (\<open>Table_insert_spec\<close>, \<open>Table_erase_spec\<close>, \<open>Table_update_spec\<close>, \<open>Table_createIndex_spec\<close>,
  \<open>Table_replaceRows_spec\<close>), and under it the lookups return what a scan would
  (\<open>Table_indexedLookup_rows\<close>, \<open>Table_orderedLookup_rows\<close>). The lock \<open>mutex_\<close> is held for the
  whole of each operation on the table's own state, so each is one atomic step here.
\<close>

section \<open>State\<close>

record vtable =
  tb_name :: string
  tb_schema :: "column list"
  tb_rowStore :: page_row_store
  tb_indexColumns :: "(string \<times> nat) list"
  tb_indexes :: "(string \<times> hash_index) list"
  tb_orderedIndexes :: "(string \<times> btree_index) list"
  tb_versions :: mvcc_row_store
  tb_nextVersionTransactionId :: transaction_id

definition Table_new :: "string \<Rightarrow> column list \<Rightarrow> vtable outcome" where
  "Table_new name schema =
     ebind makePageRowStore (\<lambda>rs.
       if name = [] then Inl (InvalidArgument ''table name cannot be empty'')
       else if schema = [] then Inl (InvalidArgument ''table schema cannot be empty'')
       else Inr \<lparr>tb_name = name, tb_schema = schema, tb_rowStore = rs, tb_indexColumns = [],
              tb_indexes = [], tb_orderedIndexes = [], tb_versions = MVCCRowStore_new,
              tb_nextVersionTransactionId = 1\<rparr>)"

section \<open>Reading\<close>

text \<open>\<open>find_if\<close> and \<open>distance\<close>: the place of the first column of that name.\<close>

definition find_column :: "string \<Rightarrow> column list \<Rightarrow> nat option" where
  "find_column column schema =
     (let i = length (takeWhile (\<lambda>c. col_name c \<noteq> column) schema)
      in if i = length schema then None else Some i)"

definition Table_columnIndex :: "string \<Rightarrow> vtable \<Rightarrow> nat option" where
  "Table_columnIndex column t = find_column column (tb_schema t)"

definition Table_rowsSnapshot :: "vtable \<Rightarrow> row list" where
  "Table_rowsSnapshot t = PageRowStore_snapshot (tb_rowStore t)"

definition Table_rowsSnapshotAt :: "transaction_id \<Rightarrow> vtable \<Rightarrow> row list" where
  "Table_rowsSnapshotAt readerId t = MVCCRowStore_visibleRows readerId (tb_versions t)"

definition Table_rowsById :: "row_id list \<Rightarrow> vtable \<Rightarrow> row list" where
  "Table_rowsById rowIds t = PageRowStore_rowsById rowIds (tb_rowStore t)"

definition Table_rowsByIdAt :: "row_id list \<Rightarrow> transaction_id \<Rightarrow> vtable \<Rightarrow> row list" where
  "Table_rowsByIdAt rowIds readerId t = MVCCRowStore_visibleRowsById rowIds readerId (tb_versions t)"

definition Table_rowCount :: "vtable \<Rightarrow> nat" where
  "Table_rowCount t = PageRowStore_size (tb_rowStore t)"

text \<open>\<open>std::map::at\<close>.\<close>

definition omap_at :: "string \<Rightarrow> (string \<times> 'v) list \<Rightarrow> 'v outcome" where
  "omap_at k m = (case omap_find str_less k m of None \<Rightarrow> Inl (OutOfRange ''map::at'') | Some v \<Rightarrow> Inr v)"

text \<open>The first index, in the order of the index names, whose column has the given name.\<close>

definition Table_indexOn :: "string \<Rightarrow> vtable \<Rightarrow> string option" where
  "Table_indexOn column t =
     map_option fst (List.find (\<lambda>(_, c). col_name (tb_schema t ! c) = column) (tb_indexColumns t))"

definition Table_indexedLookup :: "string \<Rightarrow> sql_value \<Rightarrow> vtable \<Rightarrow> row_id list option outcome" where
  "Table_indexedLookup column v t =
     (case Table_indexOn column t of
        None \<Rightarrow> Inr None
      | Some indexName \<Rightarrow>
          ebind (omap_at indexName (tb_indexes t)) (\<lambda>ix. Inr (Some (HashIndex_find v ix))))"

definition Table_findIndexed :: "string \<Rightarrow> sql_value \<Rightarrow> vtable \<Rightarrow> row_id list outcome" where
  "Table_findIndexed column v t =
     ebind (Table_indexedLookup column v t)
       (\<lambda>result. Inr (case result of None \<Rightarrow> [] | Some ids \<Rightarrow> ids))"

definition Table_orderedLookup ::
  "string \<Rightarrow> comparison_operator \<Rightarrow> sql_value \<Rightarrow> vtable \<Rightarrow> row_id list option outcome" where
  "Table_orderedLookup column op v t =
     (case Table_indexOn column t of
        None \<Rightarrow> Inr None
      | Some indexName \<Rightarrow>
          ebind (omap_at indexName (tb_orderedIndexes t)) (\<lambda>ix. Inr (Some
            (case op of
               Equal \<Rightarrow> BTreeIndex_find v ix
             | Greater \<Rightarrow> BTreeIndex_greaterThan v ix
             | Less \<Rightarrow> BTreeIndex_lessThan v ix))))"

definition Table_hasIndex :: "string \<Rightarrow> vtable \<Rightarrow> bool" where
  "Table_hasIndex column t \<longleftrightarrow>
     (\<exists>(_, c) \<in> set (tb_indexColumns t). col_name (tb_schema t ! c) = column)"

definition Table_hasOrderedIndex :: "string \<Rightarrow> vtable \<Rightarrow> bool" where
  "Table_hasOrderedIndex column t = Table_hasIndex column t"

definition Table_listIndexes :: "vtable \<Rightarrow> string list" where
  "Table_listIndexes t = map fst (tb_indexes t)"

definition Table_indexDefinitions :: "vtable \<Rightarrow> (string \<times> string) list" where
  "Table_indexDefinitions t =
     map (\<lambda>(name, c). (name, col_name (tb_schema t ! c))) (tb_indexColumns t)"

definition Table_versionCount :: "row_id \<Rightarrow> vtable \<Rightarrow> nat" where
  "Table_versionCount rowId t = MVCCRowStore_versionCount rowId (tb_versions t)"

section \<open>Writing\<close>

text \<open>The loop of \<open>validateRow\<close>.\<close>

definition validate_cells :: "row \<Rightarrow> column list \<Rightarrow> unit outcome" where
  "validate_cells r schema =
     efold (\<lambda>(v, c) _.
       if Value_isNull v
       then (if \<not> col_nullable c
             then Inl (InvalidArgument ''null value assigned to non-nullable column'') else Inr ())
       else ebind (Value_type v) (\<lambda>ty.
         if ty \<noteq> col_type c then Inl (InvalidArgument ''row value does not match column type'')
         else Inr ())) (zip r schema) ()"

definition Table_validateRow :: "row \<Rightarrow> vtable \<Rightarrow> unit outcome" where
  "Table_validateRow r t =
     (if length r \<noteq> length (tb_schema t)
      then Inl (InvalidArgument ''row width does not match table schema'')
      else validate_cells r (tb_schema t))"

text \<open>The loop over one of the two maps of indexes in \<open>addRowToIndexes\<close>.\<close>

definition add_row_to ::
  "(sql_value \<Rightarrow> row_id \<Rightarrow> 'ix \<Rightarrow> 'ix) \<Rightarrow> (string \<times> nat) list \<Rightarrow> row \<Rightarrow> row_id \<Rightarrow>
   (string \<times> 'ix) list \<Rightarrow> (string \<times> 'ix) list outcome" where
  "add_row_to ins cols r rowId ixs =
     emap (\<lambda>(name, ix). ebind (omap_at name cols) (\<lambda>c. Inr (name, ins (r ! c) rowId ix))) ixs"

definition Table_addRowToIndexes :: "row_id \<Rightarrow> vtable \<Rightarrow> vtable outcome" where
  "Table_addRowToIndexes rowId t =
     (case PageRowStore_get rowId (tb_rowStore t) of
        None \<Rightarrow> Inr t
      | Some r \<Rightarrow>
          ebind (add_row_to HashIndex_insert (tb_indexColumns t) r rowId (tb_indexes t)) (\<lambda>ixs.
          ebind (add_row_to BTreeIndex_insert (tb_indexColumns t) r rowId (tb_orderedIndexes t)) (\<lambda>oxs.
            Inr (t\<lparr>tb_indexes := ixs, tb_orderedIndexes := oxs\<rparr>))))"

definition Table_clearIndexes :: "vtable \<Rightarrow> vtable" where
  "Table_clearIndexes t =
     t\<lparr>tb_indexes := map (\<lambda>(name, ix). (name, HashIndex_clear ix)) (tb_indexes t),
       tb_orderedIndexes := map (\<lambda>(name, ix). (name, BTreeIndex_clear ix)) (tb_orderedIndexes t)\<rparr>"

definition Table_rebuildIndexes :: "vtable \<Rightarrow> vtable outcome" where
  "Table_rebuildIndexes t =
     efold Table_addRowToIndexes [0..<PageRowStore_size (tb_rowStore t)] (Table_clearIndexes t)"

text \<open>
  \<open>versions_.write(rowId, *rowStore_->get(rowId), nextVersionTransactionId_++)\<close>. The row is
  there whenever this is reached (\<open>Table_inv\<close>), so the dereference is of a value.
\<close>

definition Table_writeVersion :: "row_id \<Rightarrow> vtable \<Rightarrow> vtable" where
  "Table_writeVersion rowId t =
     t\<lparr>tb_versions := MVCCRowStore_write rowId (the (PageRowStore_get rowId (tb_rowStore t)))
         (tb_nextVersionTransactionId t) (tb_versions t),
       tb_nextVersionTransactionId := tb_nextVersionTransactionId t + 1\<rparr>"

definition Table_insert :: "row \<Rightarrow> vtable \<Rightarrow> (row_id \<times> vtable) outcome" where
  "Table_insert r t =
     ebind (Table_validateRow r t) (\<lambda>_.
       (let (rowId, rs) = PageRowStore_append r (tb_rowStore t)
        in ebind (Table_addRowToIndexes rowId (Table_writeVersion rowId (t\<lparr>tb_rowStore := rs\<rparr>)))
             (\<lambda>t'. Inr (rowId, t'))))"

definition Table_erase :: "row_id \<Rightarrow> vtable \<Rightarrow> (bool \<times> vtable) outcome" where
  "Table_erase rowId t =
     (if PageRowStore_size (tb_rowStore t) \<le> rowId then Inr (False, t)
      else (let t1 = t\<lparr>tb_versions := MVCCRowStore_erase rowId (tb_nextVersionTransactionId t) (tb_versions t),
                       tb_nextVersionTransactionId := tb_nextVersionTransactionId t + 1\<rparr>;
                (erased, rs) = PageRowStore_erase rowId (tb_rowStore t1)
            in if \<not> erased then Inr (False, t1\<lparr>tb_rowStore := rs\<rparr>)
               else ebind (Table_rebuildIndexes (t1\<lparr>tb_rowStore := rs\<rparr>)) (\<lambda>t2. Inr (True, t2))))"

definition Table_checkValue :: "nat \<Rightarrow> sql_value \<Rightarrow> vtable \<Rightarrow> unit outcome" where
  "Table_checkValue index v t =
     (if Value_isNull v
      then (if \<not> col_nullable (tb_schema t ! index)
            then Inl (InvalidArgument ''null value assigned to non-nullable column'') else Inr ())
      else ebind (Value_type v) (\<lambda>ty.
        if ty \<noteq> col_type (tb_schema t ! index)
        then Inl (InvalidArgument ''updated value does not match column type'') else Inr ()))"

definition Table_update :: "row_id \<Rightarrow> nat \<Rightarrow> sql_value \<Rightarrow> vtable \<Rightarrow> (bool \<times> vtable) outcome" where
  "Table_update rowId index v t =
     (if PageRowStore_size (tb_rowStore t) \<le> rowId \<or> length (tb_schema t) \<le> index then Inr (False, t)
      else ebind (Table_checkValue index v t) (\<lambda>_.
        (let updated = (the (PageRowStore_get rowId (tb_rowStore t)))[index := v]
         in ebind (PageRowStore_update rowId updated (tb_rowStore t)) (\<lambda>(updatedRow, rs).
              if \<not> updatedRow then Inr (False, t\<lparr>tb_rowStore := rs\<rparr>)
              else ebind (Table_rebuildIndexes (Table_writeVersion rowId (t\<lparr>tb_rowStore := rs\<rparr>)))
                     (\<lambda>t'. Inr (True, t'))))))"

text \<open>The default constructor of \<open>BTreeIndex\<close>: 64 keys per leaf.\<close>

definition BTreeIndex_default :: btree_index where
  "BTreeIndex_default = projr (BTreeIndex_new 64)"

definition fill_index ::
  "(sql_value \<Rightarrow> row_id \<Rightarrow> 'ix \<Rightarrow> 'ix) \<Rightarrow> nat \<Rightarrow> vtable \<Rightarrow> 'ix \<Rightarrow> 'ix" where
  "fill_index ins c t =
     fold (\<lambda>i. ins (the (PageRowStore_get i (tb_rowStore t)) ! c) i)
       [0..<PageRowStore_size (tb_rowStore t)]"

text \<open>
  \<open>try_emplace\<close> keeps an index that is already filed under the name; the loop then fills the
  index that is there.
\<close>

definition Table_createIndex :: "string \<Rightarrow> string \<Rightarrow> vtable \<Rightarrow> bool \<times> vtable" where
  "Table_createIndex name column t =
     (case Table_columnIndex column t of
        None \<Rightarrow> (False, t)
      | Some c \<Rightarrow>
          if omap_find str_less name (tb_indexes t) \<noteq> None then (False, t)
          else (True, t\<lparr>
            tb_indexColumns := omap_emplace str_less name c (tb_indexColumns t),
            tb_indexes := omap_alter str_less name (\<lambda>old. fill_index HashIndex_insert c t
              (case old of None \<Rightarrow> HashIndex_new | Some ix \<Rightarrow> ix)) (tb_indexes t),
            tb_orderedIndexes := omap_alter str_less name (\<lambda>old. fill_index BTreeIndex_insert c t
              (case old of None \<Rightarrow> BTreeIndex_default | Some ix \<Rightarrow> ix)) (tb_orderedIndexes t)\<rparr>))"

definition Table_replaceRows :: "row list \<Rightarrow> vtable \<Rightarrow> vtable outcome" where
  "Table_replaceRows rows t =
     ebind (efold (\<lambda>r _. Table_validateRow r t) rows ()) (\<lambda>_.
       (let t1 = t\<lparr>tb_rowStore := PageRowStore_replaceRows rows (tb_rowStore t),
                   tb_versions := MVCCRowStore_clear (tb_versions t),
                   tb_nextVersionTransactionId := 1\<rparr>
        in Table_rebuildIndexes (fold Table_writeVersion [0..<PageRowStore_size (tb_rowStore t1)] t1)))"

section \<open>What a valid row is\<close>

definition cell_fits :: "column \<Rightarrow> sql_value \<Rightarrow> bool" where
  "cell_fits c v \<longleftrightarrow> (if Value_isNull v then col_nullable c else Value_type v = Inr (col_type c))"

definition row_fits :: "column list \<Rightarrow> row \<Rightarrow> bool" where
  "row_fits schema r \<longleftrightarrow> list_all2 cell_fits schema r"

definition row_ok :: "column list \<Rightarrow> row \<Rightarrow> bool" where
  "row_ok schema r \<longleftrightarrow> row_fits schema r \<and> (\<forall>v \<in> set r. value_ok v)"

lemma row_ok_length: "row_ok schema r \<Longrightarrow> length r = length schema"
  by (auto simp: row_ok_def row_fits_def dest: list_all2_lengthD)

lemma row_ok_nth: "row_ok schema r \<Longrightarrow> c < length schema \<Longrightarrow> value_ok (r ! c)"
  using row_ok_length by (auto simp: row_ok_def)

lemma Value_type_total: "\<not> Value_isNull v \<Longrightarrow> \<exists>ty. Value_type v = Inr ty"
  by (cases v) auto

lemma validate_cells_Cons:
  "validate_cells [] [] = Inr ()"
  "cell_fits c v \<Longrightarrow> validate_cells (v # vs) (c # cs) = validate_cells vs cs"
  "\<not> cell_fits c v \<Longrightarrow> \<exists>m. validate_cells (v # vs) (c # cs) = Inl (InvalidArgument m)"
  using Value_type_total[of v]
  by (auto simp: validate_cells_def cell_fits_def)

lemma validate_cells_outcome:
  "length schema = length r \<Longrightarrow>
   if list_all2 cell_fits schema r then validate_cells r schema = Inr ()
   else \<exists>m. validate_cells r schema = Inl (InvalidArgument m)"
proof (induction schema r rule: list_induct2)
  case Nil
  then show ?case by (simp add: validate_cells_Cons)
next
  case (Cons c cs v vs)
  then show ?case by (cases "cell_fits c v") (auto simp: validate_cells_Cons)
qed

lemma Table_validateRow_Inr: "Table_validateRow r t = Inr u \<longleftrightarrow> row_fits (tb_schema t) r"
proof (cases "length (tb_schema t) = length r")
  case True
  then show ?thesis
    using validate_cells_outcome[OF True]
    by (auto simp: Table_validateRow_def row_fits_def split: if_splits)
next
  case False
  then show ?thesis by (auto simp: Table_validateRow_def row_fits_def dest: list_all2_lengthD)
qed

lemma Table_validateRow_Inl:
  "\<not> row_fits (tb_schema t) r \<Longrightarrow> \<exists>m. Table_validateRow r t = Inl (InvalidArgument m)"
  using validate_cells_outcome[of "tb_schema t" r]
  by (cases "length (tb_schema t) = length r") (auto simp: Table_validateRow_def row_fits_def)

section \<open>Finding a column\<close>

lemma find_column_Some:
  "find_column column schema = Some c \<Longrightarrow> c < length schema \<and> col_name (schema ! c) = column"
proof -
  let ?P = "\<lambda>c. col_name c \<noteq> column"
  assume "find_column column schema = Some c"
  then have c: "c = length (takeWhile ?P schema)" "c \<noteq> length schema"
    by (auto simp: find_column_def Let_def split: if_splits)
  then have "c < length schema" using length_takeWhile_le[of ?P schema] by simp
  with nth_length_takeWhile[of ?P schema] c show ?thesis by simp
qed

lemma find_column_None: "find_column column schema = None \<longleftrightarrow> column \<notin> col_name ` set schema"
  by (induction schema) (auto simp: find_column_def Let_def split: if_splits)

lemma Table_columnIndex_Some:
  "Table_columnIndex column t = Some c \<Longrightarrow>
   c < length (tb_schema t) \<and> col_name (tb_schema t ! c) = column"
  by (simp add: Table_columnIndex_def find_column_Some)

lemma Table_columnIndex_None:
  "Table_columnIndex column t = None \<longleftrightarrow> column \<notin> col_name ` set (tb_schema t)"
  by (simp add: Table_columnIndex_def find_column_None)

section \<open>The invariant\<close>

definition indexes_list ::
  "(nat \<Rightarrow> 'ix \<Rightarrow> bool) \<Rightarrow> (string \<times> nat) list \<Rightarrow> (string \<times> 'ix) list \<Rightarrow> bool" where
  "indexes_list law cols ixs \<longleftrightarrow> list_all2 (\<lambda>(n, c) (m, ix). n = m \<and> law c ix) cols ixs"

definition Table_indexed :: "row list \<Rightarrow> vtable \<Rightarrow> bool" where
  "Table_indexed rows t \<longleftrightarrow>
     omap_wf str_less (\<lambda>_. True) (tb_indexColumns t) \<and>
     (\<forall>(n, c) \<in> set (tb_indexColumns t).
        find_column (col_name (tb_schema t ! c)) (tb_schema t) = Some c) \<and>
     indexes_list (\<lambda>c. hash.lists_rows c rows) (tb_indexColumns t) (tb_indexes t) \<and>
     indexes_list (\<lambda>c ix. btree.lists_rows c rows ix \<and> btree.orders_rows c rows ix)
       (tb_indexColumns t) (tb_orderedIndexes t)"

definition Table_inv :: "vtable \<Rightarrow> bool" where
  "Table_inv t \<longleftrightarrow> tb_name t \<noteq> [] \<and> tb_schema t \<noteq> [] \<and>
     PageRowStore_inv (tb_rowStore t) \<and> mvcc_inv (tb_versions t) \<and>
     (\<forall>r \<in> set (Table_rowsSnapshot t). row_ok (tb_schema t) r) \<and>
     Table_indexed (Table_rowsSnapshot t) t"

text \<open>Two tables that differ at most in the contents of their indexes.\<close>

definition same_but_indexes :: "vtable \<Rightarrow> vtable \<Rightarrow> bool" where
  "same_but_indexes t t' \<longleftrightarrow>
     tb_name t' = tb_name t \<and> tb_schema t' = tb_schema t \<and> tb_rowStore t' = tb_rowStore t \<and>
     tb_indexColumns t' = tb_indexColumns t \<and> tb_versions t' = tb_versions t \<and>
     tb_nextVersionTransactionId t' = tb_nextVersionTransactionId t"

lemma same_but_indexes_refl [simp]: "same_but_indexes t t"
  by (simp add: same_but_indexes_def)

lemma same_but_indexes_trans:
  "same_but_indexes t u \<Longrightarrow> same_but_indexes u v \<Longrightarrow> same_but_indexes t v"
  by (simp add: same_but_indexes_def)

lemma same_but_indexesD:
  assumes "same_but_indexes t t'"
  shows "tb_name t' = tb_name t" "tb_schema t' = tb_schema t" "tb_rowStore t' = tb_rowStore t"
    "tb_indexColumns t' = tb_indexColumns t" "tb_versions t' = tb_versions t"
    "tb_nextVersionTransactionId t' = tb_nextVersionTransactionId t"
  using assms by (simp_all add: same_but_indexes_def)

section \<open>Indexes follow the rows\<close>

lemma omap_at_mem:
  "omap_wf str_less (\<lambda>_. True) m \<Longrightarrow> (k, v) \<in> set m \<Longrightarrow> omap_at k m = Inr v"
  using str_order.omap_find_map_of[of m k] str_order.omap_wf_distinct[of m]
  by (simp add: omap_at_def map_of_is_SomeI)

lemma add_row_to_law:
  assumes all: "omap_wf str_less (\<lambda>_. True) all" "set cols \<subseteq> set all"
    and ixs: "indexes_list law cols ixs"
    and step: "\<And>n c ix. (n, c) \<in> set cols \<Longrightarrow> law c ix \<Longrightarrow> law' c (ins (r ! c) i ix)"
  shows "\<exists>ixs'. add_row_to ins all r i ixs = Inr ixs' \<and> indexes_list law' cols ixs'"
  using ixs[unfolded indexes_list_def] all(2) step
proof (induction rule: list_all2_induct)
  case Nil
  then show ?case by (simp add: add_row_to_def indexes_list_def)
next
  case (Cons nc cols mi ixs)
  obtain n c where nc: "nc = (n, c)" by (cases nc)
  obtain ix where mi: "mi = (n, ix)" "law c ix" using Cons(1) nc by (cases mi) auto
  obtain ixs' where ixs': "add_row_to ins all r i ixs = Inr ixs'" "indexes_list law' cols ixs'"
    using Cons.IH Cons.prems by (metis list.set_intros(2) subset_code(1))
  have "omap_at n all = Inr c" using omap_at_mem[OF all(1)] Cons.prems(1) nc by simp
  moreover have "law' c (ins (r ! c) i ix)" using Cons.prems(2)[of n c ix] nc mi(2) by simp
  ultimately show ?case
    using ixs' by (simp add: add_row_to_def indexes_list_def nc mi(1))
qed

lemma indexes_list_map:
  assumes "indexes_list law cols ixs" and "\<And>n c ix. (n, c) \<in> set cols \<Longrightarrow> law c ix \<Longrightarrow> law' c (f ix)"
  shows "indexes_list law' cols (map (\<lambda>(name, ix). (name, f ix)) ixs)"
  using assms(1)[unfolded indexes_list_def] assms(2)
  by (induction rule: list_all2_induct) (auto simp: indexes_list_def)

lemma Table_addRow_indexed:
  assumes ixd: "Table_indexed rows t" and "PageRowStore_get (length rows) (tb_rowStore t) = Some r"
    and ok: "row_ok (tb_schema t) r"
  shows "\<exists>t'. Table_addRowToIndexes (length rows) t = Inr t' \<and> Table_indexed (rows @ [r]) t' \<and>
    same_but_indexes t t'"
proof -
  let ?cols = "tb_indexColumns t"
  note wf = ixd[unfolded Table_indexed_def]
  have v: "value_ok (r ! c)" if "(n, c) \<in> set ?cols" for n c
    using that wf row_ok_nth[OF ok] find_column_Some by blast
  obtain ixs where ixs: "add_row_to HashIndex_insert ?cols r (length rows) (tb_indexes t) = Inr ixs"
      "indexes_list (\<lambda>c. hash.lists_rows c (rows @ [r])) ?cols ixs"
    using add_row_to_law[of ?cols ?cols "\<lambda>c. hash.lists_rows c rows" "tb_indexes t"
        "\<lambda>c. hash.lists_rows c (rows @ [r])" HashIndex_insert r "length rows"]
      wf v hash.lists_rows_snoc by blast
  obtain oxs where oxs: "add_row_to BTreeIndex_insert ?cols r (length rows) (tb_orderedIndexes t) = Inr oxs"
      "indexes_list (\<lambda>c ix. btree.lists_rows c (rows @ [r]) ix \<and> btree.orders_rows c (rows @ [r]) ix)
        ?cols oxs"
    using add_row_to_law[of ?cols ?cols "\<lambda>c ix. btree.lists_rows c rows ix \<and> btree.orders_rows c rows ix"
        "tb_orderedIndexes t" "\<lambda>c ix. btree.lists_rows c (rows @ [r]) ix \<and> btree.orders_rows c (rows @ [r]) ix"
        BTreeIndex_insert r "length rows"]
      wf v btree.lists_rows_snoc btree.orders_rows_snoc by blast
  show ?thesis
    using assms(2) wf ixs oxs by (simp add: Table_addRowToIndexes_def Table_indexed_def same_but_indexes_def)
qed

lemma Table_clear_indexed:
  assumes "Table_indexed rows t"
  shows "Table_indexed [] (Table_clearIndexes t)" and "same_but_indexes t (Table_clearIndexes t)"
proof -
  note wf = assms[unfolded Table_indexed_def]
  have "indexes_list (\<lambda>c. hash.lists_rows c []) (tb_indexColumns t)
      (map (\<lambda>(name, ix). (name, HashIndex_clear ix)) (tb_indexes t))"
    using wf indexes_list_map[of "\<lambda>c. hash.lists_rows c rows" "tb_indexColumns t" "tb_indexes t"
        "\<lambda>c. hash.lists_rows c []" HashIndex_clear] hash.lists_rows_clear
    by (auto simp: hash.lists_rows_def)
  moreover have "indexes_list (\<lambda>c ix. btree.lists_rows c [] ix \<and> btree.orders_rows c [] ix)
      (tb_indexColumns t) (map (\<lambda>(name, ix). (name, BTreeIndex_clear ix)) (tb_orderedIndexes t))"
    using wf indexes_list_map[of "\<lambda>c ix. btree.lists_rows c rows ix \<and> btree.orders_rows c rows ix"
        "tb_indexColumns t" "tb_orderedIndexes t"
        "\<lambda>c ix. btree.lists_rows c [] ix \<and> btree.orders_rows c [] ix" BTreeIndex_clear]
      btree.lists_rows_clear btree.orders_rows_clear
    by (auto simp: btree.lists_rows_def)
  ultimately show "Table_indexed [] (Table_clearIndexes t)"
    using wf by (simp add: Table_indexed_def Table_clearIndexes_def)
  show "same_but_indexes t (Table_clearIndexes t)"
    by (simp add: same_but_indexes_def Table_clearIndexes_def)
qed

lemma Table_rebuild_indexed:
  assumes rs: "PageRowStore_inv (tb_rowStore t)" and ixd: "Table_indexed old t"
    and ok: "\<forall>r \<in> set (Table_rowsSnapshot t). row_ok (tb_schema t) r"
  shows "\<exists>t'. Table_rebuildIndexes t = Inr t' \<and> Table_indexed (Table_rowsSnapshot t) t' \<and>
    same_but_indexes t t'"
proof -
  let ?rows = "Table_rowsSnapshot t"
  have len: "PageRowStore_size (tb_rowStore t) = length ?rows"
    using page_store.size_abs[OF rs] by (simp add: Table_rowsSnapshot_def)
  have "k \<le> length ?rows \<Longrightarrow> \<exists>t'. efold Table_addRowToIndexes [0..<k] (Table_clearIndexes t) = Inr t' \<and>
      Table_indexed (take k ?rows) t' \<and> same_but_indexes t t'" for k
  proof (induction k)
    case 0
    then show ?case using Table_clear_indexed[OF ixd] by simp
  next
    case (Suc k)
    then obtain u where u: "efold Table_addRowToIndexes [0..<k] (Table_clearIndexes t) = Inr u"
      "Table_indexed (take k ?rows) u" "same_but_indexes t u" by auto
    note eqs = same_but_indexesD[OF u(3)]
    have k: "k < length ?rows" using Suc.prems by simp
    have "PageRowStore_get k (tb_rowStore u) = Some (?rows ! k)"
      using page_store.get_abs[OF rs] k by (simp add: eqs Table_rowsSnapshot_def)
    moreover have "row_ok (tb_schema u) (?rows ! k)" using ok k by (simp add: eqs)
    moreover have "length (take k ?rows) = k" using k by simp
    ultimately obtain u' where "Table_addRowToIndexes k u = Inr u'"
      "Table_indexed (take k ?rows @ [?rows ! k]) u'" "same_but_indexes u u'"
      using Table_addRow_indexed[OF u(2), of "?rows ! k"] by auto
    with u k show ?case
      using same_but_indexes_trans[OF u(3)] by (simp add: efold_append take_Suc_conv_app_nth)
  qed
  from this[of "length ?rows"] show ?thesis by (simp add: Table_rebuildIndexes_def len)
qed

section \<open>What each operation does\<close>

text \<open>The definitions of a table, which no row operation touches.\<close>

definition same_definitions :: "vtable \<Rightarrow> vtable \<Rightarrow> bool" where
  "same_definitions t t' \<longleftrightarrow> tb_name t' = tb_name t \<and> tb_schema t' = tb_schema t \<and>
     tb_indexColumns t' = tb_indexColumns t"

lemma Table_inv_store: "Table_inv t \<Longrightarrow> PageRowStore_inv (tb_rowStore t)"
  by (simp add: Table_inv_def)

lemma Table_inv_row_ok: "Table_inv t \<Longrightarrow> r \<in> set (Table_rowsSnapshot t) \<Longrightarrow> row_ok (tb_schema t) r"
  by (simp add: Table_inv_def)

lemma Table_rowCount_rows: "Table_inv t \<Longrightarrow> Table_rowCount t = length (Table_rowsSnapshot t)"
  using page_store.size_abs[OF Table_inv_store] by (simp add: Table_rowCount_def Table_rowsSnapshot_def)

lemma makePageRowStore_Inr:
  "\<exists>s. makePageRowStore = Inr s \<and> PageRowStore_inv s \<and> PageRowStore_snapshot s = []"
proof -
  obtain s where s: "makePageRowStore = Inr s"
    by (auto simp: makePageRowStore_def PageRowStore_new_def BufferPool_new_def)
  with PageRowStore_new_inv show ?thesis by (auto simp: makePageRowStore_def)
qed

lemma Table_new_spec:
  assumes "name \<noteq> []" and "schema \<noteq> []"
  shows "\<exists>t. Table_new name schema = Inr t \<and> Table_inv t \<and> Table_rowsSnapshot t = [] \<and>
    tb_name t = name \<and> tb_schema t = schema \<and> tb_indexColumns t = [] \<and>
    tb_versions t = MVCCRowStore_new \<and> tb_nextVersionTransactionId t = 1"
proof -
  obtain s where s: "makePageRowStore = Inr s" "PageRowStore_inv s" "PageRowStore_snapshot s = []"
    using makePageRowStore_Inr by blast
  show ?thesis
    unfolding Table_new_def s(1) ebind_simps using assms s(2,3)
    by (simp add: Table_inv_def Table_rowsSnapshot_def Table_indexed_def indexes_list_def)
qed

lemma Table_new_Inr_iff: "(\<exists>t. Table_new name schema = Inr t) \<longleftrightarrow> name \<noteq> [] \<and> schema \<noteq> []"
proof -
  obtain s where s: "makePageRowStore = Inr s" using makePageRowStore_Inr by blast
  show ?thesis unfolding Table_new_def s ebind_simps by simp
qed

lemma Table_new_empty_name:
  "Table_new [] schema = Inl (InvalidArgument ''table name cannot be empty'')"
proof -
  obtain s where s: "makePageRowStore = Inr s" using makePageRowStore_Inr by blast
  show ?thesis unfolding Table_new_def s ebind_simps by simp
qed

text \<open>After the rows are in place, rebuilding the indexes restores the invariant.\<close>

lemma Table_rebuild_spec:
  assumes "PageRowStore_inv (tb_rowStore u)" and "Table_indexed old u" and "mvcc_inv (tb_versions u)"
    and "\<forall>r \<in> set (Table_rowsSnapshot u). row_ok (tb_schema u) r"
    and "tb_name u \<noteq> []" and "tb_schema u \<noteq> []"
  shows "\<exists>t'. Table_rebuildIndexes u = Inr t' \<and> Table_inv t' \<and>
    Table_rowsSnapshot t' = Table_rowsSnapshot u \<and> same_but_indexes u t'"
proof -
  obtain t' where t': "Table_rebuildIndexes u = Inr t'" "Table_indexed (Table_rowsSnapshot u) t'"
    "same_but_indexes u t'"
    using Table_rebuild_indexed[OF assms(1,2,4)] by blast
  note eqs = same_but_indexesD[OF t'(3)]
  have "Table_rowsSnapshot t' = Table_rowsSnapshot u" by (simp add: Table_rowsSnapshot_def eqs)
  with t' assms show ?thesis by (simp add: Table_inv_def eqs)
qed

lemma Table_indexed_rowStore:
  "Table_indexed rows (t\<lparr>tb_rowStore := rs\<rparr>) = Table_indexed rows t"
  "Table_indexed rows (t\<lparr>tb_versions := vs, tb_nextVersionTransactionId := n\<rparr>) = Table_indexed rows t"
  by (simp_all add: Table_indexed_def)

lemma Table_insert_spec:
  assumes inv: "Table_inv t" and ok: "row_ok (tb_schema t) r"
  shows "\<exists>t'. Table_insert r t = Inr (length (Table_rowsSnapshot t), t') \<and> Table_inv t' \<and>
    Table_rowsSnapshot t' = Table_rowsSnapshot t @ [r] \<and> same_definitions t t' \<and>
    tb_versions t' = MVCCRowStore_write (length (Table_rowsSnapshot t)) r
      (tb_nextVersionTransactionId t) (tb_versions t) \<and>
    tb_nextVersionTransactionId t' = tb_nextVersionTransactionId t + 1"
proof -
  let ?rows = "Table_rowsSnapshot t"
  note rs = Table_inv_store[OF inv]
  obtain i s where app: "PageRowStore_append r (tb_rowStore t) = (i, s)" by fastforce
  have i: "i = length ?rows" and s: "PageRowStore_inv s" "PageRowStore_snapshot s = ?rows @ [r]"
    using page_store.append_id[OF rs, of r] page_store.append_inv[OF rs, of r]
      page_store.append_abs[OF rs, of r] app by (simp_all add: Table_rowsSnapshot_def)
  define u where "u = Table_writeVersion i (t\<lparr>tb_rowStore := s\<rparr>)"
  have get: "PageRowStore_get i s = Some r" using page_store.get_abs[OF s(1), of i] by (simp add: s i)
  have u: "tb_rowStore u = s" "tb_schema u = tb_schema t" "Table_indexed ?rows u"
    "tb_versions u = MVCCRowStore_write i r (tb_nextVersionTransactionId t) (tb_versions t)"
    "tb_nextVersionTransactionId u = tb_nextVersionTransactionId t + 1"
    "tb_name u = tb_name t" "tb_indexColumns u = tb_indexColumns t"
    using inv get by (simp_all add: u_def Table_writeVersion_def Table_indexed_def Table_inv_def)
  obtain t' where t': "Table_addRowToIndexes i u = Inr t'" "Table_indexed (?rows @ [r]) t'"
    "same_but_indexes u t'"
    using Table_addRow_indexed[OF u(3), of r] get ok u i by auto
  note eqs = same_but_indexesD[OF t'(3)]
  have "Table_validateRow r t = Inr ()" using ok by (simp add: Table_validateRow_Inr row_ok_def)
  then have "Table_insert r t = Inr (i, t')"
    using app t'(1) by (simp add: Table_insert_def u_def)
  moreover have rows': "Table_rowsSnapshot t' = ?rows @ [r]"
    by (simp add: Table_rowsSnapshot_def eqs u s)
  moreover have "Table_inv t'"
    using inv ok t'(2) s(1)
    by (simp add: Table_inv_def rows' eqs u mvcc_inv_write)
  ultimately show ?thesis by (simp add: eqs u i same_definitions_def)
qed

lemma Table_insert_invalid:
  "\<not> row_fits (tb_schema t) r \<Longrightarrow> \<exists>m. Table_insert r t = Inl (InvalidArgument m)"
  using Table_validateRow_Inl[of t r] by (auto simp: Table_insert_def)

lemma Table_erase_spec:
  assumes inv: "Table_inv t"
  shows "\<exists>t'. Table_erase i t = Inr (i < length (Table_rowsSnapshot t), t') \<and> Table_inv t' \<and>
    Table_rowsSnapshot t' = (if i < length (Table_rowsSnapshot t)
      then remove_nth i (Table_rowsSnapshot t) else Table_rowsSnapshot t) \<and> same_definitions t t' \<and>
    tb_versions t' = (if i < length (Table_rowsSnapshot t)
      then MVCCRowStore_erase i (tb_nextVersionTransactionId t) (tb_versions t) else tb_versions t) \<and>
    tb_nextVersionTransactionId t' = tb_nextVersionTransactionId t +
      (if i < length (Table_rowsSnapshot t) then 1 else 0)"
proof (cases "i < length (Table_rowsSnapshot t)")
  case False
  then have "Table_erase i t = Inr (False, t)"
    using Table_rowCount_rows[OF inv] by (simp add: Table_erase_def Table_rowCount_def)
  with False inv show ?thesis by (simp add: same_definitions_def)
next
  case True
  note rs = Table_inv_store[OF inv]
  obtain b s where er: "PageRowStore_erase i (tb_rowStore t) = (b, s)" by fastforce
  have b: "b" and s: "PageRowStore_inv s" "PageRowStore_snapshot s = remove_nth i (Table_rowsSnapshot t)"
    using page_store.erase_result[OF rs, of i] page_store.erase_inv[OF rs, of i]
      page_store.erase_abs[OF rs, of i] er True by (simp_all add: Table_rowsSnapshot_def)
  define u where "u = t\<lparr>tb_versions := MVCCRowStore_erase i (tb_nextVersionTransactionId t) (tb_versions t),
      tb_nextVersionTransactionId := tb_nextVersionTransactionId t + 1, tb_rowStore := s\<rparr>"
  have u: "tb_rowStore u = s" "tb_schema u = tb_schema t" "Table_indexed (Table_rowsSnapshot t) u"
    "tb_name u = tb_name t" "tb_indexColumns u = tb_indexColumns t" "mvcc_inv (tb_versions u)"
    "tb_versions u = MVCCRowStore_erase i (tb_nextVersionTransactionId t) (tb_versions t)"
    "tb_nextVersionTransactionId u = tb_nextVersionTransactionId t + 1"
    using inv by (simp_all add: u_def Table_indexed_def Table_inv_def mvcc_inv_erase)
  have rows: "Table_rowsSnapshot u = remove_nth i (Table_rowsSnapshot t)"
    by (simp add: Table_rowsSnapshot_def u s)
  have "\<forall>r \<in> set (Table_rowsSnapshot u). row_ok (tb_schema u) r"
    using inv set_remove_nth[of i "Table_rowsSnapshot t"] by (auto simp: rows u Table_inv_def)
  then obtain t' where t': "Table_rebuildIndexes u = Inr t'" "Table_inv t'"
    "Table_rowsSnapshot t' = Table_rowsSnapshot u" "same_but_indexes u t'"
    using Table_rebuild_spec[of u "Table_rowsSnapshot t"] inv s u by (auto simp: Table_inv_def)
  have "Table_erase i t = Inr (True, t')"
    using True b er t'(1) Table_rowCount_rows[OF inv]
    by (simp add: Table_erase_def Table_rowCount_def u_def)
  with True t' rows u show ?thesis
    using same_but_indexesD[OF t'(4)] by (simp add: same_definitions_def)
qed

lemma Table_checkValue_Inr:
  "Table_checkValue c v t = Inr u \<longleftrightarrow> cell_fits (tb_schema t ! c) v"
  using Value_type_total[of v] by (auto simp: Table_checkValue_def cell_fits_def split: if_splits)

lemma Table_update_spec:
  assumes inv: "Table_inv t" and i: "i < length (Table_rowsSnapshot t)" and c: "c < length (tb_schema t)"
    and fits: "cell_fits (tb_schema t ! c) v" and ok: "value_ok v"
  shows "\<exists>t'. Table_update i c v t = Inr (True, t') \<and> Table_inv t' \<and>
    Table_rowsSnapshot t' = (Table_rowsSnapshot t)[i := (Table_rowsSnapshot t ! i)[c := v]] \<and>
    same_definitions t t' \<and>
    tb_versions t' = MVCCRowStore_write i ((Table_rowsSnapshot t ! i)[c := v])
      (tb_nextVersionTransactionId t) (tb_versions t) \<and>
    tb_nextVersionTransactionId t' = tb_nextVersionTransactionId t + 1"
proof -
  let ?rows = "Table_rowsSnapshot t" and ?r = "(Table_rowsSnapshot t ! i)[c := v]"
  note rs = Table_inv_store[OF inv]
  have get: "PageRowStore_get i (tb_rowStore t) = Some (?rows ! i)"
    using page_store.get_abs[OF rs, of i] i by (simp add: Table_rowsSnapshot_def)
  obtain s where s: "PageRowStore_update i ?r (tb_rowStore t) = Inr (True, s)" "PageRowStore_inv s"
    "PageRowStore_snapshot s = ?rows[i := ?r]"
    using page_store.update_within[OF rs, of i ?r] i by (auto simp: Table_rowsSnapshot_def)
  define u where "u = Table_writeVersion i (t\<lparr>tb_rowStore := s\<rparr>)"
  have get': "PageRowStore_get i s = Some ?r" using page_store.get_abs[OF s(2), of i] i by (simp add: s)
  have u: "tb_rowStore u = s" "tb_schema u = tb_schema t" "Table_indexed ?rows u"
    "tb_name u = tb_name t" "tb_indexColumns u = tb_indexColumns t" "mvcc_inv (tb_versions u)"
    "tb_versions u = MVCCRowStore_write i ?r (tb_nextVersionTransactionId t) (tb_versions t)"
    "tb_nextVersionTransactionId u = tb_nextVersionTransactionId t + 1"
    using inv get' by (simp_all add: u_def Table_writeVersion_def Table_indexed_def Table_inv_def mvcc_inv_write)
  have rows: "Table_rowsSnapshot u = ?rows[i := ?r]"
    by (simp add: Table_rowsSnapshot_def u s)
  have old: "row_ok (tb_schema t) (?rows ! i)" using inv i by (simp add: Table_inv_def)
  then have "row_ok (tb_schema t) ?r"
    using fits ok c set_update_subset_insert[of "?rows ! i" c v]
    by (auto simp: row_ok_def row_fits_def list_all2_conv_all_nth nth_list_update)
  then have "\<forall>r \<in> set (Table_rowsSnapshot u). row_ok (tb_schema u) r"
    using inv set_update_subset_insert[of ?rows i ?r] by (auto simp: rows u Table_inv_def)
  then obtain t' where t': "Table_rebuildIndexes u = Inr t'" "Table_inv t'"
    "Table_rowsSnapshot t' = Table_rowsSnapshot u" "same_but_indexes u t'"
    using Table_rebuild_spec[of u ?rows] inv s u by (auto simp: Table_inv_def)
  have "Table_checkValue c v t = Inr ()" using fits Table_checkValue_Inr by blast
  then have "Table_update i c v t = Inr (True, t')"
    using i c get s(1) t'(1) Table_rowCount_rows[OF inv]
    by (simp add: Table_update_def Table_rowCount_def u_def)
  with t' rows u show ?thesis
    using same_but_indexesD[OF t'(4)] by (simp add: same_definitions_def)
qed

lemma Table_update_beyond:
  assumes "Table_inv t" and "length (Table_rowsSnapshot t) \<le> i \<or> length (tb_schema t) \<le> c"
  shows "Table_update i c v t = Inr (False, t)"
  using assms Table_rowCount_rows[OF assms(1)] by (auto simp: Table_update_def Table_rowCount_def)

lemma Table_update_invalid:
  assumes "Table_inv t" and "i < length (Table_rowsSnapshot t)" and "c < length (tb_schema t)"
    and "\<not> cell_fits (tb_schema t ! c) v"
  shows "\<exists>m. Table_update i c v t = Inl (InvalidArgument m)"
proof -
  have "\<exists>m. Table_checkValue c v t = Inl (InvalidArgument m)"
    using assms(4) Value_type_total[of v] by (auto simp: Table_checkValue_def cell_fits_def)
  then show ?thesis
    using assms Table_rowCount_rows[OF assms(1)] by (auto simp: Table_update_def Table_rowCount_def)
qed

subsection \<open>Building an index\<close>

lemma indexes_list_emplace:
  "indexes_list law cols ixs \<Longrightarrow> omap_find str_less name ixs = None \<Longrightarrow> law c (f None) \<Longrightarrow>
   indexes_list law (omap_emplace str_less name c cols) (omap_alter str_less name f ixs)"
  unfolding indexes_list_def omap_emplace_def
  by (induction rule: list_all2_induct) (auto split: if_splits)

lemma indexes_list_names: "indexes_list law cols ixs \<Longrightarrow> map fst ixs = map fst cols"
  unfolding indexes_list_def by (induction rule: list_all2_induct) auto

lemma Table_indexed_names:
  "Table_indexed rows t \<Longrightarrow>
   map fst (tb_indexes t) = map fst (tb_indexColumns t) \<and>
   map fst (tb_orderedIndexes t) = map fst (tb_indexColumns t)"
  unfolding Table_indexed_def by (intro conjI; elim conjE; erule indexes_list_names)

lemma Table_inv_names:
  "Table_inv t \<Longrightarrow> map fst (tb_indexes t) = map fst (tb_indexColumns t)"
  unfolding Table_inv_def using Table_indexed_names by blast

text \<open>Whether a key is found depends on the keys alone.\<close>

lemma omap_find_names:
  "omap_find lt k m = None \<longleftrightarrow> omap_find lt k (map (\<lambda>n. (n, ())) (map fst m)) = None"
  by (induction m) auto

lemma omap_emplace_set: "set (omap_emplace lt k v m) \<subseteq> insert (k, v) (set m)"
  unfolding omap_emplace_def by (induction m) (auto split: if_splits)

lemma hash_new_clear: "HashIndex_clear HashIndex_new = HashIndex_new"
  by (simp add: HashIndex_clear_def HashIndex_new_def)

lemma BTreeIndex_default_inv: "BTreeIndex_inv BTreeIndex_default"
  and btree_default_clear: "BTreeIndex_clear BTreeIndex_default = BTreeIndex_default"
proof -
  have "BTreeIndex_new 64 = Inr BTreeIndex_default"
    by (simp add: BTreeIndex_default_def BTreeIndex_new_def)
  then show "BTreeIndex_inv BTreeIndex_default" by (rule BTreeIndex_new_inv)
  show "BTreeIndex_clear BTreeIndex_default = BTreeIndex_default"
    by (simp add: BTreeIndex_default_def BTreeIndex_new_def BTreeIndex_clear_def
        BTreeIndex_rebuildLayout_def)
qed

lemma fill_index_rows:
  assumes "PageRowStore_inv (tb_rowStore t)"
  shows "fill_index ins c t ix =
    fold (\<lambda>i. ins (Table_rowsSnapshot t ! i ! c) i) [0..<length (Table_rowsSnapshot t)] ix"
  unfolding fill_index_def
  using page_store.size_abs[OF assms] page_store.get_abs[OF assms]
  by (intro fold_cong) (auto simp: Table_rowsSnapshot_def)

lemma Table_createIndex_spec:
  assumes inv: "Table_inv t"
  shows "\<exists>t'. Table_createIndex name column t =
      (column \<in> col_name ` set (tb_schema t) \<and> omap_find str_less name (tb_indexes t) = None, t') \<and>
    Table_inv t' \<and> Table_rowsSnapshot t' = Table_rowsSnapshot t \<and>
    tb_name t' = tb_name t \<and> tb_schema t' = tb_schema t \<and> tb_versions t' = tb_versions t \<and>
    tb_nextVersionTransactionId t' = tb_nextVersionTransactionId t \<and>
    tb_indexColumns t' =
      (case Table_columnIndex column t of
         None \<Rightarrow> tb_indexColumns t
       | Some c \<Rightarrow> if omap_find str_less name (tb_indexes t) = None
           then omap_emplace str_less name c (tb_indexColumns t) else tb_indexColumns t)"
proof (cases "Table_columnIndex column t")
  case None
  then have "column \<notin> col_name ` set (tb_schema t)" using Table_columnIndex_None by blast
  with None inv show ?thesis by (simp add: Table_createIndex_def)
next
  case (Some c)
  then have col: "column \<in> col_name ` set (tb_schema t)"
    using Table_columnIndex_None[of column t] by auto
  have c: "c < length (tb_schema t)" using Table_columnIndex_Some[OF Some] by blast
  show ?thesis
  proof (cases "omap_find str_less name (tb_indexes t)")
    case (Some ix)
    with \<open>Table_columnIndex column t = Some c\<close> inv show ?thesis
      by (simp add: Table_createIndex_def)
  next
    case None
    let ?rows = "Table_rowsSnapshot t" and ?cols = "tb_indexColumns t"
    note rs = Table_inv_store[OF inv]
    note ixd = inv[unfolded Table_inv_def Table_indexed_def]
    have vals: "\<forall>r \<in> set ?rows. value_ok (r ! c)"
      using inv c row_ok_nth by (auto simp: Table_inv_def)
    have names: "omap_find str_less name (tb_orderedIndexes t) = None"
    proof -
      have "map fst (tb_indexes t) = map fst (tb_orderedIndexes t)"
        using Table_indexed_names[of ?rows t] inv by (simp add: Table_inv_def)
      then show ?thesis
        using None omap_find_names[of str_less name "tb_indexes t"]
          omap_find_names[of str_less name "tb_orderedIndexes t"] by metis
    qed
    let ?h = "fill_index HashIndex_insert c t HashIndex_new"
    let ?b = "fill_index BTreeIndex_insert c t BTreeIndex_default"
    have h: "hash.lists_rows c ?rows ?h"
      using hash.lists_rows_fill[OF HashIndex_new_inv vals]
      by (simp add: fill_index_rows[OF rs] hash_new_clear)
    have b: "btree.lists_rows c ?rows ?b \<and> btree.orders_rows c ?rows ?b"
      using btree.lists_rows_fill[OF BTreeIndex_default_inv vals]
        btree.orders_rows_fill[OF BTreeIndex_default_inv vals]
      by (simp add: fill_index_rows[OF rs] btree_default_clear)
    obtain t' where t': "Table_createIndex name column t = (True, t')"
      "tb_indexColumns t' = omap_emplace str_less name c ?cols"
      "tb_indexes t' = omap_alter str_less name (\<lambda>old. fill_index HashIndex_insert c t
        (case old of None \<Rightarrow> HashIndex_new | Some ix \<Rightarrow> ix)) (tb_indexes t)"
      "tb_orderedIndexes t' = omap_alter str_less name (\<lambda>old. fill_index BTreeIndex_insert c t
        (case old of None \<Rightarrow> BTreeIndex_default | Some ix \<Rightarrow> ix)) (tb_orderedIndexes t)"
      "tb_name t' = tb_name t" "tb_schema t' = tb_schema t" "tb_rowStore t' = tb_rowStore t"
      "tb_versions t' = tb_versions t" "tb_nextVersionTransactionId t' = tb_nextVersionTransactionId t"
      using that[of "snd (Table_createIndex name column t)"] Some None
      by (simp add: Table_createIndex_def)
    have "find_column (col_name (tb_schema t ! c)) (tb_schema t) = Some c"
      using Some Table_columnIndex_Some[OF Some] by (simp add: Table_columnIndex_def)
    then have "\<forall>(n, d) \<in> set (omap_emplace str_less name c ?cols).
        find_column (col_name (tb_schema t ! d)) (tb_schema t) = Some d"
      using omap_emplace_set[of str_less name c ?cols] ixd by blast
    moreover have "indexes_list (\<lambda>c. hash.lists_rows c ?rows) (tb_indexColumns t') (tb_indexes t')"
      unfolding t' by (rule indexes_list_emplace) (use ixd None h in simp_all)
    moreover have "indexes_list (\<lambda>c ix. btree.lists_rows c ?rows ix \<and> btree.orders_rows c ?rows ix)
        (tb_indexColumns t') (tb_orderedIndexes t')"
      unfolding t' by (rule indexes_list_emplace) (use ixd names b in simp_all)
    ultimately have "Table_inv t'"
      using ixd t' str_order.omap_wf_emplace[of ?cols name c]
      by (simp add: Table_inv_def Table_indexed_def Table_rowsSnapshot_def)
    with t' col Some None show ?thesis by (simp add: Table_rowsSnapshot_def)
  qed
qed

subsection \<open>Replacing all rows\<close>

lemma Table_writeVersions_frame:
  "same_but_indexes (t\<lparr>tb_versions := tb_versions u, tb_nextVersionTransactionId :=
     tb_nextVersionTransactionId u\<rparr>) u \<and> tb_indexes u = tb_indexes t \<and>
   tb_orderedIndexes u = tb_orderedIndexes t" if "u = fold Table_writeVersion ids t"
  using that
proof (induction ids arbitrary: t u)
  case (Cons i ids)
  from Cons(1)[of u "Table_writeVersion i t"] Cons(2) show ?case
    by (simp add: same_but_indexes_def Table_writeVersion_def)
qed (simp add: same_but_indexes_def)

lemma Table_writeVersions_inv:
  "mvcc_inv (tb_versions t) \<Longrightarrow> mvcc_inv (tb_versions (fold Table_writeVersion ids t))"
  by (induction ids arbitrary: t) (simp_all add: Table_writeVersion_def mvcc_inv_write)

lemma validate_rows_Inr:
  "efold (\<lambda>r _. Table_validateRow r t) rows () = Inr u \<longleftrightarrow> (\<forall>r \<in> set rows. row_fits (tb_schema t) r)"
  by (induction rows) (auto simp: ebind_eq_Inr Table_validateRow_Inr)

lemma validate_rows_Inl:
  "r \<in> set rows \<Longrightarrow> \<not> row_fits (tb_schema t) r \<Longrightarrow>
   \<exists>m. efold (\<lambda>r _. Table_validateRow r t) rows () = Inl (InvalidArgument m)"
proof (induction rows)
  case (Cons a rows)
  show ?case
  proof (cases "row_fits (tb_schema t) a")
    case True
    then have "Table_validateRow a t = Inr ()" by (simp add: Table_validateRow_Inr)
    with True Cons show ?thesis by auto
  next
    case False
    then obtain m where "Table_validateRow a t = Inl (InvalidArgument m)"
      using Table_validateRow_Inl by blast
    then show ?thesis by simp
  qed
qed simp

lemma Table_replaceRows_spec:
  assumes inv: "Table_inv t" and ok: "\<forall>r \<in> set rows. row_ok (tb_schema t) r"
  shows "\<exists>t'. Table_replaceRows rows t = Inr t' \<and> Table_inv t' \<and> Table_rowsSnapshot t' = rows \<and>
    same_definitions t t' \<and>
    (\<exists>u. u = fold Table_writeVersion [0..<length rows]
      (t\<lparr>tb_rowStore := PageRowStore_replaceRows rows (tb_rowStore t),
         tb_versions := MVCCRowStore_new, tb_nextVersionTransactionId := 1\<rparr>) \<and>
      tb_versions t' = tb_versions u \<and>
      tb_nextVersionTransactionId t' = tb_nextVersionTransactionId u)"
proof -
  note rs = Table_inv_store[OF inv]
  let ?s = "PageRowStore_replaceRows rows (tb_rowStore t)"
  define t1 where "t1 = t\<lparr>tb_rowStore := ?s, tb_versions := MVCCRowStore_clear (tb_versions t),
    tb_nextVersionTransactionId := 1\<rparr>"
  define u where "u = fold Table_writeVersion [0..<length rows] t1"
  have s: "PageRowStore_inv ?s" "PageRowStore_snapshot ?s = rows" "PageRowStore_size ?s = length rows"
    using page_store.replaceRows_inv[OF rs] page_store.replaceRows_abs[OF rs]
      page_store.size_abs[OF page_store.replaceRows_inv[OF rs]] by simp_all
  have u: "tb_rowStore u = ?s" "tb_schema u = tb_schema t" "tb_name u = tb_name t"
    "tb_indexColumns u = tb_indexColumns t" "tb_indexes u = tb_indexes t"
    "tb_orderedIndexes u = tb_orderedIndexes t" "mvcc_inv (tb_versions u)"
    using Table_writeVersions_frame[OF u_def] Table_writeVersions_inv[of t1 "[0..<length rows]"]
    by (simp_all add: same_but_indexes_def t1_def u_def)
  have ixd: "Table_indexed (Table_rowsSnapshot t) u"
    using inv u by (simp add: Table_inv_def Table_indexed_def)
  have rows: "Table_rowsSnapshot u = rows" by (simp add: Table_rowsSnapshot_def u s)
  obtain t' where t': "Table_rebuildIndexes u = Inr t'" "Table_inv t'"
    "Table_rowsSnapshot t' = Table_rowsSnapshot u" "same_but_indexes u t'"
    using Table_rebuild_spec[of u "Table_rowsSnapshot t"] inv s u ixd ok rows
    by (auto simp: Table_inv_def)
  have "efold (\<lambda>r _. Table_validateRow r t) rows () = Inr ()"
    using ok by (simp add: validate_rows_Inr row_ok_def)
  then have "Table_replaceRows rows t = Inr t'"
    using t'(1) by (simp add: Table_replaceRows_def Let_def s u_def t1_def)
  moreover have "tb_versions t' = tb_versions u"
    "tb_nextVersionTransactionId t' = tb_nextVersionTransactionId u"
    using same_but_indexesD[OF t'(4)] by simp_all
  moreover have "MVCCRowStore_clear (tb_versions t) = MVCCRowStore_new"
    by (simp add: MVCCRowStore_clear_def MVCCRowStore_new_def)
  ultimately show ?thesis
    using t' rows u same_but_indexesD[OF t'(4)] by (simp add: same_definitions_def u_def t1_def)
qed

lemma Table_replaceRows_invalid:
  "r \<in> set rows \<Longrightarrow> \<not> row_fits (tb_schema t) r \<Longrightarrow>
   \<exists>m. Table_replaceRows rows t = Inl (InvalidArgument m)"
  using validate_rows_Inl[of r rows t] by (auto simp: Table_replaceRows_def)

section \<open>Lookups agree with a scan\<close>

lemma Table_hasIndex_indexOn: "Table_hasIndex column t \<longleftrightarrow> Table_indexOn column t \<noteq> None"
  by (auto simp: Table_hasIndex_def Table_indexOn_def find_None_iff)

lemma Table_indexOn_Some:
  assumes "Table_inv t" and "Table_indexOn column t = Some n"
  obtains c where "(n, c) \<in> set (tb_indexColumns t)" "Table_columnIndex column t = Some c"
proof -
  obtain c where c: "List.find (\<lambda>(_, c). col_name (tb_schema t ! c) = column) (tb_indexColumns t) = Some (n, c)"
    using assms(2) by (auto simp: Table_indexOn_def)
  then have "(n, c) \<in> set (tb_indexColumns t)" "col_name (tb_schema t ! c) = column"
    by (auto simp: find_Some_iff) (metis nth_mem)
  moreover from this have "Table_columnIndex column t = Some c"
    using assms(1) by (auto simp: Table_inv_def Table_indexed_def Table_columnIndex_def)
  ultimately show ?thesis using that by blast
qed

lemma indexes_list_at:
  assumes "indexes_list law cols ixs" and "omap_wf str_less (\<lambda>_. True) cols" and "(n, c) \<in> set cols"
  shows "\<exists>ix. omap_at n ixs = Inr ix \<and> law c ix"
proof -
  have names: "map fst ixs = map fst cols" by (rule indexes_list_names[OF assms(1)])
  have wf: "omap_wf str_less (\<lambda>_. True) ixs"
    using assms(2) unfolding omap_wf_def names .
  obtain k where k: "k < length cols" "cols ! k = (n, c)" using assms(3) by (auto simp: in_set_conv_nth)
  obtain m ix where mix: "ixs ! k = (m, ix)" by (cases "ixs ! k")
  have "k < length ixs" and law: "n = m \<and> law c ix"
    using assms(1) k mix by (auto simp: indexes_list_def list_all2_conv_all_nth)
  then have "(n, ix) \<in> set ixs" using mix by (metis nth_mem)
  then show ?thesis using omap_at_mem[OF wf] law by blast
qed

lemma Table_indexedLookup_rows:
  assumes inv: "Table_inv t" and ok: "value_ok v" and has: "Table_hasIndex column t"
  shows "\<exists>c. Table_columnIndex column t = Some c \<and>
    Table_indexedLookup column v t =
      Inr (Some (positions (\<lambda>r. Value_eq (r ! c) v) (Table_rowsSnapshot t)))"
proof -
  obtain n where n: "Table_indexOn column t = Some n" using has Table_hasIndex_indexOn by auto
  obtain c where c: "(n, c) \<in> set (tb_indexColumns t)" "Table_columnIndex column t = Some c"
    using Table_indexOn_Some[OF inv n] by blast
  obtain ix where ix: "omap_at n (tb_indexes t) = Inr ix" "hash.lists_rows c (Table_rowsSnapshot t) ix"
    using indexes_list_at[OF _ _ c(1), of _ "tb_indexes t"] inv
    unfolding Table_inv_def Table_indexed_def by blast
  from ix(2) ok have "HashIndex_find v ix = positions (\<lambda>r. Value_eq (r ! c) v) (Table_rowsSnapshot t)"
    by (simp add: hash.lists_rows_def)
  with n c ix(1) show ?thesis by (simp add: Table_indexedLookup_def)
qed

text \<open>The ids of the rows that compare, as the index over the column lists them.\<close>

definition range_ids :: "comparison_operator \<Rightarrow> sql_value \<Rightarrow> nat \<Rightarrow> row list \<Rightarrow> row_id list" where
  "range_ids op v c rows =
     (if op = Equal then positions (\<lambda>r. Value_eq (r ! c) v) rows
      else selected_ids (\<lambda>a. compare_values a op v) c rows)"

lemma mset_range_ids: "mset (range_ids op v c rows) = mset (positions (\<lambda>r. compare_values (r ! c) op v) rows)"
  by (simp add: range_ids_def mset_selected_ids)

lemma Table_orderedLookup_rows:
  assumes inv: "Table_inv t" and ok: "value_ok v" and has: "Table_hasIndex column t"
  shows "\<exists>c. Table_columnIndex column t = Some c \<and>
    Table_orderedLookup column op v t = Inr (Some (range_ids op v c (Table_rowsSnapshot t)))"
proof -
  obtain n where n: "Table_indexOn column t = Some n" using has Table_hasIndex_indexOn by auto
  obtain c where c: "(n, c) \<in> set (tb_indexColumns t)" "Table_columnIndex column t = Some c"
    using Table_indexOn_Some[OF inv n] by blast
  obtain ix where ix: "omap_at n (tb_orderedIndexes t) = Inr ix"
    "btree.lists_rows c (Table_rowsSnapshot t) ix" "btree.orders_rows c (Table_rowsSnapshot t) ix"
    using indexes_list_at[OF _ _ c(1), of _ "tb_orderedIndexes t"] inv
    unfolding Table_inv_def Table_indexed_def by blast
  show ?thesis
    using n c ix(1) ix(2)[unfolded btree.lists_rows_def] btree.lessThan_rows[OF ix(3) ok]
      btree.greaterThan_rows[OF ix(3) ok] ok
    by (cases op) (simp_all add: Table_orderedLookup_def range_ids_def)
qed

lemma Table_lookup_unindexed:
  "\<not> Table_hasIndex column t \<Longrightarrow>
   Table_indexedLookup column v t = Inr None \<and> Table_orderedLookup column op v t = Inr None"
  using Table_hasIndex_indexOn[of column t]
  by (simp add: Table_indexedLookup_def Table_orderedLookup_def)

section \<open>Versions and rows\<close>

text \<open>
  Reads inside a transaction go through the version store with the largest id. As long as no
  row is deleted those reads are the rows themselves. (A delete shifts the rows of the page
  store but not the version chains, so nothing of the kind holds after it.)
\<close>

definition Table_versions_current :: "vtable \<Rightarrow> bool" where
  "Table_versions_current t \<longleftrightarrow> mvcc_current (Table_rowsSnapshot t) (tb_versions t)"

lemma Table_new_versions:
  "Table_new name schema = Inr t \<Longrightarrow> Table_versions_current t"
proof -
  assume new: "Table_new name schema = Inr t"
  then have "name \<noteq> []" "schema \<noteq> []" using Table_new_Inr_iff by blast+
  then have "Table_rowsSnapshot t = [] \<and> tb_versions t = MVCCRowStore_new"
    using Table_new_spec[of name schema] new by auto
  then show ?thesis by (simp add: Table_versions_current_def)
qed

lemma Table_insert_versions:
  assumes "Table_inv t" and "row_ok (tb_schema t) r" and "Table_versions_current t"
    and "Table_insert r t = Inr (i, t')"
  shows "Table_versions_current t'"
  using Table_insert_spec[OF assms(1,2)] assms(3,4) mvcc_current_append
  by (auto simp: Table_versions_current_def)

lemma Table_update_versions:
  assumes "Table_inv t" and "cell_fits (tb_schema t ! c) v" and "value_ok v"
    and "i < length (Table_rowsSnapshot t)" and "c < length (tb_schema t)"
    and "Table_versions_current t" and "Table_update i c v t = Inr (b, t')"
  shows "Table_versions_current t'"
  using Table_update_spec[OF assms(1,4,5,2,3)] assms(4,6,7) mvcc_current_update
  by (auto simp: Table_versions_current_def)

lemma writeVersions_current:
  assumes rs: "PageRowStore_inv (tb_rowStore t)" and "tb_versions t = MVCCRowStore_new"
    and "k \<le> length (Table_rowsSnapshot t)"
  shows "mvcc_current (take k (Table_rowsSnapshot t)) (tb_versions (fold Table_writeVersion [0..<k] t))"
  using assms(3)
proof (induction k)
  case 0
  then show ?case by (simp add: assms(2))
next
  case (Suc k)
  define u where "u = fold Table_writeVersion [0..<k] t"
  have "tb_rowStore u = tb_rowStore t"
    using Table_writeVersions_frame[OF u_def] by (simp add: same_but_indexes_def)
  then have "PageRowStore_get k (tb_rowStore u) = Some (Table_rowsSnapshot t ! k)"
    using page_store.get_abs[OF rs, of k] Suc.prems by (simp add: Table_rowsSnapshot_def)
  moreover have "length (take k (Table_rowsSnapshot t)) = k" using Suc.prems by simp
  moreover have "mvcc_current (take k (Table_rowsSnapshot t)) (tb_versions u)"
    using Suc by (simp add: u_def)
  ultimately have "mvcc_current (take (Suc k) (Table_rowsSnapshot t)) (tb_versions (Table_writeVersion k u))"
    using Suc.prems mvcc_current_append[of "take k (Table_rowsSnapshot t)" "tb_versions u"]
    by (simp add: Table_writeVersion_def take_Suc_conv_app_nth)
  moreover have "fold Table_writeVersion [0..<Suc k] t = Table_writeVersion k u"
    by (simp add: u_def)
  ultimately show ?case by (simp only:)
qed

lemma Table_replaceRows_versions:
  assumes inv: "Table_inv t" and ok: "\<forall>r \<in> set rows. row_ok (tb_schema t) r"
    and run: "Table_replaceRows rows t = Inr t'"
  shows "Table_versions_current t'"
proof -
  let ?t = "t\<lparr>tb_rowStore := PageRowStore_replaceRows rows (tb_rowStore t),
         tb_versions := MVCCRowStore_new, tb_nextVersionTransactionId := 1\<rparr>"
  have rs: "PageRowStore_inv (tb_rowStore ?t)" "Table_rowsSnapshot ?t = rows"
    using page_store.replaceRows_inv[OF Table_inv_store[OF inv]]
      page_store.replaceRows_abs[OF Table_inv_store[OF inv]] by (simp_all add: Table_rowsSnapshot_def)
  have "mvcc_current rows (tb_versions (fold Table_writeVersion [0..<length rows] ?t))"
    using writeVersions_current[OF rs(1), of "length rows"] rs(2) by simp
  then show ?thesis
    using Table_replaceRows_spec[OF inv ok] run by (auto simp: Table_versions_current_def)
qed

lemma Table_reads_current:
  assumes "Table_inv t" and "Table_versions_current t"
  shows "Table_rowsSnapshotAt (- 1) t = Table_rowsSnapshot t"
    and "Table_rowsByIdAt ids (- 1) t = Table_rowsById ids t"
proof -
  note rs = Table_inv_store[OF assms(1)]
  show "Table_rowsSnapshotAt (- 1) t = Table_rowsSnapshot t"
    using assms(2) mvcc_current_visible(1) by (simp add: Table_versions_current_def Table_rowsSnapshotAt_def)
  have "Table_rowsById ids t = List.map_filter (\<lambda>i. PageRowStore_get i (tb_rowStore t)) ids"
    using page_store.rowsById_get[OF rs] by (simp add: Table_rowsById_def)
  moreover have "PageRowStore_get i (tb_rowStore t) =
      (if i < length (Table_rowsSnapshot t) then Some (Table_rowsSnapshot t ! i) else None)" for i
    using page_store.get_abs[OF rs] by (simp add: Table_rowsSnapshot_def)
  ultimately show "Table_rowsByIdAt ids (- 1) t = Table_rowsById ids t"
    using assms(2) mvcc_current_visible(2)
    by (simp add: Table_versions_current_def Table_rowsByIdAt_def)
qed

end
