(* ===== verification/Database.thy ===== *)
theory Database
  imports Table
begin

text \<open>
  \<open>storage/database.hpp\<close> and \<open>storage/database.cpp\<close>: an ordered map from names to tables. A
  \<open>shared_ptr<Table>\<close> is shared only between the map and the statement that runs, so a table is
  a value here and a statement puts the changed table back (\<open>Database_putTable\<close>).
  \<open>Database_clone_spec\<close> says a clone has the content of the original, and
  \<open>Database_renameTable_spec\<close> what a rename keeps; \<open>renameTable\<close> erases the old table before
  it builds the new one, so it returns the changed state beside its outcome.
\<close>

record database =
  db_name :: string
  db_tables :: "(string \<times> vtable) list"

definition Database_new :: "string \<Rightarrow> database outcome" where
  "Database_new name =
     (if name = [] then Inl (InvalidArgument ''database name cannot be empty'')
      else Inr \<lparr>db_name = name, db_tables = []\<rparr>)"

definition Database_table :: "string \<Rightarrow> database \<Rightarrow> vtable option" where
  "Database_table name db = omap_find str_less name (db_tables db)"

definition Database_listTables :: "database \<Rightarrow> string list" where
  "Database_listTables db = map fst (db_tables db)"

definition Database_tables :: "database \<Rightarrow> vtable list" where
  "Database_tables db = map snd (db_tables db)"

text \<open>The table is constructed before the map is asked whether the name is taken.\<close>

definition Database_createTable ::
  "string \<Rightarrow> column list \<Rightarrow> database \<Rightarrow> (bool \<times> database) outcome" where
  "Database_createTable name schema db =
     ebind (Table_new name schema) (\<lambda>t.
       Inr (Database_table name db = None,
            db\<lparr>db_tables := omap_emplace str_less name t (db_tables db)\<rparr>))"

definition Database_dropTable :: "string \<Rightarrow> database \<Rightarrow> bool \<times> database" where
  "Database_dropTable name db =
     (case Database_table name db of
        None \<Rightarrow> (False, db)
      | Some _ \<Rightarrow> (True, db\<lparr>db_tables := omap_erase str_less name (db_tables db)\<rparr>))"

text \<open>Inserting the rows one by one, and creating the indexes, of another table.\<close>

definition insert_rows :: "row list \<Rightarrow> vtable \<Rightarrow> vtable outcome" where
  "insert_rows rows t = efold (\<lambda>r t. ebind (Table_insert r t) (\<lambda>(_, t'). Inr t')) rows t"

definition create_indexes :: "(string \<times> string) list \<Rightarrow> vtable \<Rightarrow> vtable" where
  "create_indexes defs t = fold (\<lambda>(name, column) t. snd (Table_createIndex name column t)) defs t"

definition Database_renameTable :: "string \<Rightarrow> string \<Rightarrow> database \<Rightarrow> database \<times> bool outcome" where
  "Database_renameTable oldName newName db =
     (case Database_table oldName db of
        None \<Rightarrow> (db, Inr False)
      | Some oldTable \<Rightarrow>
          if Database_table newName db \<noteq> None then (db, Inr False)
          else (let db1 = db\<lparr>db_tables := omap_erase str_less oldName (db_tables db)\<rparr>
                in case ebind (Table_new newName (tb_schema oldTable))
                          (insert_rows (Table_rowsSnapshot oldTable)) of
                     Inl e \<Rightarrow> (db1, Inl e)
                   | Inr t \<Rightarrow>
                       (db1\<lparr>db_tables := omap_emplace str_less newName
                          (create_indexes (Table_indexDefinitions oldTable) t) (db_tables db1)\<rparr>,
                        Inr True)))"

definition Database_putTable :: "string \<Rightarrow> vtable \<Rightarrow> database \<Rightarrow> database" where
  "Database_putTable name t db = db\<lparr>db_tables := omap_alter str_less name (\<lambda>_. t) (db_tables db)\<rparr>"

definition Database_cloneTable :: "vtable \<Rightarrow> database \<Rightarrow> database outcome" where
  "Database_cloneTable source copy =
     ebind (Database_createTable (tb_name source) (tb_schema source) copy) (\<lambda>(created, copy1).
       if \<not> created then Inl (RuntimeError ''failed to clone table'')
       else ebind (Table_replaceRows (Table_rowsSnapshot source)
                    (the (Database_table (tb_name source) copy1))) (\<lambda>t.
         Inr (Database_putTable (tb_name source)
                (create_indexes (Table_indexDefinitions source) t) copy1)))"

definition Database_clone :: "database \<Rightarrow> database outcome" where
  "Database_clone db =
     ebind (Database_new (db_name db)) (efold Database_cloneTable (Database_tables db))"

section \<open>The invariant and the content\<close>

definition Database_inv :: "database \<Rightarrow> bool" where
  "Database_inv db \<longleftrightarrow> db_name db \<noteq> [] \<and> omap_wf str_less (\<lambda>_. True) (db_tables db) \<and>
     (\<forall>(n, t) \<in> set (db_tables db). Table_inv t \<and> tb_name t = n)"

text \<open>What a user sees of a table: its schema, its rows in order, its index definitions.\<close>

type_synonym table_content = "string \<times> column list \<times> row list \<times> (string \<times> nat) list"

definition Table_content :: "vtable \<Rightarrow> table_content" where
  "Table_content t = (tb_name t, tb_schema t, Table_rowsSnapshot t, tb_indexColumns t)"

definition Database_content :: "database \<Rightarrow> string \<times> (string \<times> table_content) list" where
  "Database_content db = (db_name db, map (\<lambda>(n, t). (n, Table_content t)) (db_tables db))"

lemma Database_table_map_of:
  "Database_inv db \<Longrightarrow> Database_table name db = map_of (db_tables db) name"
  by (simp add: Database_inv_def Database_table_def str_order.omap_find_map_of)

lemma Database_table_inv:
  "Database_inv db \<Longrightarrow> Database_table name db = Some t \<Longrightarrow> Table_inv t \<and> tb_name t = name"
  using Database_table_map_of map_of_SomeD by (fastforce simp: Database_inv_def)

lemma Database_new_inv: "Database_new name = Inr db \<Longrightarrow> Database_inv db"
  by (auto simp: Database_new_def Database_inv_def split: if_splits)

lemma str_map_of_alter:
  "omap_wf str_less (\<lambda>_. True) m \<Longrightarrow>
   map_of (omap_alter str_less k f m) k' = (if k' = k then Some (f (map_of m k)) else map_of m k')"
  using str_order.map_of_alter[OF _ TrueI TrueI] by metis

text \<open>Writing a table under its own name keeps the invariant, and every other table.\<close>

lemma wf_tables_iff:
  "omap_wf str_less (\<lambda>_. True) m \<Longrightarrow> (\<forall>(n, t) \<in> set m. P n t) \<longleftrightarrow> (\<forall>n t. map_of m n = Some t \<longrightarrow> P n t)"
  using map_of_eq_Some_iff[OF str_order.omap_wf_distinct[of m]] by fastforce

lemma Database_alter_inv:
  assumes inv: "Database_inv db"
    and t: "Table_inv (f (map_of (db_tables db) name))" "tb_name (f (map_of (db_tables db) name)) = name"
  shows "Database_inv (db\<lparr>db_tables := omap_alter str_less name f (db_tables db)\<rparr>)"
proof -
  have wf: "omap_wf str_less (\<lambda>_. True) (db_tables db)" using inv by (simp add: Database_inv_def)
  have wf': "omap_wf str_less (\<lambda>_. True) (omap_alter str_less name f (db_tables db))"
    using str_order.omap_wf_alter[OF wf] by simp
  show ?thesis
    using inv t unfolding Database_inv_def
    by (simp add: wf' wf_tables_iff[OF wf'] wf_tables_iff[OF wf] str_map_of_alter[OF wf])
qed

lemma Database_table_alter:
  assumes "Database_inv db"
  shows "Database_table n (db\<lparr>db_tables := omap_alter str_less name f (db_tables db)\<rparr>) =
    (if n = name then Some (f (Database_table name db)) else Database_table n db)"
proof -
  have wf: "omap_wf str_less (\<lambda>_. True) (db_tables db)" using assms by (simp add: Database_inv_def)
  have wf': "omap_wf str_less (\<lambda>_. True) (omap_alter str_less name f (db_tables db))"
    using str_order.omap_wf_alter[OF wf] by simp
  show ?thesis
    using str_order.omap_find_map_of[OF wf'] str_order.omap_find_map_of[OF wf]
    by (simp add: Database_table_def str_map_of_alter[OF wf])
qed

lemma Database_putTable_inv:
  "Database_inv db \<Longrightarrow> Table_inv t \<Longrightarrow> tb_name t = name \<Longrightarrow> Database_inv (Database_putTable name t db)"
  by (simp add: Database_putTable_def Database_alter_inv)

lemma Database_table_putTable:
  "Database_inv db \<Longrightarrow>
   Database_table n (Database_putTable name t db) = (if n = name then Some t else Database_table n db)"
  by (simp add: Database_putTable_def Database_table_alter)

section \<open>What each operation does\<close>

lemma Database_createTable_spec:
  assumes inv: "Database_inv db" and "name \<noteq> []" and "schema \<noteq> []"
  shows "\<exists>db'. Database_createTable name schema db = Inr (Database_table name db = None, db') \<and>
    Database_inv db' \<and> db_name db' = db_name db \<and>
    (if Database_table name db = None
     then \<exists>t. Table_new name schema = Inr t \<and>
       (\<forall>n. Database_table n db' = (if n = name then Some t else Database_table n db))
     else \<forall>n. Database_table n db' = Database_table n db)"
proof -
  obtain t where t: "Table_new name schema = Inr t" "Table_inv t" "tb_name t = name"
    using Table_new_spec[OF assms(2,3)] by blast
  let ?f = "\<lambda>old. case old of None \<Rightarrow> t | Some w \<Rightarrow> w"
  let ?db = "db\<lparr>db_tables := omap_alter str_less name ?f (db_tables db)\<rparr>"
  have "Database_inv ?db"
    by (rule Database_alter_inv[OF inv])
      (use t Database_table_inv[OF inv] in \<open>auto simp: Database_table_map_of[OF inv] split: option.split\<close>)
  moreover have "Database_table n ?db = (if n = name then Some (?f (Database_table name db)) else Database_table n db)" for n
    by (rule Database_table_alter[OF inv])
  ultimately show ?thesis
    using t by (auto simp: Database_createTable_def omap_emplace_def split: option.splits)
qed

lemma Database_dropTable_spec:
  assumes inv: "Database_inv db" and run: "Database_dropTable name db = (dropped, db')"
  shows "Database_inv db' \<and> db_name db' = db_name db \<and> dropped = (Database_table name db \<noteq> None) \<and>
    (\<forall>n. Database_table n db' = (if n = name then None else Database_table n db))"
proof (cases "Database_table name db")
  case None
  with run inv show ?thesis by (auto simp: Database_dropTable_def)
next
  case (Some t)
  have wf: "omap_wf str_less (\<lambda>_. True) (db_tables db)" using inv by (simp add: Database_inv_def)
  note wf' = str_order.omap_wf_erase[OF wf, of name]
  have db': "db' = db\<lparr>db_tables := omap_erase str_less name (db_tables db)\<rparr>" "dropped"
    using Some run by (auto simp: Database_dropTable_def)
  have "Database_inv db'"
    using inv omap_erase_subset[of str_less name "db_tables db"] wf'
    by (auto simp: Database_inv_def db')
  moreover have "Database_table n db' = (if n = name then None else Database_table n db)" for n
    using str_order.omap_find_map_of[OF wf'] str_order.omap_find_map_of[OF wf]
      str_order.map_of_erase[OF wf]
    by (simp add: Database_table_def db')
  ultimately show ?thesis using Some db' by simp
qed

lemma insert_rows_spec:
  "Table_inv t \<Longrightarrow> \<forall>r \<in> set rows. row_ok (tb_schema t) r \<Longrightarrow>
   \<exists>t'. insert_rows rows t = Inr t' \<and> Table_inv t' \<and> same_definitions t t' \<and>
     Table_rowsSnapshot t' = Table_rowsSnapshot t @ rows \<and>
     (Table_versions_current t \<longrightarrow> Table_versions_current t')"
proof (induction rows arbitrary: t)
  case Nil
  then show ?case by (simp add: insert_rows_def same_definitions_def)
next
  case (Cons r rows)
  obtain u where u: "Table_insert r t = Inr (length (Table_rowsSnapshot t), u)" "Table_inv u"
    "Table_rowsSnapshot u = Table_rowsSnapshot t @ [r]" "same_definitions t u"
    using Table_insert_spec[OF Cons.prems(1)] Cons.prems(2) by auto
  have vers: "Table_versions_current t \<longrightarrow> Table_versions_current u"
    using Table_insert_versions[OF Cons.prems(1) _ _ u(1)] Cons.prems(2) by auto
  obtain t' where t': "insert_rows rows u = Inr t'" "Table_inv t'" "same_definitions u t'"
     "Table_rowsSnapshot t' = Table_rowsSnapshot u @ rows" "Table_versions_current u \<longrightarrow> Table_versions_current t'"
    using Cons.IH[OF u(2)] Cons.prems(2) u(4) by (auto simp: same_definitions_def)
  then have "insert_rows (r # rows) t = Inr t'" by (simp add: insert_rows_def u(1))
  with t' u vers show ?case by (simp add: same_definitions_def)
qed

text \<open>Whatever indexes are created, only indexes change.\<close>

lemma create_indexes_keeps:
  assumes "Table_inv t"
  shows "Table_inv (create_indexes defs t) \<and> Table_rowsSnapshot (create_indexes defs t) = Table_rowsSnapshot t \<and>
    tb_name (create_indexes defs t) = tb_name t \<and> tb_schema (create_indexes defs t) = tb_schema t \<and>
    tb_versions (create_indexes defs t) = tb_versions t"
  using assms
proof (induction defs arbitrary: t)
  case Nil
  then show ?case by (simp add: create_indexes_def)
next
  case (Cons p defs)
  obtain name column where p: "p = (name, column)" by fastforce
  obtain t' where t': "snd (Table_createIndex name column t) = t'" "Table_inv t'"
    "Table_rowsSnapshot t' = Table_rowsSnapshot t" "tb_name t' = tb_name t" "tb_schema t' = tb_schema t"
    "tb_versions t' = tb_versions t"
    using Table_createIndex_spec[OF Cons.prems, of name column] by auto
  then have "create_indexes (p # defs) t = create_indexes defs t'" by (simp add: create_indexes_def p)
  with Cons.IH[OF t'(2)] t' show ?case by simp
qed

text \<open>Creating the indexes of a table on one with the same schema and none gives the same indexes.\<close>

lemma create_indexes_spec:
  assumes old: "Table_inv old" and t: "Table_inv t" "tb_schema t = tb_schema old" "tb_indexColumns t = []"
  shows "Table_inv (create_indexes (Table_indexDefinitions old) t) \<and>
    Table_content (create_indexes (Table_indexDefinitions old) t) =
      (tb_name t, tb_schema old, Table_rowsSnapshot t, tb_indexColumns old) \<and>
    tb_versions (create_indexes (Table_indexDefinitions old) t) = tb_versions t"
proof -
  let ?cols = "tb_indexColumns old"
  let ?def = "\<lambda>(name, c). (name, col_name (tb_schema old ! c))"
  have wf: "omap_wf str_less (\<lambda>_. True) ?cols"
    and known: "\<forall>(n, c) \<in> set ?cols. find_column (col_name (tb_schema old ! c)) (tb_schema old) = Some c"
    using old by (simp_all add: Table_inv_def Table_indexed_def)
  have "Table_inv u \<and> tb_indexColumns u = take k ?cols \<and> Table_rowsSnapshot u = Table_rowsSnapshot t \<and>
      tb_name u = tb_name t \<and> tb_schema u = tb_schema old \<and> tb_versions u = tb_versions t"
    if "k \<le> length ?cols" "u = create_indexes (map ?def (take k ?cols)) t" for k u
    using that
  proof (induction k arbitrary: u)
    case 0
    then show ?case using t by (simp add: create_indexes_def)
  next
    case (Suc k)
    define w where "w = create_indexes (map ?def (take k ?cols)) t"
    note w = Suc.IH[OF _ w_def]
    obtain n c where nc: "?cols ! k = (n, c)" by (cases "?cols ! k")
    have k: "k < length ?cols" using Suc.prems by simp
    have u: "u = snd (Table_createIndex n (col_name (tb_schema old ! c)) w)"
      using Suc.prems(2) k by (simp add: w_def create_indexes_def take_Suc_conv_app_nth nc)
    have before: "\<forall>a \<in> fst ` set (take k ?cols). str_less a n"
    proof -
      have "map fst ?cols = map fst (take k ?cols) @ n # map fst (drop (Suc k) ?cols)"
        using id_take_nth_drop[OF k] nc by (metis fst_conv list.simps(9) map_append)
      then show ?thesis using wf by (auto simp: omap_wf_def sorted_wrt_append)
    qed
    have "\<forall>a \<in> fst ` set (tb_indexes w). str_less a n"
    proof -
      have "map fst (tb_indexes w) = map fst (take k ?cols)"
        using Table_inv_names[of w] w k by simp
      then show ?thesis using before by (metis list.set_map)
    qed
    then have free: "omap_find str_less n (tb_indexes w) = None" by (rule omap_find_end)
    have "find_column (col_name (tb_schema old ! c)) (tb_schema old) = Some c"
      using known nc k nth_mem by fastforce
    then have col: "Table_columnIndex (col_name (tb_schema old ! c)) w = Some c"
      using w k by (simp add: Table_columnIndex_def)
    obtain u' where "Table_createIndex n (col_name (tb_schema old ! c)) w = (True, u')" "Table_inv u'"
      "Table_rowsSnapshot u' = Table_rowsSnapshot w" "tb_name u' = tb_name w" "tb_schema u' = tb_schema w"
      "tb_versions u' = tb_versions w"
      "tb_indexColumns u' = omap_emplace str_less n c (tb_indexColumns w)"
      using Table_createIndex_spec[of w n "col_name (tb_schema old ! c)"] w k free col
        Table_columnIndex_None[of "col_name (tb_schema old ! c)" w] by auto
    then show ?case
      using w k u before by (simp add: omap_emplace_def omap_alter_end take_Suc_conv_app_nth nc)
  qed
  from this[of "length ?cols"] show ?thesis
    by (simp add: Table_indexDefinitions_def Table_content_def)
qed

subsection \<open>renameTable\<close>

lemma Database_renameTable_spec:
  assumes inv: "Database_inv db" and old: "Database_table oldName db = Some old"
    and new: "Database_table newName db = None" "newName \<noteq> []"
  shows "\<exists>db' t. Database_renameTable oldName newName db = (db', Inr True) \<and>
    Database_inv db' \<and> db_name db' = db_name db \<and>
    Table_content t = (newName, tb_schema old, Table_rowsSnapshot old, tb_indexColumns old) \<and>
    Table_versions_current t \<and>
    (\<forall>n. Database_table n db' =
       (if n = newName then Some t else if n = oldName then None else Database_table n db))"
proof -
  have oldinv: "Table_inv old" using Database_table_inv[OF inv old] by blast
  then have schema: "tb_schema old \<noteq> []" and rows: "\<forall>r \<in> set (Table_rowsSnapshot old). row_ok (tb_schema old) r"
    by (simp_all add: Table_inv_def)
  obtain t0 where t0: "Table_new newName (tb_schema old) = Inr t0" "Table_inv t0"
    "Table_rowsSnapshot t0 = []" "tb_name t0 = newName" "tb_schema t0 = tb_schema old" "tb_indexColumns t0 = []"
    using Table_new_spec[OF new(2) schema] by blast
  obtain t1 where t1: "insert_rows (Table_rowsSnapshot old) t0 = Inr t1" "Table_inv t1"
    "same_definitions t0 t1" "Table_rowsSnapshot t1 = Table_rowsSnapshot old" "Table_versions_current t1"
    using insert_rows_spec[OF t0(2), of "Table_rowsSnapshot old"] rows t0(3,5) Table_new_versions[OF t0(1)]
    by auto
  define t where "t = create_indexes (Table_indexDefinitions old) t1"
  have t: "Table_inv t" "tb_versions t = tb_versions t1"
    "Table_content t = (newName, tb_schema old, Table_rowsSnapshot old, tb_indexColumns old)"
    using create_indexes_spec[OF oldinv t1(2)] t1 t0 by (simp_all add: same_definitions_def t_def)
  obtain db1 where db1: "Database_dropTable oldName db = (True, db1)"
    "db1 = db\<lparr>db_tables := omap_erase str_less oldName (db_tables db)\<rparr>"
    using old by (simp add: Database_dropTable_def)
  note drop = Database_dropTable_spec[OF inv db1(1)]
  let ?f = "\<lambda>old. case old of None \<Rightarrow> t | Some w \<Rightarrow> w"
  have free: "Database_table newName db1 = None" using drop new old by auto
  define db' where "db' = db1\<lparr>db_tables := omap_alter str_less newName ?f (db_tables db1)\<rparr>"
  have inv1: "Database_inv db1" using drop by blast
  have "Database_inv db'"
    unfolding db'_def
    by (rule Database_alter_inv[OF inv1])
      (use t free Database_table_map_of[OF inv1] in \<open>simp_all add: Table_content_def\<close>)
  moreover have "Database_table n db' =
      (if n = newName then Some t else if n = oldName then None else Database_table n db)" for n
    using Database_table_alter[OF inv1, of n newName ?f] drop free by (auto simp: db'_def)
  moreover have "Database_renameTable oldName newName db = (db', Inr True)"
    using old new t0(1) t1(1)
    by (simp add: Database_renameTable_def Let_def db'_def db1(2) t_def omap_emplace_def)
  moreover have "db_name db' = db_name db" by (simp add: db'_def db1(2))
  moreover have "Table_versions_current t"
    using t t1(4,5) by (simp add: Table_versions_current_def Table_content_def)
  ultimately show ?thesis using t(3) by blast
qed

lemma Database_renameTable_refused:
  "Database_table oldName db = None \<or> Database_table newName db \<noteq> None \<Longrightarrow>
   Database_renameTable oldName newName db = (db, Inr False)"
  by (auto simp: Database_renameTable_def split: option.splits)

lemma Database_renameTable_inv:
  assumes inv: "Database_inv db"
  shows "Database_inv (fst (Database_renameTable oldName newName db))"
proof (cases "Database_table oldName db = None \<or> Database_table newName db \<noteq> None")
  case True
  with inv Database_renameTable_refused show ?thesis by (metis fst_conv)
next
  case False
  then obtain old where old: "Database_table oldName db = Some old" "Database_table newName db = None" by auto
  show ?thesis
  proof (cases "newName = []")
    case True
    then have "Database_renameTable oldName newName db =
        (snd (Database_dropTable oldName db), Inl (InvalidArgument ''table name cannot be empty''))"
      using old by (simp add: Database_renameTable_def Database_dropTable_def Table_new_empty_name)
    then show ?thesis
      using Database_dropTable_spec[OF inv, of oldName] by (metis fst_conv prod.collapse)
  next
    case False
    then show ?thesis using Database_renameTable_spec[OF inv old] by (metis fst_conv)
  qed
qed

subsection \<open>clone\<close>

text \<open>A new table filled with the rows of another, before its indexes are built.\<close>

lemma copyTable_spec:
  assumes src: "Table_inv source" "tb_name source = n"
    and copy: "Database_inv copy" "Database_table n copy = None"
  shows "\<exists>copy1 t1. Database_createTable n (tb_schema source) copy = Inr (True, copy1) \<and>
    Table_replaceRows (Table_rowsSnapshot source) (the (Database_table n copy1)) = Inr t1 \<and>
    Table_inv t1 \<and> tb_name t1 = n \<and> tb_schema t1 = tb_schema source \<and> tb_indexColumns t1 = [] \<and>
    Table_rowsSnapshot t1 = Table_rowsSnapshot source \<and> Table_versions_current t1 \<and>
    (\<forall>t. Database_putTable n t copy1 = Database_putTable n t copy)"
proof -
  have "n \<noteq> []" "tb_schema source \<noteq> []" using src by (auto simp: Table_inv_def)
  then obtain t0 where t0: "Table_new n (tb_schema source) = Inr t0" "Table_inv t0" "tb_name t0 = n"
    "tb_schema t0 = tb_schema source" "tb_indexColumns t0 = []"
    using Table_new_spec by blast
  define copy1 where "copy1 = Database_putTable n t0 copy"
  have emplace: "omap_emplace str_less n t0 (db_tables copy) = omap_alter str_less n (\<lambda>_. t0) (db_tables copy)"
    using omap_alter_absent[of str_less n "db_tables copy" "\<lambda>old. case old of None \<Rightarrow> t0 | Some w \<Rightarrow> w" "\<lambda>_. t0"]
      copy(2) by (simp add: omap_emplace_def Database_table_def)
  have created: "Database_createTable n (tb_schema source) copy = Inr (True, copy1)"
    using t0(1) copy(2) by (simp add: Database_createTable_def copy1_def Database_putTable_def emplace)
  have at: "Database_table n copy1 = Some t0"
    using Database_table_putTable[OF copy(1)] by (simp add: copy1_def)
  have rows: "\<forall>r \<in> set (Table_rowsSnapshot source). row_ok (tb_schema t0) r"
    using src t0 by (simp add: Table_inv_def)
  obtain t1 where t1: "Table_replaceRows (Table_rowsSnapshot source) t0 = Inr t1" "Table_inv t1"
    "Table_rowsSnapshot t1 = Table_rowsSnapshot source" "same_definitions t0 t1"
    using Table_replaceRows_spec[OF t0(2) rows] by blast
  have "Table_versions_current t1" by (rule Table_replaceRows_versions[OF t0(2) rows t1(1)])
  moreover have "\<forall>t. Database_putTable n t copy1 = Database_putTable n t copy"
    using omap_alter_twice[of str_less n _ "\<lambda>_. t0" "db_tables copy"] str_order.irrefl
    by (simp add: Database_putTable_def copy1_def)
  ultimately show ?thesis using created at t0 t1 by (simp add: same_definitions_def)
qed

lemma Database_cloneTable_spec:
  assumes src: "Table_inv source" "tb_name source = n"
    and copy: "Database_inv copy" "Database_table n copy = None"
  shows "\<exists>t. Database_cloneTable source copy = Inr (Database_putTable n t copy) \<and>
    Table_inv t \<and> Table_content t = Table_content source \<and> Table_versions_current t"
proof -
  obtain copy1 t1 where c: "Database_createTable n (tb_schema source) copy = Inr (True, copy1)"
    "Table_replaceRows (Table_rowsSnapshot source) (the (Database_table n copy1)) = Inr t1"
    "\<forall>t. Database_putTable n t copy1 = Database_putTable n t copy"
    and t1: "Table_inv t1" "tb_name t1 = n" "tb_schema t1 = tb_schema source" "tb_indexColumns t1 = []"
    "Table_rowsSnapshot t1 = Table_rowsSnapshot source" "Table_versions_current t1"
    using copyTable_spec[OF assms] by blast
  let ?t = "create_indexes (Table_indexDefinitions source) t1"
  have t: "Table_inv ?t" "Table_content ?t = Table_content source" "tb_versions ?t = tb_versions t1"
    using create_indexes_spec[OF src(1) t1(1,3,4)] t1 src by (simp_all add: Table_content_def)
  then have "Table_versions_current ?t"
    using t1(5,6) by (simp add: Table_versions_current_def Table_content_def)
  moreover have "Database_cloneTable source copy = Inr (Database_putTable n ?t copy)"
    using src(2) c by (simp add: Database_cloneTable_def)
  ultimately show ?thesis using t by blast
qed

lemma Database_clone_loop:
  assumes "\<forall>(n, t) \<in> set (pre @ rest). Table_inv t \<and> tb_name t = n"
    and "omap_wf str_less (\<lambda>_. True) (pre @ rest)"
    and "Database_inv copy" and "map (\<lambda>(n, t). (n, Table_content t)) (db_tables copy) =
      map (\<lambda>(n, t). (n, Table_content t)) pre"
    and "\<forall>(n, t) \<in> set (db_tables copy). Table_versions_current t"
  shows "\<exists>db'. efold Database_cloneTable (map snd rest) copy = Inr db' \<and> Database_inv db' \<and>
    db_name db' = db_name copy \<and>
    map (\<lambda>(n, t). (n, Table_content t)) (db_tables db') = map (\<lambda>(n, t). (n, Table_content t)) (pre @ rest) \<and>
    (\<forall>(n, t) \<in> set (db_tables db'). Table_versions_current t)"
  using assms
proof (induction rest arbitrary: pre copy)
  case Nil
  then show ?case by simp
next
  case (Cons e rest)
  obtain n src where e: "e = (n, src)" by (cases e)
  have src: "Table_inv src" "tb_name src = n" using Cons.prems(1) e by auto
  have keys: "map fst (db_tables copy) = map fst pre"
    using arg_cong[OF Cons.prems(4), of "map fst"] by (simp add: comp_def split_beta)
  have before: "\<forall>a \<in> fst ` set (db_tables copy). str_less a n"
  proof -
    have "\<forall>a \<in> set (map fst pre). str_less a n"
      using Cons.prems(2) e by (auto simp: omap_wf_def sorted_wrt_append)
    then show ?thesis using keys by (metis list.set_map)
  qed
  have free: "Database_table n copy = None" unfolding Database_table_def by (rule omap_find_end) (rule before)
  obtain t where t: "Database_cloneTable src copy = Inr (Database_putTable n t copy)" "Table_inv t"
    "Table_content t = Table_content src" "Table_versions_current t"
    using Database_cloneTable_spec[OF src Cons.prems(3) free] by blast
  let ?copy = "Database_putTable n t copy"
  have tabs: "db_tables ?copy = db_tables copy @ [(n, t)]"
    using omap_alter_end[of "db_tables copy" str_less n] before by (simp add: Database_putTable_def)
  have "tb_name t = n" using t(3) src by (simp add: Table_content_def)
  then have inv: "Database_inv ?copy" using Database_putTable_inv Cons.prems(3) t(2) by blast
  have pre: "map (\<lambda>(n, t). (n, Table_content t)) (db_tables ?copy) =
      map (\<lambda>(n, t). (n, Table_content t)) (pre @ [e])"
    by (simp add: tabs Cons.prems(4) e t(3))
  have "\<forall>(n, t) \<in> set (db_tables ?copy). Table_versions_current t"
    using Cons.prems(5) t(4) by (simp add: tabs)
  from Cons.IH[OF _ _ inv pre this] Cons.prems(1,2) obtain db' where
    "efold Database_cloneTable (map snd rest) ?copy = Inr db'" "Database_inv db'"
    "db_name db' = db_name ?copy"
    "map (\<lambda>(n, t). (n, Table_content t)) (db_tables db') =
      map (\<lambda>(n, t). (n, Table_content t)) ((pre @ [e]) @ rest)"
    "\<forall>(n, t) \<in> set (db_tables db'). Table_versions_current t" by auto
  with t(1) e show ?case by (auto simp: Database_putTable_def)
qed

text \<open>A clone has the name and the content of the original, and version chains of its own.\<close>

lemma Database_clone_spec:
  assumes "Database_inv db"
  shows "\<exists>db'. Database_clone db = Inr db' \<and> Database_inv db' \<and>
    Database_content db' = Database_content db \<and>
    (\<forall>(n, t) \<in> set (db_tables db'). Table_versions_current t)"
proof -
  define copy where "copy = \<lparr>db_name = db_name db, db_tables = []\<rparr>"
  then have copy: "Database_new (db_name db) = Inr copy" "db_tables copy = []" "db_name copy = db_name db"
    using assms by (simp_all add: Database_new_def Database_inv_def)
  obtain db' where "efold Database_cloneTable (Database_tables db) copy = Inr db'" "Database_inv db'"
    "db_name db' = db_name copy"
    "map (\<lambda>(n, t). (n, Table_content t)) (db_tables db') = map (\<lambda>(n, t). (n, Table_content t)) (db_tables db)"
    "\<forall>(n, t) \<in> set (db_tables db'). Table_versions_current t"
    using Database_clone_loop[of "[]" "db_tables db" copy] assms Database_new_inv[OF copy(1)] copy(2)
    by (auto simp: Database_inv_def Database_tables_def)
  with copy show ?thesis by (auto simp: Database_clone_def Database_content_def)
qed

end
