(* ===== verification/Refinement.thy ===== *)
theory Refinement
  imports Prelude
begin

text \<open>
  Refinement of one machine by another. A machine takes a call to the next state and an answer;
  \<open>run\<close> performs a list of calls. The locale \<open>refinement\<close> is the contract between a component
  of the code and what it promises: a relation between their states that every admissible call
  keeps while both give the same answer. Its lemma \<open>run_refines\<close> carries a whole list of calls.
\<close>

fun run :: "('c \<Rightarrow> 's \<Rightarrow> 's \<times> 'a) \<Rightarrow> 'c list \<Rightarrow> 's \<Rightarrow> 's \<times> 'a list" where
  "run step [] s = (s, [])"
| "run step (c # cs) s =
     (case step c s of (s', a) \<Rightarrow> (case run step cs s' of (s'', answers) \<Rightarrow> (s'', a # answers)))"

definition answers :: "('c \<Rightarrow> 's \<Rightarrow> 's \<times> 'a) \<Rightarrow> 'c list \<Rightarrow> 's \<Rightarrow> 'a list" where
  "answers step cs s = snd (run step cs s)"

lemma run_append:
  "run step (cs @ ds) s =
    (case run step cs s of (s', xs) \<Rightarrow> (case run step ds s' of (s'', ys) \<Rightarrow> (s'', xs @ ys)))"
  by (induction cs arbitrary: s) (simp_all add: case_prod_beta)

lemma run_length: "length (snd (run step cs s)) = length cs"
  by (induction cs arbitrary: s) (simp_all add: case_prod_beta)

text \<open>An invariant of the calls is an invariant of the run.\<close>

lemma run_invariant:
  assumes "\<And>s c. P s \<Longrightarrow> ok c \<Longrightarrow> P (fst (step c s))" and "P s" and "list_all ok cs"
  shows "P (fst (run step cs s))"
  using assms(2,3)
proof (induction cs arbitrary: s)
  case Nil
  then show ?case by simp
next
  case (Cons c cs)
  from Cons.prems have "P (fst (step c s))" using assms(1) by simp
  with Cons show ?case by (simp add: case_prod_beta Cons.IH)
qed

locale refinement =
  fixes conc :: "'c \<Rightarrow> 's \<Rightarrow> 's \<times> 'a"
    and spec :: "'c \<Rightarrow> 't \<Rightarrow> 't \<times> 'a"
    and rel :: "'s \<Rightarrow> 't \<Rightarrow> bool"
    and ok :: "'c \<Rightarrow> bool"
  assumes step_refines: "rel s t \<Longrightarrow> ok c \<Longrightarrow>
    rel (fst (conc c s)) (fst (spec c t)) \<and> snd (conc c s) = snd (spec c t)"
begin

lemma run_refines:
  assumes "rel s t" and "list_all ok cs"
  shows "rel (fst (run conc cs s)) (fst (run spec cs t)) \<and> snd (run conc cs s) = snd (run spec cs t)"
  using assms
proof (induction cs arbitrary: s t)
  case Nil
  then show ?case by simp
next
  case (Cons c cs)
  then have c: "rel (fst (conc c s)) (fst (spec c t))" "snd (conc c s) = snd (spec c t)"
    using step_refines by simp_all
  with Cons.IH[OF c(1)] Cons.prems show ?case by (simp add: case_prod_beta)
qed

lemma answers_refine: "rel s t \<Longrightarrow> list_all ok cs \<Longrightarrow> answers conc cs s = answers spec cs t"
  using run_refines by (simp add: answers_def)

end

end
