(* ===== verification/TableCalls.thy ===== *)
theory TableCalls
  imports Refinement Table
begin

text \<open>
  A table as a machine over its public operations, and what it refines, in two layers.
  \<^item> \<open>table_spec\<close> holds the schema, the rows and the names of the indexed columns, and answers every
    call but four. What the indexes, the pages and the versions hold is not part of this promise;
    that every operation keeps them in step with the rows is the refinement.
  \<^item> \<open>full_table_spec\<close> adds the name and, per row id, the versions written under it, and answers all
    calls. It shows what \<open>erase\<close> does to versions: it marks the last version of the id deleted and
    moves none, while the rows behind the erased one move up by one.
\<close>

datatype table_call =
    TableInsert row | TableErase row_id | TableUpdate row_id nat sql_value
  | TableReplaceRows "row list" | TableCreateIndex string string
  | TableLookup string sql_value | TableFindIndexed string sql_value
  | TableRange string comparison_operator sql_value
  | TableScan | TableRowsById "row_id list" | TableCount
  | TableSchema | TableColumnIndex string | TableValidateRow row
  | TableHasIndex string | TableHasOrderedIndex string | TableListIndexes | TableIndexDefinitions
  | TableName | TableScanAt transaction_id | TableRowsByIdAt "row_id list" transaction_id
  | TableVersionCount row_id

datatype table_answer =
    TRowId row_id | TBool bool | TDone | TRows "row list" | TCount nat
  | TIds "row_id list option" | TFound "row_id list" | TColumns "column list" | TPlace "nat option"
  | TNames "string list" | TDefinitions "(string \<times> string) list" | TNamed string
  | TInvalid | TError exn

text \<open>An operation that throws leaves the table as it was: the code validates before it writes.\<close>

definition table_failure :: "vtable \<Rightarrow> exn \<Rightarrow> vtable \<times> table_answer" where
  "table_failure t e = (t, case e of InvalidArgument _ \<Rightarrow> TInvalid | _ \<Rightarrow> TError e)"

fun Table_call :: "table_call \<Rightarrow> vtable \<Rightarrow> vtable \<times> table_answer" where
  "Table_call (TableInsert r) t =
     (case Table_insert r t of Inl e \<Rightarrow> table_failure t e | Inr (i, t') \<Rightarrow> (t', TRowId i))"
| "Table_call (TableErase i) t =
     (case Table_erase i t of Inl e \<Rightarrow> table_failure t e | Inr (b, t') \<Rightarrow> (t', TBool b))"
| "Table_call (TableUpdate i c v) t =
     (case Table_update i c v t of Inl e \<Rightarrow> table_failure t e | Inr (b, t') \<Rightarrow> (t', TBool b))"
| "Table_call (TableReplaceRows rows) t =
     (case Table_replaceRows rows t of Inl e \<Rightarrow> table_failure t e | Inr t' \<Rightarrow> (t', TDone))"
| "Table_call (TableCreateIndex name column) t =
     (case Table_createIndex name column t of (b, t') \<Rightarrow> (t', TBool b))"
| "Table_call (TableLookup column v) t =
     (case Table_indexedLookup column v t of Inl e \<Rightarrow> table_failure t e | Inr ids \<Rightarrow> (t, TIds ids))"
| "Table_call (TableFindIndexed column v) t =
     (case Table_findIndexed column v t of Inl e \<Rightarrow> table_failure t e | Inr ids \<Rightarrow> (t, TFound ids))"
| "Table_call (TableRange column op v) t =
     (case Table_orderedLookup column op v t of
        Inl e \<Rightarrow> table_failure t e | Inr ids \<Rightarrow> (t, TIds ids))"
| "Table_call TableScan t = (t, TRows (Table_rowsSnapshot t))"
| "Table_call (TableRowsById ids) t = (t, TRows (Table_rowsById ids t))"
| "Table_call TableCount t = (t, TCount (Table_rowCount t))"
| "Table_call TableSchema t = (t, TColumns (tb_schema t))"
| "Table_call (TableColumnIndex column) t = (t, TPlace (Table_columnIndex column t))"
| "Table_call (TableValidateRow r) t =
     (case Table_validateRow r t of Inl e \<Rightarrow> table_failure t e | Inr _ \<Rightarrow> (t, TDone))"
| "Table_call (TableHasIndex column) t = (t, TBool (Table_hasIndex column t))"
| "Table_call (TableHasOrderedIndex column) t = (t, TBool (Table_hasOrderedIndex column t))"
| "Table_call TableListIndexes t = (t, TNames (Table_listIndexes t))"
| "Table_call TableIndexDefinitions t = (t, TDefinitions (Table_indexDefinitions t))"
| "Table_call TableName t = (t, TNamed (tb_name t))"
| "Table_call (TableScanAt readerId) t = (t, TRows (Table_rowsSnapshotAt readerId t))"
| "Table_call (TableRowsByIdAt ids readerId) t = (t, TRows (Table_rowsByIdAt ids readerId t))"
| "Table_call (TableVersionCount i) t = (t, TCount (Table_versionCount i t))"

text \<open>No value of the call is a NaN, which no index and no comparison can place.\<close>

fun table_call_ok :: "table_call \<Rightarrow> bool" where
  "table_call_ok (TableInsert r) \<longleftrightarrow> (\<forall>v \<in> set r. value_ok v)"
| "table_call_ok (TableUpdate i c v) \<longleftrightarrow> value_ok v"
| "table_call_ok (TableReplaceRows rows) \<longleftrightarrow> (\<forall>r \<in> set rows. \<forall>v \<in> set r. value_ok v)"
| "table_call_ok (TableLookup column v) \<longleftrightarrow> value_ok v"
| "table_call_ok (TableFindIndexed column v) \<longleftrightarrow> value_ok v"
| "table_call_ok (TableRange column op v) \<longleftrightarrow> value_ok v"
| "table_call_ok _ \<longleftrightarrow> True"

text \<open>The calls the rows and the definitions answer.\<close>

fun content_call :: "table_call \<Rightarrow> bool" where
  "content_call TableName \<longleftrightarrow> False"
| "content_call (TableScanAt readerId) \<longleftrightarrow> False"
| "content_call (TableRowsByIdAt ids readerId) \<longleftrightarrow> False"
| "content_call (TableVersionCount i) \<longleftrightarrow> False"
| "content_call _ \<longleftrightarrow> True"

section \<open>The promise\<close>

type_synonym table_state = "column list \<times> row list \<times> (string \<times> nat) list"

definition indexed_column :: "string \<Rightarrow> column list \<Rightarrow> (string \<times> nat) list \<Rightarrow> bool" where
  "indexed_column column schema ics \<longleftrightarrow> (\<exists>(_, c) \<in> set ics. col_name (schema ! c) = column)"

fun table_spec :: "table_call \<Rightarrow> table_state \<Rightarrow> table_state \<times> table_answer" where
  "table_spec (TableInsert r) (schema, rows, ics) =
     (if row_fits schema r then ((schema, rows @ [r], ics), TRowId (length rows))
      else ((schema, rows, ics), TInvalid))"
| "table_spec (TableErase i) (schema, rows, ics) =
     ((schema, if i < length rows then remove_nth i rows else rows, ics), TBool (i < length rows))"
| "table_spec (TableUpdate i c v) (schema, rows, ics) =
     (if length rows \<le> i \<or> length schema \<le> c then ((schema, rows, ics), TBool False)
      else if cell_fits (schema ! c) v then ((schema, rows[i := (rows ! i)[c := v]], ics), TBool True)
      else ((schema, rows, ics), TInvalid))"
| "table_spec (TableReplaceRows rows') (schema, rows, ics) =
     (if list_all (row_fits schema) rows' then ((schema, rows', ics), TDone)
      else ((schema, rows, ics), TInvalid))"
| "table_spec (TableCreateIndex name column) (schema, rows, ics) =
     (case find_column column schema of
        None \<Rightarrow> ((schema, rows, ics), TBool False)
      | Some c \<Rightarrow>
          if omap_find str_less name ics = None
          then ((schema, rows, omap_emplace str_less name c ics), TBool True)
          else ((schema, rows, ics), TBool False))"
| "table_spec (TableLookup column v) (schema, rows, ics) =
     ((schema, rows, ics),
      TIds (if indexed_column column schema ics
            then Some (positions (\<lambda>r. Value_eq (r ! the (find_column column schema)) v) rows) else None))"
| "table_spec (TableFindIndexed column v) (schema, rows, ics) =
     ((schema, rows, ics),
      TFound (if indexed_column column schema ics
              then positions (\<lambda>r. Value_eq (r ! the (find_column column schema)) v) rows else []))"
| "table_spec (TableRange column op v) (schema, rows, ics) =
     ((schema, rows, ics),
      TIds (if indexed_column column schema ics
            then Some (range_ids op v (the (find_column column schema)) rows) else None))"
| "table_spec TableScan (schema, rows, ics) = ((schema, rows, ics), TRows rows)"
| "table_spec (TableRowsById ids) (schema, rows, ics) =
     ((schema, rows, ics), TRows (map ((!) rows) (filter (\<lambda>i. i < length rows) ids)))"
| "table_spec TableCount (schema, rows, ics) = ((schema, rows, ics), TCount (length rows))"
| "table_spec TableSchema (schema, rows, ics) = ((schema, rows, ics), TColumns schema)"
| "table_spec (TableColumnIndex column) (schema, rows, ics) =
     ((schema, rows, ics), TPlace (find_column column schema))"
| "table_spec (TableValidateRow r) (schema, rows, ics) =
     ((schema, rows, ics), if row_fits schema r then TDone else TInvalid)"
| "table_spec (TableHasIndex column) (schema, rows, ics) =
     ((schema, rows, ics), TBool (indexed_column column schema ics))"
| "table_spec (TableHasOrderedIndex column) (schema, rows, ics) =
     ((schema, rows, ics), TBool (indexed_column column schema ics))"
| "table_spec TableListIndexes (schema, rows, ics) = ((schema, rows, ics), TNames (map fst ics))"
| "table_spec TableIndexDefinitions (schema, rows, ics) =
     ((schema, rows, ics), TDefinitions (map (\<lambda>(name, c). (name, col_name (schema ! c))) ics))"
| "table_spec _ (schema, rows, ics) = ((schema, rows, ics), TDone)"

text \<open>
  The versions: for each row id the list written under it, oldest first, and the id of the next
  write.
\<close>

type_synonym version_state = "row_version list list \<times> transaction_id"

fun version_write :: "row_id \<Rightarrow> row \<Rightarrow> version_state \<Rightarrow> version_state" where
  "version_write i r (vss, n) =
     (let v = \<lparr>rv_createdBy = n, rv_deletedBy = None, rv_row = r\<rparr>
      in (if i < length vss then vss[i := vss ! i @ [v]] else vss @ [[v]], n + 1))"

fun version_erase :: "row_id \<Rightarrow> version_state \<Rightarrow> version_state" where
  "version_erase i (vss, n) = (vss[i := mark_deleted n (vss ! i)], n + 1)"

fun version_spec :: "table_call \<Rightarrow> table_state \<Rightarrow> version_state \<Rightarrow> version_state" where
  "version_spec (TableInsert r) (schema, rows, ics) vs =
     (if row_fits schema r then version_write (length rows) r vs else vs)"
| "version_spec (TableErase i) (schema, rows, ics) vs =
     (if i < length rows then version_erase i vs else vs)"
| "version_spec (TableUpdate i c v) (schema, rows, ics) vs =
     (if i < length rows \<and> c < length schema \<and> cell_fits (schema ! c) v
      then version_write i ((rows ! i)[c := v]) vs else vs)"
| "version_spec (TableReplaceRows rows') (schema, rows, ics) vs =
     (if list_all (row_fits schema) rows'
      then fold (\<lambda>i. version_write i (rows' ! i)) [0..<length rows'] ([], 1) else vs)"
| "version_spec _ st vs = vs"

definition versions_at :: "row_id \<Rightarrow> version_state \<Rightarrow> row_version list" where
  "versions_at i vs = (if i < length (fst vs) then fst vs ! i else [])"

type_synonym full_table_state = "string \<times> table_state \<times> version_state"

fun full_table_spec :: "table_call \<Rightarrow> full_table_state \<Rightarrow> full_table_state \<times> table_answer" where
  "full_table_spec c (name, st, vs) =
     ((name, fst (table_spec c st), version_spec c st vs),
      case c of
        TableName \<Rightarrow> TNamed name
      | TableScanAt readerId \<Rightarrow> TRows (List.map_filter (newest_visible readerId) (fst vs))
      | TableRowsByIdAt ids readerId \<Rightarrow>
          TRows (List.map_filter (\<lambda>i. newest_visible readerId (versions_at i vs)) ids)
      | TableVersionCount i \<Rightarrow> TCount (length (versions_at i vs))
      | _ \<Rightarrow> snd (table_spec c st))"

definition table_rel :: "vtable \<Rightarrow> table_state \<Rightarrow> bool" where
  "table_rel t st \<longleftrightarrow> Table_inv t \<and> st = (tb_schema t, Table_rowsSnapshot t, tb_indexColumns t)"

section \<open>Refinement\<close>

lemma omap_find_same_names:
  "map fst m = map fst m' \<Longrightarrow> omap_find lt k m = None \<longleftrightarrow> omap_find lt k m' = None"
proof (induction m arbitrary: m')
  case Nil
  then show ?case by simp
next
  case (Cons p m)
  then obtain p' m'' where m': "m' = p' # m''" "fst p' = fst p" "map fst m = map fst m''"
    by (cases m') auto
  with Cons.IH[OF m'(3)] show ?case by (cases p; cases p') auto
qed

lemma Table_index_free:
  "Table_inv t \<Longrightarrow> omap_find str_less name (tb_indexes t) = None \<longleftrightarrow>
   omap_find str_less name (tb_indexColumns t) = None"
  by (rule omap_find_same_names) (auto simp: Table_inv_def dest: Table_indexed_names)

lemma Table_hasIndex_indexed: "Table_hasIndex column t \<longleftrightarrow> indexed_column column (tb_schema t) (tb_indexColumns t)"
  by (simp add: Table_hasIndex_def indexed_column_def)

definition call_refines :: "table_call \<Rightarrow> vtable \<Rightarrow> bool" where
  "call_refines c t \<longleftrightarrow>
     (let st = (tb_schema t, Table_rowsSnapshot t, tb_indexColumns t)
      in table_rel (fst (Table_call c t)) (fst (table_spec c st)) \<and>
         snd (Table_call c t) = snd (table_spec c st))"

lemma insert_refines:
  assumes inv: "Table_inv t" and ok: "\<forall>v \<in> set r. value_ok v"
  shows "call_refines (TableInsert r) t"
proof (cases "row_fits (tb_schema t) r")
  case True
  with ok have r: "row_ok (tb_schema t) r" by (simp add: row_ok_def)
  show ?thesis using Table_insert_spec[OF inv r] True
    by (auto simp: call_refines_def table_rel_def same_definitions_def)
next
  case False
  then show ?thesis using Table_insert_invalid[OF False] inv
    by (auto simp: call_refines_def table_rel_def table_failure_def)
qed

lemma erase_refines: "Table_inv t \<Longrightarrow> call_refines (TableErase i) t"
  using Table_erase_spec[of t i] by (auto simp: call_refines_def table_rel_def same_definitions_def)

lemma update_refines:
  assumes inv: "Table_inv t" and ok: "value_ok v"
  shows "call_refines (TableUpdate i c v) t"
proof (cases "length (Table_rowsSnapshot t) \<le> i \<or> length (tb_schema t) \<le> c")
  case True
  then show ?thesis using Table_update_beyond[OF inv] inv by (simp add: call_refines_def table_rel_def)
next
  case False
  then have i: "i < length (Table_rowsSnapshot t)" "c < length (tb_schema t)" by auto
  show ?thesis
  proof (cases "cell_fits (tb_schema t ! c) v")
    case True
    show ?thesis using Table_update_spec[OF inv i True ok] True i
      by (auto simp: call_refines_def table_rel_def same_definitions_def)
  next
    case False
    show ?thesis using Table_update_invalid[OF inv i False] False i inv
      by (auto simp: call_refines_def table_rel_def table_failure_def)
  qed
qed

lemma replaceRows_refines:
  assumes inv: "Table_inv t" and ok: "\<forall>r \<in> set rows. \<forall>v \<in> set r. value_ok v"
  shows "call_refines (TableReplaceRows rows) t"
proof (cases "list_all (row_fits (tb_schema t)) rows")
  case True
  with ok have rows: "\<forall>r \<in> set rows. row_ok (tb_schema t) r" by (auto simp: row_ok_def list_all_iff)
  show ?thesis using Table_replaceRows_spec[OF inv rows] True
    by (auto simp: call_refines_def table_rel_def same_definitions_def)
next
  case False
  then obtain r where "r \<in> set rows" "\<not> row_fits (tb_schema t) r" by (auto simp: list_all_iff)
  then show ?thesis using Table_replaceRows_invalid[of r rows t] False inv
    by (auto simp: call_refines_def table_rel_def table_failure_def)
qed

lemma createIndex_refines:
  assumes inv: "Table_inv t"
  shows "call_refines (TableCreateIndex name column) t"
proof -
  obtain t' where t': "Table_createIndex name column t =
      (column \<in> col_name ` set (tb_schema t) \<and> omap_find str_less name (tb_indexes t) = None, t')"
    "Table_inv t'" "Table_rowsSnapshot t' = Table_rowsSnapshot t" "tb_schema t' = tb_schema t"
    "tb_indexColumns t' =
      (case Table_columnIndex column t of
         None \<Rightarrow> tb_indexColumns t
       | Some c \<Rightarrow> if omap_find str_less name (tb_indexes t) = None
           then omap_emplace str_less name c (tb_indexColumns t) else tb_indexColumns t)"
    using Table_createIndex_spec[OF inv] by blast
  show ?thesis
  proof (cases "Table_columnIndex column t")
    case None
    with t' Table_columnIndex_None[of column t] show ?thesis
      by (simp add: call_refines_def table_rel_def Table_columnIndex_def)
  next
    case (Some c)
    with t' Table_columnIndex_None[of column t] Table_index_free[OF inv] show ?thesis
      by (auto simp: call_refines_def table_rel_def Table_columnIndex_def)
  qed
qed

lemma lookup_refines:
  assumes inv: "Table_inv t" and ok: "value_ok v"
  shows "call_refines (TableLookup column v) t" and "call_refines (TableFindIndexed column v) t"
    and "call_refines (TableRange column op v) t"
proof -
  note unindexed = Table_lookup_unindexed[of column t v op]
  show "call_refines (TableLookup column v) t"
    using Table_indexedLookup_rows[OF inv ok, of column] unindexed inv
    by (cases "Table_hasIndex column t")
      (auto simp: call_refines_def table_rel_def Table_hasIndex_indexed Table_columnIndex_def)
  show "call_refines (TableFindIndexed column v) t"
    using Table_indexedLookup_rows[OF inv ok, of column] unindexed inv
    by (cases "Table_hasIndex column t")
      (auto simp: call_refines_def table_rel_def Table_hasIndex_indexed Table_columnIndex_def Table_findIndexed_def)
  show "call_refines (TableRange column op v) t"
    using Table_orderedLookup_rows[OF inv ok, of column op] unindexed inv
    by (cases "Table_hasIndex column t")
      (auto simp: call_refines_def table_rel_def Table_hasIndex_indexed Table_columnIndex_def)
qed

lemma rowsById_refines: "Table_inv t \<Longrightarrow> call_refines (TableRowsById ids) t"
  using page_store.rowsById_abs[OF Table_inv_store]
  by (simp add: call_refines_def table_rel_def Table_rowsById_def Table_rowsSnapshot_def)

lemma validateRow_refines:
  assumes "Table_inv t"
  shows "call_refines (TableValidateRow r) t"
proof (cases "row_fits (tb_schema t) r")
  case True
  then have "Table_validateRow r t = Inr ()" by (simp add: Table_validateRow_Inr)
  with True assms show ?thesis by (simp add: call_refines_def table_rel_def)
next
  case False
  with Table_validateRow_Inl[OF False] assms show ?thesis
    by (auto simp: call_refines_def table_rel_def table_failure_def)
qed

lemma reading_refines:
  assumes "Table_inv t"
  shows "call_refines TableScan t" "call_refines TableCount t" "call_refines TableSchema t"
    "call_refines (TableColumnIndex column) t" "call_refines (TableHasIndex column) t"
    "call_refines (TableHasOrderedIndex column) t" "call_refines TableListIndexes t"
    "call_refines TableIndexDefinitions t"
  using assms Table_inv_names
  by (simp_all add: call_refines_def table_rel_def Table_rowCount_rows Table_columnIndex_def
      Table_hasIndex_indexed Table_hasOrderedIndex_def Table_listIndexes_def Table_indexDefinitions_def)

lemma content_refines:
  assumes "Table_inv t" and "table_call_ok c" and "content_call c"
  shows "call_refines c t"
  using assms
  by (cases c) (auto intro: insert_refines erase_refines update_refines replaceRows_refines
        createIndex_refines lookup_refines rowsById_refines validateRow_refines reading_refines)

interpretation table_refines: refinement Table_call table_spec table_rel
  "\<lambda>c. table_call_ok c \<and> content_call c"
proof unfold_locales
  fix t st c
  assume rel: "table_rel t st" and ok: "table_call_ok c \<and> content_call c"
  then have inv: "Table_inv t" and st: "st = (tb_schema t, Table_rowsSnapshot t, tb_indexColumns t)"
    by (simp_all add: table_rel_def)
  with ok have "call_refines c t" by (simp add: content_refines)
  then show "table_rel (fst (Table_call c t)) (fst (table_spec c st)) \<and>
      snd (Table_call c t) = snd (table_spec c st)"
    by (simp add: call_refines_def st Let_def)
qed

section \<open>Versions by row id\<close>

text \<open>The ordered map of the version store has the row ids from 0 on as its keys.\<close>

lemma omap_find_enumerate:
  "omap_find (<) i (List.enumerate k xs) = (if k \<le> i \<and> i < k + length xs then Some (xs ! (i - k)) else None)"
proof (induction xs arbitrary: k)
  case (Cons x xs)
  then show ?case by (auto simp: nth_Cons' Suc_le_eq)
qed simp

lemma omap_alter_enumerate:
  "k \<le> i \<Longrightarrow> i < k + length xs \<Longrightarrow>
   omap_alter (<) i f (List.enumerate k xs) = List.enumerate k (xs[i - k := f (Some (xs ! (i - k)))])"
proof (induction xs arbitrary: k)
  case (Cons x xs)
  show ?case
  proof (cases "i = k")
    case False
    with Cons.prems have "i - k = Suc (i - Suc k)" by simp
    with False Cons show ?thesis by simp
  qed simp
qed simp

lemma omap_alter_enumerate_end:
  "omap_alter (<) (k + length xs) f (List.enumerate k xs) = List.enumerate k (xs @ [f None])"
proof -
  have "\<forall>a \<in> fst ` set (List.enumerate k xs). a < k + length xs" by (auto simp: in_set_enumerate_eq)
  then show ?thesis by (simp add: omap_alter_end enumerate_append_eq)
qed

definition versions_rel :: "mvcc_row_store \<Rightarrow> row_version list list \<Rightarrow> bool" where
  "versions_rel st vss \<longleftrightarrow> mv_versions st = List.enumerate 0 vss"

lemma versions_rel_new: "versions_rel MVCCRowStore_new []"
  by (simp add: versions_rel_def MVCCRowStore_new_def)

lemma versions_rel_write:
  assumes "versions_rel st vss" and "i \<le> length vss"
  shows "versions_rel (MVCCRowStore_write i r n st) (fst (version_write i r (vss, n)))"
  using assms omap_alter_enumerate[of 0 i vss] omap_alter_enumerate_end[of 0 vss]
  by (cases "i < length vss") (auto simp: versions_rel_def MVCCRowStore_write_def)

lemma versions_rel_erase:
  assumes "versions_rel st vss" and "i < length vss"
  shows "versions_rel (MVCCRowStore_erase i n st) (fst (version_erase i (vss, n)))"
  using assms omap_alter_enumerate[of 0 i vss]
  by (simp add: versions_rel_def MVCCRowStore_erase_def omap_find_enumerate)

lemma versions_rel_reads:
  assumes "versions_rel st vss"
  shows "MVCCRowStore_read i readerId st = newest_visible readerId (versions_at i (vss, n))"
    and "MVCCRowStore_visibleRows readerId st = List.map_filter (newest_visible readerId) vss"
    and "MVCCRowStore_versionCount i st = length (versions_at i (vss, n))"
proof -
  show read: "MVCCRowStore_read i readerId st = newest_visible readerId (versions_at i (vss, n))" for i
    using assms by (simp add: versions_rel_def MVCCRowStore_read_def omap_find_enumerate versions_at_def
        newest_visible_def)
  have "map (\<lambda>i. versions_at i (vss, n)) [0..<length vss] = vss"
    by (rule nth_equalityI) (simp_all add: versions_at_def)
  then show "MVCCRowStore_visibleRows readerId st = List.map_filter (newest_visible readerId) vss"
    using assms map_filter_map_comp[of "newest_visible readerId" "\<lambda>i. versions_at i (vss, n)" "[0..<length vss]"]
    by (simp add: MVCCRowStore_visibleRows_def versions_rel_def read)
  show "MVCCRowStore_versionCount i st = length (versions_at i (vss, n))"
    using assms by (simp add: versions_rel_def MVCCRowStore_versionCount_def omap_find_enumerate versions_at_def)
qed

section \<open>The full refinement\<close>

definition full_table_rel :: "vtable \<Rightarrow> full_table_state \<Rightarrow> bool" where
  "full_table_rel t full \<longleftrightarrow>
     (case full of (name, st, vss, n) \<Rightarrow>
        table_rel t st \<and> tb_name t = name \<and> versions_rel (tb_versions t) vss \<and>
        length (Table_rowsSnapshot t) \<le> length vss \<and> tb_nextVersionTransactionId t = n)"

text \<open>What a call keeps besides the rows: the name, and the versions in step.\<close>

definition call_tracks :: "table_call \<Rightarrow> vtable \<Rightarrow> bool" where
  "call_tracks c t \<longleftrightarrow>
     (\<forall>vss. versions_rel (tb_versions t) vss \<longrightarrow> length (Table_rowsSnapshot t) \<le> length vss \<longrightarrow>
       (let st = (tb_schema t, Table_rowsSnapshot t, tb_indexColumns t);
            vs' = version_spec c st (vss, tb_nextVersionTransactionId t); t' = fst (Table_call c t)
        in tb_name t' = tb_name t \<and> versions_rel (tb_versions t') (fst vs') \<and>
           length (Table_rowsSnapshot t') \<le> length (fst vs') \<and>
           tb_nextVersionTransactionId t' = snd vs'))"

lemma insert_tracks:
  assumes inv: "Table_inv t" and ok: "\<forall>v \<in> set r. value_ok v"
  shows "call_tracks (TableInsert r) t"
proof (cases "row_fits (tb_schema t) r")
  case True
  with ok have r: "row_ok (tb_schema t) r" by (simp add: row_ok_def)
  show ?thesis
    using Table_insert_spec[OF inv r] True versions_rel_write[of "tb_versions t"]
    by (fastforce simp: call_tracks_def same_definitions_def Let_def)
next
  case False
  then show ?thesis using Table_insert_invalid[OF False]
    by (auto simp: call_tracks_def table_failure_def)
qed

lemma erase_tracks:
  assumes "Table_inv t"
  shows "call_tracks (TableErase i) t"
  using Table_erase_spec[OF assms, of i] versions_rel_erase[of "tb_versions t" _ i]
    length_remove_nth[of i "Table_rowsSnapshot t"]
  by (fastforce simp: call_tracks_def same_definitions_def)

lemma update_tracks:
  assumes inv: "Table_inv t" and ok: "value_ok v"
  shows "call_tracks (TableUpdate i c v) t"
proof (cases "length (Table_rowsSnapshot t) \<le> i \<or> length (tb_schema t) \<le> c")
  case True
  then show ?thesis using Table_update_beyond[OF inv] by (auto simp: call_tracks_def)
next
  case False
  then have i: "i < length (Table_rowsSnapshot t)" "c < length (tb_schema t)" by auto
  show ?thesis
  proof (cases "cell_fits (tb_schema t ! c) v")
    case True
    show ?thesis
      using Table_update_spec[OF inv i True ok] True i versions_rel_write[of "tb_versions t" _ i]
      by (fastforce simp: call_tracks_def same_definitions_def Let_def)
  next
    case False
    show ?thesis using Table_update_invalid[OF inv i False] False i
      by (auto simp: call_tracks_def table_failure_def)
  qed
qed

text \<open>\<open>replaceRows\<close> starts the versions anew, one per row.\<close>

lemma writeVersions_tracks:
  assumes rs: "PageRowStore_inv (tb_rowStore t)" and "tb_versions t = MVCCRowStore_new"
    and "tb_nextVersionTransactionId t = 1" and "k \<le> length (Table_rowsSnapshot t)"
  shows "\<exists>vss n. fold (\<lambda>i. version_write i (Table_rowsSnapshot t ! i)) [0..<k] ([], 1) = (vss, n) \<and>
    versions_rel (tb_versions (fold Table_writeVersion [0..<k] t)) vss \<and> length vss = k \<and>
    tb_nextVersionTransactionId (fold Table_writeVersion [0..<k] t) = n"
  using assms(4)
proof (induction k)
  case 0
  then show ?case using assms(2,3) versions_rel_new by simp
next
  case (Suc k)
  define u where "u = fold Table_writeVersion [0..<k] t"
  have "tb_rowStore u = tb_rowStore t"
    using Table_writeVersions_frame[OF u_def] by (simp add: same_but_indexes_def)
  then have get: "PageRowStore_get k (tb_rowStore u) = Some (Table_rowsSnapshot t ! k)"
    using page_store.get_abs[OF rs, of k] Suc.prems by (simp add: Table_rowsSnapshot_def)
  obtain vss n where vss: "fold (\<lambda>i. version_write i (Table_rowsSnapshot t ! i)) [0..<k] ([], 1) = (vss, n)"
    "versions_rel (tb_versions u) vss" "length vss = k" "tb_nextVersionTransactionId u = n"
    using Suc by (auto simp: u_def)
  obtain vss' n' where vss': "version_write k (Table_rowsSnapshot t ! k) (vss, n) = (vss', n')" by fastforce
  have "versions_rel (tb_versions (Table_writeVersion k u)) vss'"
    using versions_rel_write[OF vss(2), of k "Table_rowsSnapshot t ! k" n] vss get vss'
    by (simp add: Table_writeVersion_def)
  moreover have "length vss' = Suc k \<and> tb_nextVersionTransactionId (Table_writeVersion k u) = n'"
    using vss vss' by (auto simp: Table_writeVersion_def Let_def)
  moreover have "fold Table_writeVersion [0..<Suc k] t = Table_writeVersion k u"
    by (simp add: u_def)
  ultimately show ?case using vss(1) vss' by (simp del: version_write.simps)
qed

lemma replaceRows_tracks:
  assumes inv: "Table_inv t" and ok: "\<forall>r \<in> set rows. \<forall>v \<in> set r. value_ok v"
  shows "call_tracks (TableReplaceRows rows) t"
proof (cases "list_all (row_fits (tb_schema t)) rows")
  case True
  with ok have rows: "\<forall>r \<in> set rows. row_ok (tb_schema t) r" by (auto simp: row_ok_def list_all_iff)
  let ?t = "t\<lparr>tb_rowStore := PageRowStore_replaceRows rows (tb_rowStore t),
         tb_versions := MVCCRowStore_new, tb_nextVersionTransactionId := 1\<rparr>"
  have rs: "PageRowStore_inv (tb_rowStore ?t)" "Table_rowsSnapshot ?t = rows"
    using page_store.replaceRows_inv[OF Table_inv_store[OF inv]]
      page_store.replaceRows_abs[OF Table_inv_store[OF inv]] by (simp_all add: Table_rowsSnapshot_def)
  obtain vss n where vss: "fold (\<lambda>i. version_write i (rows ! i)) [0..<length rows] ([], 1) = (vss, n)"
    "versions_rel (tb_versions (fold Table_writeVersion [0..<length rows] ?t)) vss" "length vss = length rows"
    "tb_nextVersionTransactionId (fold Table_writeVersion [0..<length rows] ?t) = n"
    using writeVersions_tracks[OF rs(1), of "length rows"] rs(2) by auto
  obtain t' where "Table_replaceRows rows t = Inr t'" "Table_rowsSnapshot t' = rows"
    "same_definitions t t'" "tb_versions t' = tb_versions (fold Table_writeVersion [0..<length rows] ?t)"
    "tb_nextVersionTransactionId t' = tb_nextVersionTransactionId (fold Table_writeVersion [0..<length rows] ?t)"
    using Table_replaceRows_spec[OF inv rows] by blast
  with vss True show ?thesis
    by (simp add: call_tracks_def same_definitions_def del: version_write.simps)
next
  case False
  then obtain r where "r \<in> set rows" "\<not> row_fits (tb_schema t) r" by (auto simp: list_all_iff)
  then show ?thesis using Table_replaceRows_invalid[of r rows t] False
    by (auto simp: call_tracks_def table_failure_def)
qed

lemma createIndex_tracks:
  assumes "Table_inv t"
  shows "call_tracks (TableCreateIndex name column) t"
  using Table_createIndex_spec[OF assms, of name column] by (auto simp: call_tracks_def)

text \<open>The calls that only read.\<close>

fun reading_call :: "table_call \<Rightarrow> bool" where
  "reading_call (TableInsert r) \<longleftrightarrow> False"
| "reading_call (TableErase i) \<longleftrightarrow> False"
| "reading_call (TableUpdate i c v) \<longleftrightarrow> False"
| "reading_call (TableReplaceRows rows) \<longleftrightarrow> False"
| "reading_call (TableCreateIndex name column) \<longleftrightarrow> False"
| "reading_call _ \<longleftrightarrow> True"

lemma reading_call_same: "reading_call c \<Longrightarrow> fst (Table_call c t) = t"
  by (cases c) (simp_all add: table_failure_def split: sum.split)

lemma reading_tracks: "reading_call c \<Longrightarrow> call_tracks c t"
  by (cases c) (simp_all add: call_tracks_def reading_call_same del: Table_call.simps)

lemma calls_track:
  assumes "Table_inv t" and "table_call_ok c"
  shows "call_tracks c t"
proof (cases "reading_call c")
  case True
  then show ?thesis by (rule reading_tracks)
next
  case False
  with assms show ?thesis
    by (cases c) (auto intro: insert_tracks erase_tracks update_tracks replaceRows_tracks createIndex_tracks)
qed

lemma full_answers:
  assumes "full_table_rel t (name, st, vs)" and "table_call_ok c"
  shows "snd (Table_call c t) = snd (full_table_spec c (name, st, vs))"
proof (cases "content_call c")
  case True
  then have "snd (full_table_spec c (name, st, vs)) = snd (table_spec c st)" by (cases c) simp_all
  with table_refines.step_refines[of t st c] assms True show ?thesis
    by (cases vs) (simp add: full_table_rel_def)
next
  case False
  obtain vss n where vs: "vs = (vss, n)" by fastforce
  have rel: "versions_rel (tb_versions t) vss" "tb_name t = name"
    using assms(1) by (simp_all add: full_table_rel_def vs)
  note reads = versions_rel_reads(1,3)[OF rel(1), where n = n] versions_rel_reads(2)[OF rel(1)]
  from False show ?thesis
    by (cases c) (simp_all add: rel vs Table_rowsSnapshotAt_def Table_rowsByIdAt_def Table_versionCount_def
        MVCCRowStore_visibleRowsById_def reads)
qed

lemma table_spec_other: "\<not> content_call c \<Longrightarrow> fst (table_spec c st) = st \<and> fst (Table_call c t) = t"
  by (cases c; cases st) simp_all

interpretation full_table_refines: refinement Table_call full_table_spec full_table_rel table_call_ok
proof unfold_locales
  fix t full c
  assume rel: "full_table_rel t full" and ok: "table_call_ok c"
  obtain name st vss n where full: "full = (name, st, vss, n)" by (cases full)
  have parts: "table_rel t st" "tb_name t = name" "versions_rel (tb_versions t) vss"
    "length (Table_rowsSnapshot t) \<le> length vss" "tb_nextVersionTransactionId t = n"
    using rel by (simp_all add: full_table_rel_def full)
  have inv: "Table_inv t" and st: "st = (tb_schema t, Table_rowsSnapshot t, tb_indexColumns t)"
    using parts(1) by (simp_all add: table_rel_def)
  have "table_rel (fst (Table_call c t)) (fst (table_spec c st))"
    using table_refines.step_refines[OF parts(1), of c] ok parts(1) table_spec_other[of c st t]
    by (cases "content_call c") auto
  moreover have "tb_name (fst (Table_call c t)) = name \<and>
      versions_rel (tb_versions (fst (Table_call c t))) (fst (version_spec c st (vss, n))) \<and>
      length (Table_rowsSnapshot (fst (Table_call c t))) \<le> length (fst (version_spec c st (vss, n))) \<and>
      tb_nextVersionTransactionId (fst (Table_call c t)) = snd (version_spec c st (vss, n))"
    using calls_track[OF inv ok] parts unfolding call_tracks_def Let_def st by blast
  ultimately have "full_table_rel (fst (Table_call c t)) (fst (full_table_spec c full))"
    by (simp add: full_table_rel_def full split_beta)
  with full_answers[of t name st "(vss, n)" c] rel ok
  show "full_table_rel (fst (Table_call c t)) (fst (full_table_spec c full)) \<and>
      snd (Table_call c t) = snd (full_table_spec c full)"
    by (simp only: full)
qed

end
