(* ===== verification/StoreCalls.thy ===== *)
theory StoreCalls
  imports Refinement RowStore HashIndex BTreeIndex
begin

text \<open>
  The storage structures as machines over their calls, and the machines they refine: both row
  stores a list of rows, the buffer pool a list of pages in order of use, both indexes a list of
  pairs of key and row id. A structure is reached from outside only through these calls, so an
  equality of the answers to every list of calls is an equality of behaviour.
\<close>

section \<open>Row stores\<close>

datatype store_call =
    StoreAppend row | StoreErase row_id | StoreUpdate row_id row | StoreGet row_id | StoreSnapshot
  | StoreRowsById "row_id list" | StoreSize | StoreReplaceRows "row list"

datatype store_answer =
    AnswerId row_id | AnswerBool bool | AnswerRow "row option" | AnswerRows "row list"
  | AnswerSize nat | AnswerUnit | AnswerError exn

fun VectorRowStore_call :: "store_call \<Rightarrow> vector_row_store \<Rightarrow> vector_row_store \<times> store_answer" where
  "VectorRowStore_call (StoreAppend r) s = (case VectorRowStore_append r s of (i, s') \<Rightarrow> (s', AnswerId i))"
| "VectorRowStore_call (StoreErase i) s = (case VectorRowStore_erase i s of (b, s') \<Rightarrow> (s', AnswerBool b))"
| "VectorRowStore_call (StoreUpdate i r) s =
     (case VectorRowStore_update i r s of
        Inl e \<Rightarrow> (s, AnswerError e) | Inr (b, s') \<Rightarrow> (s', AnswerBool b))"
| "VectorRowStore_call (StoreGet i) s = (s, AnswerRow (VectorRowStore_get i s))"
| "VectorRowStore_call StoreSnapshot s = (s, AnswerRows (VectorRowStore_snapshot s))"
| "VectorRowStore_call (StoreRowsById ids) s = (s, AnswerRows (VectorRowStore_rowsById ids s))"
| "VectorRowStore_call StoreSize s = (s, AnswerSize (VectorRowStore_size s))"
| "VectorRowStore_call (StoreReplaceRows rows) s = (VectorRowStore_replaceRows rows s, AnswerUnit)"

fun PageRowStore_call :: "store_call \<Rightarrow> page_row_store \<Rightarrow> page_row_store \<times> store_answer" where
  "PageRowStore_call (StoreAppend r) s = (case PageRowStore_append r s of (i, s') \<Rightarrow> (s', AnswerId i))"
| "PageRowStore_call (StoreErase i) s = (case PageRowStore_erase i s of (b, s') \<Rightarrow> (s', AnswerBool b))"
| "PageRowStore_call (StoreUpdate i r) s =
     (case PageRowStore_update i r s of
        Inl e \<Rightarrow> (s, AnswerError e) | Inr (b, s') \<Rightarrow> (s', AnswerBool b))"
| "PageRowStore_call (StoreGet i) s = (s, AnswerRow (PageRowStore_get i s))"
| "PageRowStore_call StoreSnapshot s = (s, AnswerRows (PageRowStore_snapshot s))"
| "PageRowStore_call (StoreRowsById ids) s = (s, AnswerRows (PageRowStore_rowsById ids s))"
| "PageRowStore_call StoreSize s = (s, AnswerSize (PageRowStore_size s))"
| "PageRowStore_call (StoreReplaceRows rows) s = (PageRowStore_replaceRows rows s, AnswerUnit)"

text \<open>What a row store promises.\<close>

fun rows_call :: "store_call \<Rightarrow> row list \<Rightarrow> row list \<times> store_answer" where
  "rows_call (StoreAppend r) rows = (rows @ [r], AnswerId (length rows))"
| "rows_call (StoreErase i) rows =
     (if i < length rows then remove_nth i rows else rows, AnswerBool (i < length rows))"
| "rows_call (StoreUpdate i r) rows = (rows[i := r], AnswerBool (i < length rows))"
| "rows_call (StoreGet i) rows = (rows, AnswerRow (if i < length rows then Some (rows ! i) else None))"
| "rows_call StoreSnapshot rows = (rows, AnswerRows rows)"
| "rows_call (StoreRowsById ids) rows =
     (rows, AnswerRows (map ((!) rows) (filter (\<lambda>i. i < length rows) ids)))"
| "rows_call StoreSize rows = (rows, AnswerSize (length rows))"
| "rows_call (StoreReplaceRows rows') rows = (rows', AnswerUnit)"

interpretation vector_refines: refinement VectorRowStore_call rows_call "\<lambda>s rows. vrs_rows s = rows" "\<lambda>_. True"
proof unfold_locales
  fix s :: vector_row_store and rows :: "row list" and c :: store_call
  assume [simp]: "vrs_rows s = rows"
  show "vrs_rows (fst (VectorRowStore_call c s)) = fst (rows_call c rows) \<and>
      snd (VectorRowStore_call c s) = snd (rows_call c rows)"
    using vector_store.rowsById_abs[OF TrueI, of _ s]
    by (cases c) (auto simp: VectorRowStore_append_def VectorRowStore_erase_def VectorRowStore_update_def
        VectorRowStore_get_def VectorRowStore_snapshot_def VectorRowStore_size_def
        VectorRowStore_replaceRows_def list_update_beyond)
qed

interpretation page_refines: refinement PageRowStore_call rows_call
  "\<lambda>s rows. PageRowStore_inv s \<and> PageRowStore_snapshot s = rows" "\<lambda>_. True"
proof unfold_locales
  fix s :: page_row_store and rows :: "row list" and c :: store_call
  assume "PageRowStore_inv s \<and> PageRowStore_snapshot s = rows"
  then have inv: "PageRowStore_inv s" and [simp]: "PageRowStore_snapshot s = rows" by simp_all
  note laws = page_store.append_id[OF inv] page_store.append_inv[OF inv] page_store.append_abs[OF inv]
    page_store.erase_result[OF inv] page_store.erase_inv[OF inv] page_store.erase_abs[OF inv]
    page_store.get_abs[OF inv] page_store.rowsById_abs[OF inv] page_store.size_abs[OF inv]
    page_store.replaceRows_inv[OF inv] page_store.replaceRows_abs[OF inv] inv
  have upd: "\<exists>s'. PageRowStore_update i r s = Inr (i < length rows, s') \<and> PageRowStore_inv s' \<and>
      PageRowStore_snapshot s' = rows[i := r]" for i r
    using page_store.update_within[OF inv, of i r] page_store.update_beyond[OF inv, of i r] inv
    by (cases "i < length rows") (auto simp: list_update_beyond)
  show "(PageRowStore_inv (fst (PageRowStore_call c s)) \<and>
        PageRowStore_snapshot (fst (PageRowStore_call c s)) = fst (rows_call c rows)) \<and>
      snd (PageRowStore_call c s) = snd (rows_call c rows)"
  proof (cases c)
    case (StoreUpdate i r)
    with upd[of i r] show ?thesis by auto
  qed (use laws in \<open>simp_all add: case_prod_beta\<close>)
qed

section \<open>The buffer pool\<close>

datatype pool_call = PoolPut page | PoolGet page_id | PoolContains page_id | PoolSize

datatype pool_answer = AnswerPage "page option" | AnswerHeld bool | AnswerPages nat | AnswerDone

fun BufferPool_call :: "pool_call \<Rightarrow> buffer_pool \<Rightarrow> buffer_pool \<times> pool_answer" where
  "BufferPool_call (PoolPut pg) p = (BufferPool_put pg p, AnswerDone)"
| "BufferPool_call (PoolGet i) p = (case BufferPool_get i p of (pg, p') \<Rightarrow> (p', AnswerPage pg))"
| "BufferPool_call (PoolContains i) p = (p, AnswerHeld (BufferPool_contains i p))"
| "BufferPool_call PoolSize p = (p, AnswerPages (BufferPool_size p))"

text \<open>A cache of \<open>cap\<close> pages in order of use, the latest first.\<close>

fun lru_call :: "nat \<Rightarrow> pool_call \<Rightarrow> (page_id \<times> page) list \<Rightarrow> (page_id \<times> page) list \<times> pool_answer" where
  "lru_call cap (PoolPut pg) xs = (lru_put cap (page_id pg) pg xs, AnswerDone)"
| "lru_call cap (PoolGet i) xs = (case lru_get i xs of (pg, xs') \<Rightarrow> (xs', AnswerPage pg))"
| "lru_call cap (PoolContains i) xs = (xs, AnswerHeld (i \<in> fst ` set xs))"
| "lru_call cap PoolSize xs = (xs, AnswerPages (length xs))"

lemma BufferPool_get_capacity: "bp_capacity (snd (BufferPool_get i p)) = bp_capacity p"
  by (simp add: BufferPool_get_def BufferPool_touch_def split: option.split)

interpretation pool_refines: refinement BufferPool_call "lru_call cap"
  "\<lambda>p xs. BufferPool_inv p \<and> bp_capacity p = cap \<and> BufferPool_abs p = xs" "\<lambda>_. True" for cap
proof unfold_locales
  fix p :: buffer_pool and xs and c :: pool_call
  assume "BufferPool_inv p \<and> bp_capacity p = cap \<and> BufferPool_abs p = xs"
  then have inv: "BufferPool_inv p" and cap: "bp_capacity p = cap" and xs: "xs = BufferPool_abs p" by auto
  have ids: "fst ` set (BufferPool_abs p) = fst ` set (bp_pages p)"
    using inv by (simp add: BufferPool_abs_def BufferPool_inv_def image_image)
  have len: "length (BufferPool_abs p) = length (bp_pages p)"
    using inv BufferPool_inv0_length by (simp add: BufferPool_abs_def BufferPool_inv_iff)
  show "(BufferPool_inv (fst (BufferPool_call c p)) \<and> bp_capacity (fst (BufferPool_call c p)) = cap \<and>
        BufferPool_abs (fst (BufferPool_call c p)) = fst (lru_call cap c xs)) \<and>
      snd (BufferPool_call c p) = snd (lru_call cap c xs)"
  proof (cases c)
    case (PoolPut pg)
    then show ?thesis using BufferPool_put_inv_abs[OF inv] cap xs by simp
  next
    case (PoolGet i)
    then show ?thesis
      using BufferPool_get_inv_abs[OF inv, of i] BufferPool_get_capacity[of i p] cap xs
      by (auto simp: case_prod_beta prod_eq_iff)
  qed (use inv cap xs ids len in \<open>auto simp: BufferPool_contains_def BufferPool_size_def map_of_eq_None_iff\<close>)
qed

section \<open>Indexes\<close>

datatype index_call =
    IndexInsert sql_value row_id | IndexRemove sql_value row_id | IndexClear | IndexFind sql_value

fun index_call_ok :: "index_call \<Rightarrow> bool" where
  "index_call_ok (IndexInsert k i) \<longleftrightarrow> value_ok k"
| "index_call_ok (IndexRemove k i) \<longleftrightarrow> value_ok k"
| "index_call_ok IndexClear \<longleftrightarrow> True"
| "index_call_ok (IndexFind k) \<longleftrightarrow> value_ok k"

fun HashIndex_call :: "index_call \<Rightarrow> hash_index \<Rightarrow> hash_index \<times> row_id list" where
  "HashIndex_call (IndexInsert k i) ix = (HashIndex_insert k i ix, [])"
| "HashIndex_call (IndexRemove k i) ix = (HashIndex_remove k i ix, [])"
| "HashIndex_call IndexClear ix = (HashIndex_clear ix, [])"
| "HashIndex_call (IndexFind k) ix = (ix, HashIndex_find k ix)"

fun BTreeIndex_call :: "index_call \<Rightarrow> btree_index \<Rightarrow> btree_index \<times> row_id list" where
  "BTreeIndex_call (IndexInsert k i) ix = (BTreeIndex_insert k i ix, [])"
| "BTreeIndex_call (IndexRemove k i) ix = (BTreeIndex_remove k i ix, [])"
| "BTreeIndex_call IndexClear ix = (BTreeIndex_clear ix, [])"
| "BTreeIndex_call (IndexFind k) ix = (ix, BTreeIndex_find k ix)"

text \<open>What an index promises: the ids put under an equal key, in the order they were put.\<close>

definition pairs_find :: "sql_value \<Rightarrow> (sql_value \<times> row_id) list \<Rightarrow> row_id list" where
  "pairs_find k ps = map snd (filter (\<lambda>(k', _). Value_eq k' k) ps)"

fun pairs_call :: "index_call \<Rightarrow> (sql_value \<times> row_id) list \<Rightarrow> (sql_value \<times> row_id) list \<times> row_id list" where
  "pairs_call (IndexInsert k i) ps = (ps @ [(k, i)], [])"
| "pairs_call (IndexRemove k i) ps = (filter (\<lambda>(k', j). \<not> (Value_eq k k' \<and> j = i)) ps, [])"
| "pairs_call IndexClear ps = ([], [])"
| "pairs_call (IndexFind k) ps = (ps, pairs_find k ps)"

definition lists_pairs ::
  "('ix \<Rightarrow> bool) \<Rightarrow> (sql_value \<Rightarrow> 'ix \<Rightarrow> row_id list) \<Rightarrow> 'ix \<Rightarrow> (sql_value \<times> row_id) list \<Rightarrow> bool" where
  "lists_pairs good look ix ps \<longleftrightarrow>
     good ix \<and> (\<forall>(k, _) \<in> set ps. value_ok k) \<and> (\<forall>k. value_ok k \<longrightarrow> look k ix = pairs_find k ps)"

lemma pairs_find_remove:
  assumes "value_ok k" and "value_ok k'" and "\<forall>(k, _) \<in> set ps. value_ok k"
  shows "pairs_find k' (filter (\<lambda>(k'', j). \<not> (Value_eq k k'' \<and> j = i)) ps) =
    (if Value_eq k k' then filter (\<lambda>j. j \<noteq> i) (pairs_find k' ps) else pairs_find k' ps)"
  using assms(3)
proof (induction ps)
  case Nil
  then show ?case by (simp add: pairs_find_def)
next
  case (Cons p ps)
  obtain a j where p: "p = (a, j)" by (cases p)
  with Cons have ok: "value_ok a" by simp
  have "Value_eq a k' \<Longrightarrow> Value_eq k a \<longleftrightarrow> Value_eq k k'"
    using value_keys.trans[OF assms(1) ok assms(2)] value_keys.trans[OF assms(1,2) ok] Value_eq_sym by blast
  with Cons p show ?case by (auto simp: pairs_find_def)
qed

lemma lists_pairs_insert:
  assumes "lists_pairs good look ix ps" and "value_ok k" and "good ix'"
    and "\<And>k'. value_ok k' \<Longrightarrow> look k' ix' = look k' ix @ (if Value_eq k k' then [r] else [])"
  shows "lists_pairs good look ix' (ps @ [(k, r)])"
  using assms by (auto simp: lists_pairs_def pairs_find_def)

lemma lists_pairs_remove:
  assumes "lists_pairs good look ix ps" and "value_ok k" and "good ix'"
    and "\<And>k'. value_ok k' \<Longrightarrow>
      look k' ix' = (if Value_eq k k' then filter (\<lambda>i. i \<noteq> r) (look k' ix) else look k' ix)"
  shows "lists_pairs good look ix' (filter (\<lambda>(k'', j). \<not> (Value_eq k k'' \<and> j = r)) ps)"
  using assms pairs_find_remove[OF assms(2)] by (auto simp: lists_pairs_def)

lemma lists_pairs_clear:
  "good ix \<Longrightarrow> (\<And>k. value_ok k \<Longrightarrow> look k ix = []) \<Longrightarrow> lists_pairs good look ix []"
  by (auto simp: lists_pairs_def pairs_find_def)

interpretation hash_refines: refinement HashIndex_call pairs_call
  "lists_pairs HashIndex_inv HashIndex_find" index_call_ok
proof unfold_locales
  fix ix ps c
  assume rel: "lists_pairs HashIndex_inv HashIndex_find ix ps" and ok: "index_call_ok c"
  then have inv: "HashIndex_inv ix" by (simp add: lists_pairs_def)
  show "lists_pairs HashIndex_inv HashIndex_find (fst (HashIndex_call c ix)) (fst (pairs_call c ps)) \<and>
      snd (HashIndex_call c ix) = snd (pairs_call c ps)"
  proof (cases c)
    case (IndexInsert k i)
    with ok lists_pairs_insert[OF rel _ hash.insert_inv[OF inv] hash.find_insert[OF inv]]
    show ?thesis by simp
  next
    case (IndexRemove k i)
    with ok lists_pairs_remove[OF rel _ HashIndex_remove_inv[OF inv] HashIndex_find_remove[OF inv]]
    show ?thesis by simp
  next
    case IndexClear
    then show ?thesis by (simp add: lists_pairs_clear hash.clear_inv hash.find_clear inv)
  next
    case (IndexFind k)
    with rel ok show ?thesis by (simp add: lists_pairs_def)
  qed
qed

interpretation btree_refines: refinement BTreeIndex_call pairs_call
  "lists_pairs BTreeIndex_inv BTreeIndex_find" index_call_ok
proof unfold_locales
  fix ix ps c
  assume rel: "lists_pairs BTreeIndex_inv BTreeIndex_find ix ps" and ok: "index_call_ok c"
  then have inv: "BTreeIndex_inv ix" by (simp add: lists_pairs_def)
  show "lists_pairs BTreeIndex_inv BTreeIndex_find (fst (BTreeIndex_call c ix)) (fst (pairs_call c ps)) \<and>
      snd (BTreeIndex_call c ix) = snd (pairs_call c ps)"
  proof (cases c)
    case (IndexInsert k i)
    with ok lists_pairs_insert[OF rel _ btree.insert_inv[OF inv] btree.find_insert[OF inv]]
    show ?thesis by simp
  next
    case (IndexRemove k i)
    with ok lists_pairs_remove[OF rel _ BTreeIndex_remove_inv[OF inv] BTreeIndex_find_remove[OF inv]]
    show ?thesis by simp
  next
    case IndexClear
    then show ?thesis by (simp add: lists_pairs_clear btree.clear_inv btree.find_clear inv)
  next
    case (IndexFind k)
    with rel ok show ?thesis by (simp add: lists_pairs_def)
  qed
qed

end
