(* ===== verification/Samples.thy ===== *)
theory Samples
  imports Database TableCalls StoreCalls
begin

text \<open>
  A small database, built with the operations of the model, on which the properties are
  instantiated: the table \<open>people\<close> with three rows and an index on its first column.
\<close>

definition sample_schema :: "column list" where
  "sample_schema =
     [\<lparr>col_name = ''id'', col_type = CInt, col_nullable = False\<rparr>,
      \<lparr>col_name = ''name'', col_type = CString, col_nullable = True\<rparr>]"

definition sample_rows :: "row list" where
  "sample_rows = [[VInt 1, VString ''ada''], [VInt 2, VNull], [VInt 2, VString ''bob'']]"

definition sample_table :: vtable where
  "sample_table = projr (ebind (Table_new ''people'' sample_schema) (insert_rows sample_rows))"

definition sample_indexed :: vtable where
  "sample_indexed = snd (Table_createIndex ''by_id'' ''id'' sample_table)"

definition sample_database :: database where
  "sample_database = Database_putTable ''people'' sample_indexed (projr (Database_new ''city''))"

lemma sample_rows_ok: "\<forall>r \<in> set sample_rows. row_ok sample_schema r"
  by (simp add: sample_rows_def sample_schema_def row_ok_def row_fits_def cell_fits_def)

lemma sample_table_facts:
  "Table_inv sample_table \<and> Table_rowsSnapshot sample_table = sample_rows \<and>
   tb_schema sample_table = sample_schema \<and> tb_name sample_table = ''people'' \<and>
   tb_indexColumns sample_table = [] \<and> Table_versions_current sample_table"
proof -
  obtain t where t: "Table_new ''people'' sample_schema = Inr t" "Table_inv t"
    "Table_rowsSnapshot t = []" "tb_name t = ''people''" "tb_schema t = sample_schema"
    "tb_indexColumns t = []" "tb_versions t = MVCCRowStore_new"
    using Table_new_spec[of "''people''" sample_schema] by (auto simp: sample_schema_def)
  have "Table_versions_current t" by (simp add: Table_versions_current_def t)
  with t insert_rows_spec[OF t(2), of sample_rows] sample_rows_ok
  show ?thesis by (auto simp: sample_table_def same_definitions_def)
qed

lemma sample_columns:
  "find_column ''id'' sample_schema = Some 0" "find_column ''name'' sample_schema = Some 1"
  by (simp_all add: sample_schema_def find_column_def)

lemma sample_indexed_facts:
  "Table_inv sample_indexed \<and> Table_rowsSnapshot sample_indexed = sample_rows \<and>
   tb_schema sample_indexed = sample_schema \<and> tb_name sample_indexed = ''people'' \<and>
   tb_indexColumns sample_indexed = [(''by_id'', 0)] \<and> Table_versions_current sample_indexed"
proof -
  have free: "omap_find str_less ''by_id'' (tb_indexes sample_table) = None"
    using Table_index_free sample_table_facts by simp
  obtain t where "Table_createIndex ''by_id'' ''id'' sample_table = (True, t)" "Table_inv t"
    "Table_rowsSnapshot t = sample_rows" "tb_name t = ''people''" "tb_schema t = sample_schema"
    "tb_versions t = tb_versions sample_table" "tb_indexColumns t = [(''by_id'', 0)]"
    using Table_createIndex_spec[of sample_table "''by_id''" "''id''"] sample_table_facts free sample_columns
    by (auto simp: Table_columnIndex_def sample_schema_def omap_emplace_def)
  with sample_table_facts show ?thesis by (auto simp: sample_indexed_def Table_versions_current_def)
qed

lemma sample_indexed_hasIndex: "Table_hasIndex ''id'' sample_indexed"
  using sample_indexed_facts by (simp add: Table_hasIndex_def sample_schema_def)

lemma sample_database_facts:
  "Database_inv sample_database \<and> db_name sample_database = ''city'' \<and>
   db_tables sample_database = [(''people'', sample_indexed)]"
proof -
  define db where "db = projr (Database_new ''city'')"
  have db: "Database_new ''city'' = Inr db" "db_name db = ''city''" "db_tables db = []"
    by (simp_all add: db_def Database_new_def)
  have "Database_inv sample_database"
    using Database_putTable_inv[OF Database_new_inv[OF db(1)]] sample_indexed_facts db(1)
    by (simp add: sample_database_def)
  with db show ?thesis by (simp add: sample_database_def Database_putTable_def)
qed

lemma sample_database_table:
  "Database_table name sample_database = (if name = ''people'' then Some sample_indexed else None)"
  using sample_database_facts str_less_total[of name "''people''"] by (auto simp: Database_table_def)

end
