(* ===== verification/StorageProperties.thy ===== *)
theory StorageProperties
  imports Samples Transactions
begin

text \<open>
  The properties of the storage layer: row stores, buffer pool, indexes, tables, the version
  store, the transaction manager and the operations of a database that copy tables. Each is
  stated for every list of calls where the component has a state.
\<close>

section \<open>Row stores and the buffer pool\<close>

text \<open>C16: The two implementations of RowStore cannot be told apart. For every list of calls to
  append, erase, update, get, snapshot, rowsById, size and replaceRows, a fresh PageRowStore of
  any page size and any pool capacity gives the answers of a fresh VectorRowStore.\<close>

theorem page_store_equals_vector_store:
  assumes "PageRowStore_new rowsPerPage capacity = Inr s"
  shows "answers PageRowStore_call cs s = answers VectorRowStore_call cs \<lparr>vrs_rows = []\<rparr>"
proof -
  have ok: "list_all (\<lambda>_. True) cs" by (simp add: list_all_iff)
  have "answers PageRowStore_call cs s = answers rows_call cs []"
    using PageRowStore_new_inv[OF assms] by (intro page_refines.answers_refine[OF _ ok]) simp
  also have "\<dots> = answers VectorRowStore_call cs \<lparr>vrs_rows = []\<rparr>"
    by (rule vector_refines.answers_refine[OF _ ok, symmetric]) simp
  finally show ?thesis .
qed

theorem page_store_equals_vector_store_witness:
  "answers PageRowStore_call
     [StoreAppend [VInt 1], StoreAppend [VInt 2], StoreAppend [VNull], StoreErase 1, StoreErase 7,
      StoreUpdate 0 [VInt 9], StoreSnapshot, StoreSize] (projr (PageRowStore_new 2 1)) =
   [AnswerId 0, AnswerId 1, AnswerId 2, AnswerBool True, AnswerBool False, AnswerBool True,
    AnswerRows [[VInt 9], [VNull]], AnswerSize 2]"
proof -
  have new: "PageRowStore_new 2 1 = Inr (projr (PageRowStore_new 2 1))"
    by (simp add: PageRowStore_new_def BufferPool_new_def)
  show ?thesis
    by (subst page_store_equals_vector_store[OF new]) code_simp
qed

text \<open>C19: The buffer pool is a least-recently-used cache. For every list of put, get, contains and
  size calls a fresh pool answers as a list of pages in order of use cut at the capacity, so a
  page is found exactly while fewer than capacity other pages were used after it.\<close>

theorem buffer_pool_is_lru:
  assumes "BufferPool_new capacity = Inr p"
  shows "answers BufferPool_call cs p = answers (lru_call capacity) cs []"
proof -
  have "BufferPool_inv p" and "bp_capacity p = capacity" and "BufferPool_abs p = []"
    using BufferPool_new_inv[OF assms] assms
    by (auto simp: BufferPool_new_def BufferPool_abs_def split: if_splits)
  then show ?thesis
    by (intro pool_refines.answers_refine[of p capacity]) (simp_all add: list_all_iff)
qed

theorem buffer_pool_is_lru_witness:
  "answers BufferPool_call
     [PoolPut (serializePage 1 []), PoolPut (serializePage 2 []), PoolGet 1,
      PoolPut (serializePage 3 []), PoolContains 1, PoolContains 2, PoolSize]
     (projr (BufferPool_new 2)) =
   [AnswerDone, AnswerDone, AnswerPage (Some (serializePage 1 [])), AnswerDone, AnswerHeld True,
    AnswerHeld False, AnswerPages 2]"
proof -
  have new: "BufferPool_new 2 = Inr (projr (BufferPool_new 2))" by (simp add: BufferPool_new_def)
  show ?thesis
    unfolding buffer_pool_is_lru[OF new]
    by (simp add: answers_def lru_put_def lru_get_def serializePage_def)
qed

section \<open>Indexes\<close>

text \<open>C17: The two indexes agree. For every list of insert, remove, clear and find calls without
  NaN keys, a B+ tree index of any positive node size finds the same row ids, in the same
  order, as a hash index.\<close>

theorem btree_index_equals_hash_index:
  assumes "BTreeIndex_new maxKeysPerLeaf = Inr ix" and "list_all index_call_ok cs"
  shows "answers BTreeIndex_call cs ix = answers HashIndex_call cs HashIndex_new"
proof -
  have inv: "BTreeIndex_inv ix" by (rule BTreeIndex_new_inv[OF assms(1)])
  have none: "bt_entries ix = []" using assms(1) by (auto simp: BTreeIndex_new_def BTreeIndex_rebuildLayout_def split: if_splits)
  have "lists_pairs BTreeIndex_inv BTreeIndex_find ix []"
    by (rule lists_pairs_clear) (simp_all add: inv none btree.ofind_entries entries_find_def)
  then have "answers BTreeIndex_call cs ix = answers pairs_call cs []"
    by (rule btree_refines.answers_refine[OF _ assms(2)])
  also have "lists_pairs HashIndex_inv HashIndex_find HashIndex_new []"
    by (rule lists_pairs_clear, rule HashIndex_new_inv) (simp add: HashIndex_new_def HashIndex_find_def)
  then have "answers pairs_call cs [] = answers HashIndex_call cs HashIndex_new"
    using hash_refines.answers_refine[OF _ assms(2)] by simp
  finally show ?thesis .
qed

theorem btree_index_equals_hash_index_witness:
  "answers BTreeIndex_call
     [IndexInsert (VInt 5) 0, IndexInsert (VString ''a'') 1, IndexInsert (VInt 5) 2, IndexFind (VInt 5),
      IndexRemove (VInt 5) 0, IndexFind (VInt 5), IndexFind VNull] (projr (BTreeIndex_new 2)) =
   [[], [], [], [0, 2], [], [2], []]"
proof -
  have new: "BTreeIndex_new 2 = Inr (projr (BTreeIndex_new 2))" by (simp add: BTreeIndex_new_def)
  show ?thesis
    by (subst btree_index_equals_hash_index[OF new]) (simp, code_simp)
qed

lemma BTreeIndex_call_inv:
  assumes "BTreeIndex_inv ix \<and> bt_maxKeysPerLeaf ix = n" and "index_call_ok c"
  shows "BTreeIndex_inv (fst (BTreeIndex_call c ix)) \<and> bt_maxKeysPerLeaf (fst (BTreeIndex_call c ix)) = n"
proof
  show "BTreeIndex_inv (fst (BTreeIndex_call c ix))"
    using assms by (cases c) (simp_all add: btree.insert_inv btree.clear_inv BTreeIndex_remove_inv)
  show "bt_maxKeysPerLeaf (fst (BTreeIndex_call c ix)) = n"
    using assms by (cases c) (simp_all add: BTreeIndex_insert_def BTreeIndex_remove_def
        BTreeIndex_clear_def BTreeIndex_rebuildLayout_def Let_def split: option.split)
qed

text \<open>C18: After every list of calls without NaN keys the nodes of a B+ tree are laid out as the code
  promises: leaves of at most \<open>maxKeysPerLeaf\<close> keys, none empty unless the index is, numbered and
  chained in order, their keys and row ids together the sorted entries, and a root over them exactly
  when there is more than one, with the first key of each leaf but the first as separators.\<close>

theorem btree_layout_invariant:
  assumes "BTreeIndex_new maxKeysPerLeaf = Inr new" and "list_all index_call_ok cs"
    and "ix = fst (run BTreeIndex_call cs new)"
  shows "btree_layout maxKeysPerLeaf (bt_entries ix) (bt_nodes ix) \<and>
    sorted_wrt Value_less (map fst (bt_entries ix)) \<and> BTreeIndex_height ix \<le> 2"
proof -
  have new: "BTreeIndex_inv new \<and> bt_maxKeysPerLeaf new = maxKeysPerLeaf"
    using BTreeIndex_new_inv[OF assms(1)] assms(1)
    by (auto simp: BTreeIndex_new_def BTreeIndex_rebuildLayout_def split: if_splits)
  have ix: "BTreeIndex_inv ix" "bt_maxKeysPerLeaf ix = maxKeysPerLeaf"
    using run_invariant[OF BTreeIndex_call_inv new assms(2)] assms(3) by auto
  then have "sorted_wrt Value_less (map fst (bt_entries ix))"
    by (simp add: BTreeIndex_inv_def omap_wf_def)
  then show ?thesis
    using ix layout_nodes_layout[of maxKeysPerLeaf "bt_entries ix"]
    by (simp add: BTreeIndex_inv_def BTreeIndex_height_def)
qed

theorem btree_layout_invariant_witness:
  "\<exists>ix. ix = fst (run BTreeIndex_call
      [IndexInsert (VInt 5) 0, IndexInsert (VInt 3) 1, IndexInsert VNull 2, IndexRemove (VInt 3) 1]
      (projr (BTreeIndex_new 2))) \<and>
    btree_layout 2 (bt_entries ix) (bt_nodes ix) \<and>
    sorted_wrt Value_less (map fst (bt_entries ix)) \<and> BTreeIndex_height ix \<le> 2"
proof -
  have new: "BTreeIndex_new 2 = Inr (projr (BTreeIndex_new 2))" by (simp add: BTreeIndex_new_def)
  let ?cs = "[IndexInsert (VInt 5) 0, IndexInsert (VInt 3) 1, IndexInsert VNull 2, IndexRemove (VInt 3) 1]"
  have ok: "list_all index_call_ok ?cs" by simp
  show ?thesis using btree_layout_invariant[OF new ok refl] by blast
qed

section \<open>Tables\<close>

lemma full_table_rel_new:
  assumes "Table_new name schema = Inr t"
  shows "full_table_rel t (name, (schema, [], []), ([], 1))"
proof -
  have "name \<noteq> []" "schema \<noteq> []" using assms Table_new_Inr_iff by blast+
  then show ?thesis
    using Table_new_spec[of name schema] assms versions_rel_new
    by (auto simp: full_table_rel_def table_rel_def)
qed

text \<open>C5: A table behaves as a list of rows with versions beside it. For every list of calls of its
  public operations, with no NaN among the values, a fresh table gives the answers of a machine
  that holds the name, the schema, the rows, the indexed columns and, per row id, the versions
  written under it: which rows are accepted, which ids they get, what erase and update change,
  which lookups have an index and which ids they list in which order, what the reads at a
  transaction id and the version counts give. The pages and the indexes never show; the versions
  show in the three calls that read them, where an erase leaves them under the id they had.\<close>

theorem table_equals_rows:
  assumes "Table_new name schema = Inr t" and "list_all table_call_ok cs"
  shows "answers Table_call cs t = answers full_table_spec cs (name, (schema, [], []), ([], 1))"
  by (rule full_table_refines.answers_refine[OF full_table_rel_new[OF assms(1)] assms(2)])

theorem table_equals_rows_witness:
  "answers Table_call
     [TableInsert [VInt 1, VString ''ada''], TableInsert [VNull, VString ''bob''], TableInsert [VInt 2],
      TableCreateIndex ''by_id'' ''id'', TableInsert [VInt 1, VNull], TableLookup ''id'' (VInt 1),
      TableUpdate 0 0 (VInt 3), TableErase 5, TableLookup ''id'' (VInt 1), TableLookup ''name'' VNull,
      TableRange ''id'' Greater (VInt 0), TableListIndexes, TableErase 0, TableScan, TableScanAt 9,
      TableVersionCount 0] (projr (Table_new ''people'' sample_schema)) =
   [TRowId 0, TInvalid, TInvalid, TBool True, TRowId 1, TIds (Some [0, 1]), TBool True, TBool False,
    TIds (Some [1]), TIds None, TIds (Some [1, 0]), TNames [''by_id''], TBool True,
    TRows [[VInt 1, VNull]], TRows [[VInt 1, VString ''ada''], [VInt 1, VNull]], TCount 2]"
proof -
  have new: "Table_new ''people'' sample_schema = Inr (projr (Table_new ''people'' sample_schema))"
    using Table_new_spec[of "''people''" sample_schema] by (auto simp: sample_schema_def)
  show ?thesis
    by (subst table_equals_rows[OF new])
      (simp, simp add: answers_def sample_schema_def row_fits_def cell_fits_def find_column_def
        indexed_column_def omap_emplace_def positions_def upt_rec range_ids_def selected_ids_def
        sorted_ids_def sort_stable_def remove_nth_def mark_deleted_def newest_visible_def
        version_visible_def versions_at_def List.map_filter_simps)
qed

text \<open>C32: Every row a table holds, after every list of calls without NaN values, has the width of the
  schema, with in each column a value of its type or, where the column is nullable, NULL.\<close>

theorem table_rows_typed:
  assumes "Table_new name schema = Inr t" and "list_all table_call_ok cs"
    and "r \<in> set (Table_rowsSnapshot (fst (run Table_call cs t)))"
  shows "row_fits (tb_schema (fst (run Table_call cs t))) r"
proof -
  have "full_table_rel (fst (run Table_call cs t))
      (fst (run full_table_spec cs (name, (schema, [], []), ([], 1))))"
    using full_table_refines.run_refines[OF full_table_rel_new[OF assms(1)] assms(2)] by blast
  then have "Table_inv (fst (run Table_call cs t))" by (auto simp: full_table_rel_def table_rel_def)
  from Table_inv_row_ok[OF this assms(3)] show ?thesis by (simp add: row_ok_def)
qed

theorem table_rows_typed_witness:
  "row_fits (tb_schema (fst (run Table_call [TableInsert [VInt 7, VNull]]
      (projr (Table_new ''people'' sample_schema))))) [VInt 7, VNull]"
proof -
  have new: "Table_new ''people'' sample_schema = Inr (projr (Table_new ''people'' sample_schema))"
    using Table_new_spec[of "''people''" sample_schema] by (auto simp: sample_schema_def)
  let ?cs = "[TableInsert [VInt 7, VNull]]"
  have ok: "list_all table_call_ok ?cs" by simp
  have "fst (snd (fst (run full_table_spec ?cs (''people'', (sample_schema, [], []), ([], 1))))) =
      (sample_schema, [[VInt 7, VNull]], [])"
    by (simp add: sample_schema_def row_fits_def cell_fits_def)
  then have "Table_rowsSnapshot (fst (run Table_call ?cs (projr (Table_new ''people'' sample_schema)))) =
      [[VInt 7, VNull]]"
    using full_table_refines.run_refines[OF full_table_rel_new[OF new] ok]
    unfolding full_table_rel_def table_rel_def by (auto split: prod.splits)
  then have "[VInt 7, VNull] \<in> set (Table_rowsSnapshot
      (fst (run Table_call ?cs (projr (Table_new ''people'' sample_schema)))))"
    by (simp only: list.set_intros)
  from table_rows_typed[OF new ok this] show ?thesis .
qed

section \<open>Versions\<close>

fun erases :: "table_call \<Rightarrow> bool" where
  "erases (TableErase i) \<longleftrightarrow> True"
| "erases _ \<longleftrightarrow> False"

lemma Table_call_versions:
  assumes cur: "Table_inv t \<and> Table_versions_current t" and ok: "table_call_ok c \<and> \<not> erases c"
  shows "Table_inv (fst (Table_call c t)) \<and> Table_versions_current (fst (Table_call c t))"
proof
  have inv: "Table_inv t" and vs: "Table_versions_current t" using cur by auto
  have rel: "table_rel t (tb_schema t, Table_rowsSnapshot t, tb_indexColumns t)"
    using inv by (simp add: table_rel_def)
  show "Table_inv (fst (Table_call c t))"
    using table_refines.step_refines[OF rel, of c] table_spec_other[of c _ t] ok inv
    by (cases "content_call c") (auto simp: table_rel_def)
  show "Table_versions_current (fst (Table_call c t))"
  proof (cases c)
    case (TableInsert r)
    have "row_ok (tb_schema t) r" if "Table_insert r t = Inr (i, t')" for i t'
      using that Table_insert_invalid[of t r] ok TableInsert by (force simp: row_ok_def)
    with TableInsert Table_insert_versions[OF inv _ vs] vs show ?thesis
      by (auto simp: table_failure_def split: sum.split)
  next
    case (TableUpdate i col v)
    show ?thesis
    proof (cases "length (Table_rowsSnapshot t) \<le> i \<or> length (tb_schema t) \<le> col")
      case True
      with TableUpdate Table_update_beyond[OF inv] vs show ?thesis by simp
    next
      case False
      with TableUpdate ok vs Table_update_versions[OF inv, of col v i] Table_update_invalid[OF inv, of i col v]
      show ?thesis
        by (cases "cell_fits (tb_schema t ! col) v") (auto simp: table_failure_def split: sum.split)
    qed
  next
    case (TableReplaceRows rows)
    have "row_ok (tb_schema t) r" if "Table_replaceRows rows t = Inr t'" "r \<in> set rows" for r t'
      using that Table_replaceRows_invalid[of r rows t] ok TableReplaceRows by (force simp: row_ok_def)
    with TableReplaceRows Table_replaceRows_versions[OF inv] vs show ?thesis
      by (auto simp: table_failure_def split: sum.split)
  next
    case (TableCreateIndex name column)
    then show ?thesis
      using Table_createIndex_spec[OF inv, of name column] vs by (auto simp: Table_versions_current_def)
  qed (use ok vs in \<open>auto simp: table_failure_def split: sum.split\<close>)
qed

text \<open>C33: Inside a transaction SELECT reads through the version store. As long as no row was erased
  from a table, after every list of calls without NaN values that read gives the current rows, and a
  read by row ids the rows with these ids.\<close>

theorem versioned_reads_current:
  assumes "Table_new name schema = Inr new" and "list_all (\<lambda>c. table_call_ok c \<and> \<not> erases c) cs"
    and "t = fst (run Table_call cs new)"
  shows "Table_rowsSnapshotAt (- 1) t = Table_rowsSnapshot t \<and>
    Table_rowsByIdAt ids (- 1) t = Table_rowsById ids t"
proof -
  have "Table_inv new \<and> Table_versions_current new"
    using full_table_rel_new[OF assms(1)] Table_new_versions[OF assms(1)]
    by (simp add: full_table_rel_def table_rel_def)
  then have "Table_inv t \<and> Table_versions_current t"
    unfolding assms(3)
    using run_invariant[where P = "\<lambda>t. Table_inv t \<and> Table_versions_current t" and step = Table_call,
        OF Table_call_versions _ assms(2)] by blast
  with Table_reads_current show ?thesis by blast
qed

theorem versioned_reads_current_witness:
  "\<exists>t. t = fst (run Table_call [TableInsert [VInt 1, VNull], TableUpdate 0 1 (VString ''x'')]
      (projr (Table_new ''people'' sample_schema))) \<and>
    Table_rowsSnapshotAt (- 1) t = Table_rowsSnapshot t \<and>
    Table_rowsByIdAt [0] (- 1) t = Table_rowsById [0] t"
proof -
  have new: "Table_new ''people'' sample_schema = Inr (projr (Table_new ''people'' sample_schema))"
    using Table_new_spec[of "''people''" sample_schema] by (auto simp: sample_schema_def)
  let ?cs = "[TableInsert [VInt 1, VNull], TableUpdate 0 1 (VString ''x'')]"
  have ok: "list_all (\<lambda>c. table_call_ok c \<and> \<not> erases c) ?cs" by simp
  show ?thesis using versioned_reads_current[OF new ok refl] by blast
qed

text \<open>C34: A version written by one transaction changes what the transactions with ids from its own
  on read at that row, and nothing that any transaction with a smaller id reads, at any row.\<close>

theorem writes_are_isolated:
  assumes "mvcc_inv st"
  shows "MVCCRowStore_read j readerId (MVCCRowStore_write i r writerId st) =
    (if i = j \<and> writerId \<le> readerId then Some r else MVCCRowStore_read j readerId st)"
  by (rule mvcc_read_write[OF assms])

theorem writes_are_isolated_witness:
  "MVCCRowStore_read 0 4 (MVCCRowStore_write 0 [VInt 2] 5 (MVCCRowStore_write 0 [VInt 1] 3 MVCCRowStore_new)) =
     Some [VInt 1] \<and>
   MVCCRowStore_read 0 5 (MVCCRowStore_write 0 [VInt 2] 5 (MVCCRowStore_write 0 [VInt 1] 3 MVCCRowStore_new)) =
     Some [VInt 2]"
  by (simp add: writes_are_isolated mvcc_inv_write)

section \<open>Transactions\<close>

text \<open>The history of a transaction manager is sound. In every reachable manager a transaction
  with a record was begun, and its state tells how it ended: not at all while Active, by exactly
  one commit when Committed, by exactly one rollback when RolledBack. Without a record it was
  neither begun nor ended. So no transaction ends twice or in two ways.\<close>

lemma transactions_end_once:
  assumes "tm_reach evs tm"
  shows "tx_record evs i (TransactionManager_find i tm) \<and> length (ended i evs) \<le> 1"
proof -
  have "tx_record evs i (TransactionManager_find i tm)"
    using tm_reach_records[OF assms] by (simp add: tm_records_def)
  then show ?thesis
    by (auto simp: tx_record_def split: option.splits transaction_state.splits)
qed

lemma sample_tm_reach:
  "\<exists>tm. tm_reach [EvBegin 1, EvBegin 2, EvCommit 1] tm \<and> TransactionManager_find 1 tm \<noteq> None"
proof -
  have "tm_reach [EvBegin 1] (snd (TransactionManager_begin TransactionManager_new))"
    using tm_begin[OF tm_init, of "fst (TransactionManager_begin TransactionManager_new)"
        "snd (TransactionManager_begin TransactionManager_new)"]
    by (simp add: TransactionManager_begin_def TransactionManager_new_def Let_def)
  then have "tm_reach [EvBegin 1, EvBegin 2]
      (snd (TransactionManager_begin (snd (TransactionManager_begin TransactionManager_new))))"
    using tm_begin[of "[EvBegin 1]" "snd (TransactionManager_begin TransactionManager_new)"
        "fst (TransactionManager_begin (snd (TransactionManager_begin TransactionManager_new)))"
        "snd (TransactionManager_begin (snd (TransactionManager_begin TransactionManager_new)))"]
    by (simp add: TransactionManager_begin_def TransactionManager_new_def Let_def)
  from tm_commit[OF this, of 1
      "projr (TransactionManager_commit 1
         (snd (TransactionManager_begin (snd (TransactionManager_begin TransactionManager_new)))))"]
  show ?thesis
    by (intro exI conjI) (assumption | simp add: TransactionManager_begin_def TransactionManager_new_def
        TransactionManager_commit_def TransactionManager_find_def TransactionManager_set_def Let_def)+
qed

text \<open>C36: Transaction ids are unique: before \<open>2 ^ 64\<close> transactions were begun, no two of them got
  the same id, the ids being 1, 2, 3 and so on.\<close>

theorem transaction_ids_unique:
  assumes "tm_reach evs tm" and "length (begins evs) < 2 ^ 64"
  shows "distinct (begins evs) \<and> begins evs = map of_nat [1..<Suc (length (begins evs))]"
  using tm_reach_distinct[OF assms] tm_reach_ids[OF assms(1)] by blast

theorem transaction_ids_unique_witness:
  "distinct (begins [EvBegin 1, EvBegin 2, EvCommit 1]) \<and>
   begins [EvBegin 1, EvBegin 2, EvCommit 1] = map of_nat [1..<Suc (length (begins [EvBegin 1, EvBegin 2, EvCommit 1]))]"
proof -
  obtain tm where tm: "tm_reach [EvBegin 1, EvBegin 2, EvCommit 1] tm" using sample_tm_reach by blast
  have "length (begins [EvBegin 1, EvBegin 2, EvCommit 1]) < 2 ^ 64"
    by (simp add: begins_def List.map_filter_simps)
  from transaction_ids_unique[OF tm this] show ?thesis .
qed

section \<open>Databases\<close>

text \<open>Renaming a table moves its content, with its schema, its rows in order and its indexes, to
  the new name, and leaves every other table as it is; when the old name is unknown or the new
  one is taken, nothing changes and the answer is false.\<close>

lemma rename_moves_content:
  assumes "Database_inv db" and "newName \<noteq> []"
  shows "case (Database_table oldName db, Database_table newName db) of
      (Some old, None) \<Rightarrow>
        \<exists>db' t. Database_renameTable oldName newName db = (db', Inr True) \<and> Database_inv db' \<and>
          Table_content t = (newName, tb_schema old, Table_rowsSnapshot old, tb_indexColumns old) \<and>
          (\<forall>n. Database_table n db' =
            (if n = newName then Some t else if n = oldName then None else Database_table n db))
    | _ \<Rightarrow> Database_renameTable oldName newName db = (db, Inr False)"
proof (cases "Database_table oldName db")
  case None
  then show ?thesis using Database_renameTable_refused[of oldName db newName] by simp
next
  case (Some old)
  show ?thesis
  proof (cases "Database_table newName db")
    case None
    show ?thesis unfolding Some None prod.case option.case
      using Database_renameTable_spec[OF assms(1) Some None assms(2)] by blast
  next
    case other: Some
    then show ?thesis using Database_renameTable_refused[of oldName db newName] Some by simp
  qed
qed

text \<open>A clone, the snapshot that BEGIN takes, is a well-formed database of the same content: name,
  tables, schemas, rows in order and indexes. Its version stores hold exactly the current rows,
  whatever history the original has.\<close>

lemma clone_copies_content:
  assumes "Database_inv db"
  shows "\<exists>db'. Database_clone db = Inr db' \<and> Database_inv db' \<and>
    Database_content db' = Database_content db \<and>
    (\<forall>(n, t) \<in> set (db_tables db'). Table_rowsSnapshotAt (- 1) t = Table_rowsSnapshot t)"
proof -
  obtain db' where db': "Database_clone db = Inr db'" "Database_inv db'"
    "Database_content db' = Database_content db"
    "\<forall>(n, t) \<in> set (db_tables db'). Table_versions_current t"
    using Database_clone_spec[OF assms] by blast
  then show ?thesis using Table_reads_current(1) by (fastforce simp: Database_inv_def)
qed

lemma clone_copies_content_witness:
  "\<exists>db'. Database_clone sample_database = Inr db' \<and>
    Database_content db' =
      (''city'', [(''people'', ''people'', sample_schema, sample_rows, [(''by_id'', 0)])])"
proof -
  have "Database_inv sample_database" using sample_database_facts by simp
  from clone_copies_content[OF this] show ?thesis
    using sample_database_facts sample_indexed_facts by (auto simp: Database_content_def Table_content_def)
qed

end
