(* ===== verification/Ast.thy ===== *)
theory Ast
  imports Values
begin

text \<open>
  \<open>parser/ast.hpp\<close>: the statements. \<open>Predicate\<close> holds the fields of all three kinds and a tag;
  the constructors of \<open>predicate\<close> are the three kinds with the fields each uses.
\<close>

datatype predicate =
    Comparison string comparison_operator sql_value
  | PAnd predicate predicate
  | POr predicate predicate

record order_by =
  ob_column :: string
  ob_ascending :: bool

record join_clause =
  jc_table :: string
  jc_leftColumn :: string
  jc_rightColumn :: string

text \<open>The limit is a \<open>size_t\<close>, converted from a signed literal.\<close>

record select_query =
  sel_table :: string
  sel_join :: "join_clause option"
  sel_columns :: "string list"
  sel_where :: "predicate option"
  sel_orderBy :: "order_by option"
  sel_limit :: "64 word option"

record update_query =
  upd_table :: string
  upd_column :: string
  upd_value :: sql_value
  upd_where :: "predicate option"

datatype query =
    CreateDatabase string
  | CreateTable string "column list"
  | DropTable string
  | RenameTable string string
  | ListTables
  | Insert string "row list"
  | Select select_query
  | Update update_query
  | Delete string "predicate option"
  | CreateIndex string string string
  | SaveDatabase
  | LoadDatabase "string option"
  | BeginTransaction
  | CommitTransaction
  | RollbackTransaction
  | PrepareStatement string string
  | ExecutePrepared string "sql_value list"
  | Exit

text \<open>The literal values in a statement.\<close>

fun predicate_values :: "predicate \<Rightarrow> sql_value set" where
  "predicate_values (Comparison _ _ v) = {v}"
| "predicate_values (PAnd p q) = predicate_values p \<union> predicate_values q"
| "predicate_values (POr p q) = predicate_values p \<union> predicate_values q"

definition where_values :: "predicate option \<Rightarrow> sql_value set" where
  "where_values w = (case w of None \<Rightarrow> {} | Some p \<Rightarrow> predicate_values p)"

fun query_values :: "query \<Rightarrow> sql_value set" where
  "query_values (Insert _ rows) = \<Union> (set ` set rows)"
| "query_values (Select s) = where_values (sel_where s)"
| "query_values (Update u) = insert (upd_value u) (where_values (upd_where u))"
| "query_values (Delete _ w) = where_values w"
| "query_values (ExecutePrepared _ vs) = set vs"
| "query_values _ = {}"

end
