(* ===== verification/Planner.thy ===== *)
theory Planner
  imports Ast Table
begin

text \<open>
  \<open>planner/query_planner.hpp\<close> and \<open>planner/query_planner.cpp\<close>: which access path a SELECT takes.
  An index is used for a single comparison on an indexed column, and only then
  (\<open>plan_path_iff\<close>).
\<close>

datatype access_path = FullScan | HashIndexLookup | OrderedIndexRange

record query_plan =
  qp_accessPath :: access_path
  qp_predicate :: "predicate option"
  qp_estimatedRows :: nat
  qp_estimatedCost :: double
  qp_explanation :: string

definition simpleComparison :: "predicate option \<Rightarrow> (string \<times> comparison_operator \<times> sql_value) option" where
  "simpleComparison p =
     (case p of Some (Comparison column op v) \<Rightarrow> Some (column, op, v) | _ \<Rightarrow> None)"

text \<open>\<open>static_cast<double>\<close> of a size: the nearest double.\<close>

definition dbl_of_nat :: "nat \<Rightarrow> double" where
  "dbl_of_nat n = (case dbl_round False n 1 of Inr d \<Rightarrow> d | Inl _ \<Rightarrow> 0)"

definition planSelect :: "select_query \<Rightarrow> vtable \<Rightarrow> query_plan" where
  "planSelect query t =
     (let plan = \<lparr>qp_accessPath = FullScan, qp_predicate = sel_where query,
                  qp_estimatedRows = Table_rowCount t,
                  qp_estimatedCost = dbl_of_nat (max (Table_rowCount t) 1),
                  qp_explanation = ''full table scan''\<rparr>
      in case simpleComparison (sel_where query) of
           None \<Rightarrow> plan
         | Some (column, op, _) \<Rightarrow>
             if op = Equal \<and> Table_hasIndex column t
             then plan\<lparr>qp_accessPath := HashIndexLookup,
                       qp_estimatedRows := min (qp_estimatedRows plan) 1,
                       qp_estimatedCost := dbl_of_nat 1,
                       qp_explanation := ''hash index equality lookup''\<rparr>
             else if (op = Greater \<or> op = Less) \<and> Table_hasOrderedIndex column t
             then (let rows = max (qp_estimatedRows plan div 3) 1
                   in plan\<lparr>qp_accessPath := OrderedIndexRange, qp_estimatedRows := rows,
                           qp_estimatedCost := dbl_of_nat rows,
                           qp_explanation := ''ordered index range lookup''\<rparr>)
             else plan)"

lemma plan_path_iff:
  "qp_accessPath (planSelect q t) = HashIndexLookup \<longleftrightarrow>
     (\<exists>column v. sel_where q = Some (Comparison column Equal v) \<and> Table_hasIndex column t)"
  "qp_accessPath (planSelect q t) = OrderedIndexRange \<longleftrightarrow>
     (\<exists>column op v. sel_where q = Some (Comparison column op v) \<and> op \<noteq> Equal \<and> Table_hasIndex column t)"
  by (auto simp: planSelect_def Let_def simpleComparison_def Table_hasOrderedIndex_def
      split: option.splits predicate.splits if_splits comparison_operator.splits)
    (metis comparison_operator.exhaust)

end
