(* ===== verification/Tokenizer.thy ===== *)
theory Tokenizer
  imports CharText
begin

text \<open>
  \<open>parser/token.hpp\<close>, \<open>parser/tokenizer.hpp\<close> and \<open>parser/tokenizer.cpp\<close>. The position in the
  text is the text that remains. The lemmas give the tokens of the texts the executor prints:
  a word, a number, a quoted text, and what follows them.
\<close>

datatype token_type =
    TkIdentifier | TkNumber | TkString | TkComma | TkSemicolon | TkLeftParen | TkRightParen
  | TkStar | TkEqual | TkGreater | TkLess | TkEnd

record token =
  tok_type :: token_type
  tok_lexeme :: string

definition mk_token :: "token_type \<Rightarrow> string \<Rightarrow> token" where
  "mk_token ty lexeme = \<lparr>tok_type = ty, tok_lexeme = lexeme\<rparr>"

lemma mk_token_simps [simp]: "tok_type (mk_token ty s) = ty" "tok_lexeme (mk_token ty s) = s"
  by (simp_all add: mk_token_def)

definition isIdentifierStart :: "char \<Rightarrow> bool" where
  "isIdentifierStart ch \<longleftrightarrow> isalpha ch \<or> ch = CHR ''_''"

definition isIdentifierPart :: "char \<Rightarrow> bool" where
  "isIdentifierPart ch \<longleftrightarrow> isalnum ch \<or> ch = CHR ''_'' \<or> ch = CHR ''.''"

definition isNumberPart :: "char \<Rightarrow> bool" where
  "isNumberPart ch \<longleftrightarrow> isdigit ch \<or> ch = CHR ''.''"

declare isIdentifierStart_def [char_evals] isIdentifierPart_def [char_evals] isNumberPart_def [char_evals]

text \<open>
  The body of a string literal, after the opening quote: its value and the text after the
  closing quote. A backslash takes the next character as it is.
\<close>

fun scan_string :: "string \<Rightarrow> (string \<times> string) outcome" where
  "scan_string [] = Inl (RuntimeError ''unterminated string literal'')"
| "scan_string (c # cs) =
     (if c = CHR 0x22 then Inr ([], cs)
      else if c = CHR 0x5C then
        (case cs of
           [] \<Rightarrow> Inl (RuntimeError ''unterminated string literal'')
         | d # ds \<Rightarrow> ebind (scan_string ds) (\<lambda>(v, rest). Inr (d # v, rest)))
      else ebind (scan_string cs) (\<lambda>(v, rest). Inr (c # v, rest)))"

lemma scan_string_shorter: "scan_string cs = Inr (v, rest) \<Longrightarrow> length rest < length cs"
proof (induction cs arbitrary: v rest rule: scan_string.induct)
  case (2 c cs)
  then show ?case by (fastforce simp: ebind_eq_Inr split: if_splits list.splits)
qed simp

definition punctuation :: "char \<Rightarrow> token outcome" where
  "punctuation ch =
     (if ch = CHR '','' then Inr (mk_token TkComma '','')
      else if ch = CHR '';'' then Inr (mk_token TkSemicolon '';'')
      else if ch = CHR ''('' then Inr (mk_token TkLeftParen ''('')
      else if ch = CHR '')'' then Inr (mk_token TkRightParen '')'')
      else if ch = CHR ''*'' then Inr (mk_token TkStar ''*'')
      else if ch = CHR ''='' then Inr (mk_token TkEqual ''='')
      else if ch = CHR ''>'' then Inr (mk_token TkGreater ''>'')
      else if ch = CHR ''<'' then Inr (mk_token TkLess ''<'')
      else Inl (RuntimeError ''unexpected character in SQL input''))"

definition push_token :: "token \<Rightarrow> token list outcome \<Rightarrow> token list outcome" where
  "push_token t rest = ebind rest (\<lambda>ts. Inr (t # ts))"

function tokenize :: "string \<Rightarrow> token list outcome" where
  "tokenize [] = Inr [mk_token TkEnd []]"
| "tokenize (ch # cs) =
     (if isspace ch then tokenize cs
      else if isIdentifierStart ch then
        push_token (mk_token TkIdentifier (ch # takeWhile isIdentifierPart cs))
          (tokenize (dropWhile isIdentifierPart cs))
      else if isdigit ch \<or> ch = CHR ''-'' then
        push_token (mk_token TkNumber (ch # takeWhile isNumberPart cs))
          (tokenize (dropWhile isNumberPart cs))
      else if ch = CHR 0x22 then
        ebind (scan_string cs) (\<lambda>(v, rest). push_token (mk_token TkString v) (tokenize rest))
      else ebind (punctuation ch) (\<lambda>t. push_token t (tokenize cs)))"
  by pat_completeness auto
termination
  by (relation "measure length")
    (auto simp: less_Suc_eq_le length_dropWhile_le scan_string_shorter less_imp_le)

declare tokenize.simps(2) [simp del]

section \<open>Quoting\<close>

text \<open>
  The text the executor writes for a string value, between its quotes: a backslash before
  every quote and backslash. Scanning gives the value back whatever it contains, and stops at
  the closing quote: no value can end its literal early.
\<close>

definition escape_string :: "string \<Rightarrow> string" where
  "escape_string s = concat (map (\<lambda>c. if c = CHR 0x22 \<or> c = CHR 0x5C then [CHR 0x5C, c] else [c]) s)"

lemma scan_string_escape: "scan_string (escape_string s @ CHR 0x22 # rest) = Inr (s, rest)"
  by (induction s) (auto simp: escape_string_def)

section \<open>Tokens of printed text\<close>

lemma push_token_Inr [simp]: "push_token t (Inr ts) = Inr (t # ts)"
  by (simp add: push_token_def)

definition word_text :: "string \<Rightarrow> bool" where
  "word_text w \<longleftrightarrow> (case w of [] \<Rightarrow> False | c # cs \<Rightarrow> isIdentifierStart c \<and> list_all isIdentifierPart cs)"

definition number_text :: "string \<Rightarrow> bool" where
  "number_text w \<longleftrightarrow>
     (case w of [] \<Rightarrow> False | c # cs \<Rightarrow> (isdigit c \<or> c = CHR ''-'') \<and> list_all isNumberPart cs)"

definition stops :: "(char \<Rightarrow> bool) \<Rightarrow> string \<Rightarrow> bool" where
  "stops P s \<longleftrightarrow> (case s of [] \<Rightarrow> True | c # _ \<Rightarrow> \<not> P c)"

lemma stops_take_drop:
  "list_all P w \<Longrightarrow> stops P s \<Longrightarrow> takeWhile P (w @ s) = w \<and> dropWhile P (w @ s) = s"
  by (induction w) (auto simp: stops_def split: list.splits)

lemma isspace_not_word: "isIdentifierStart c \<Longrightarrow> \<not> isspace c" "isdigit c \<Longrightarrow> \<not> isspace c"
  "isdigit c \<Longrightarrow> \<not> isIdentifierStart c"
  by (auto simp: isIdentifierStart_def isspace_def isalpha_def isdigit_def ccode_def)

lemma minus_not_word: "\<not> isspace (CHR ''-'')" "\<not> isIdentifierStart (CHR ''-'')"
  by (simp_all add: isIdentifierStart_def isspace_def isalpha_def ccode_def)

lemma tokenize_word:
  "word_text w \<Longrightarrow> stops isIdentifierPart s \<Longrightarrow>
   tokenize (w @ s) = push_token (mk_token TkIdentifier w) (tokenize s)"
proof -
  assume "word_text w" and stop: "stops isIdentifierPart s"
  then obtain c cs where w: "w = c # cs" "isIdentifierStart c" "list_all isIdentifierPart cs"
    by (cases w) (auto simp: word_text_def)
  with stops_take_drop[OF w(3) stop] isspace_not_word(1)[OF w(2)] show ?thesis
    by (simp add: tokenize.simps(2))
qed

lemma tokenize_number:
  assumes "number_text w" and "stops isNumberPart s"
  shows "tokenize (w @ s) = push_token (mk_token TkNumber w) (tokenize s)"
proof -
  obtain c cs where w: "w = c # cs" "isdigit c \<or> c = CHR ''-''" "list_all isNumberPart cs"
    using assms(1) by (cases w) (auto simp: number_text_def)
  have "\<not> isspace c" "\<not> isIdentifierStart c"
    using w(2) isspace_not_word minus_not_word by blast+
  with w stops_take_drop[OF w(3) assms(2)] show ?thesis by (simp add: tokenize.simps(2))
qed

lemma tokenize_quoted:
  "tokenize (CHR 0x22 # escape_string v @ CHR 0x22 # s) = push_token (mk_token TkString v) (tokenize s)"
  by (simp add: tokenize.simps(2) scan_string_escape isspace_def isIdentifierStart_def isalpha_def isdigit_def ccode_def)

lemma tokenize_space: "tokenize (CHR '' '' # s) = tokenize s"
  by (simp add: tokenize.simps(2) isspace_def ccode_def)

lemma tokenize_punctuation:
  "tokenize (CHR '','' # s) = push_token (mk_token TkComma '','') (tokenize s)"
  "tokenize (CHR '';'' # s) = push_token (mk_token TkSemicolon '';'') (tokenize s)"
  "tokenize (CHR ''('' # s) = push_token (mk_token TkLeftParen ''('') (tokenize s)"
  "tokenize (CHR '')'' # s) = push_token (mk_token TkRightParen '')'') (tokenize s)"
  "tokenize (CHR ''*'' # s) = push_token (mk_token TkStar ''*'') (tokenize s)"
  "tokenize (CHR ''='' # s) = push_token (mk_token TkEqual ''='') (tokenize s)"
  "tokenize (CHR ''>'' # s) = push_token (mk_token TkGreater ''>'') (tokenize s)"
  "tokenize (CHR ''<'' # s) = push_token (mk_token TkLess ''<'') (tokenize s)"
  by (simp_all add: tokenize.simps(2) isspace_def isIdentifierStart_def isalpha_def isdigit_def ccode_def punctuation_def)

lemma show_int_number: "number_text (show_int i)"
proof -
  have parts: "list_all isNumberPart (show_nat n)" for n
    using show_nat_digits[of n] by (simp add: list_all_iff isNumberPart_def)
  show ?thesis
  proof (cases "i < 0")
    case True
    then show ?thesis using parts by (simp add: show_int_def number_text_def)
  next
    case False
    obtain c cs where s: "show_nat (nat i) = c # cs" by (cases "show_nat (nat i)") auto
    with False parts[of "nat i"] show_nat_hd[OF s] show ?thesis
      by (simp add: show_int_def number_text_def)
  qed
qed

text \<open>Every token list ends with the end token, and has no other.\<close>

lemma tokenize_End:
  "tokenize s = Inr ts \<Longrightarrow> \<exists>us. ts = us @ [mk_token TkEnd []] \<and> (\<forall>t \<in> set us. tok_type t \<noteq> TkEnd)"
proof (induction s arbitrary: ts rule: tokenize.induct)
  case 1
  then show ?case by simp
next
  case (2 ch cs)
  have push: "\<exists>us. t # ts' = us @ [mk_token TkEnd []] \<and> (\<forall>t \<in> set us. tok_type t \<noteq> TkEnd)"
    if nt: "tok_type t \<noteq> TkEnd" and ex: "\<exists>us. ts' = us @ [mk_token TkEnd []] \<and> (\<forall>t \<in> set us. tok_type t \<noteq> TkEnd)"
    for t ts'
  proof -
    obtain us where "ts' = us @ [mk_token TkEnd []]" "\<forall>t \<in> set us. tok_type t \<noteq> TkEnd" using ex by blast
    with nt show ?thesis by (intro exI[of _ "t # us"]) simp
  qed
  have punct: "tok_type t \<noteq> TkEnd" if "punctuation ch = Inr t" for t
    using that by (auto simp: punctuation_def mk_token_def split: if_splits)
  consider "isspace ch" | "\<not> isspace ch" "isIdentifierStart ch"
    | "\<not> isspace ch" "\<not> isIdentifierStart ch" "isdigit ch \<or> ch = CHR ''-''"
    | "\<not> isspace ch" "\<not> isIdentifierStart ch" "\<not> (isdigit ch \<or> ch = CHR ''-'')" "ch = CHR 0x22"
    | "\<not> isspace ch" "\<not> isIdentifierStart ch" "\<not> (isdigit ch \<or> ch = CHR ''-'')" "ch \<noteq> CHR 0x22"
    by blast
  then show ?case
  proof cases
    case 1
    with 2 show ?thesis by (simp add: tokenize.simps(2))
  next
    case c: 2
    with 2 show ?thesis by (auto simp: tokenize.simps(2) push_token_def ebind_eq_Inr intro!: push)
  next
    case 3
    with 2 show ?thesis by (auto simp: tokenize.simps(2) push_token_def ebind_eq_Inr intro!: push)
  next
    case 4
    with "2.prems" obtain v rest ts' where "scan_string cs = Inr (v, rest)" "tokenize rest = Inr ts'"
      "ts = mk_token TkString v # ts'"
      by (auto simp: tokenize.simps(2) push_token_def ebind_eq_Inr)
    moreover from this 4 2 have "\<exists>us. ts' = us @ [mk_token TkEnd []] \<and> (\<forall>t \<in> set us. tok_type t \<noteq> TkEnd)"
      by blast
    ultimately show ?thesis using push[of "mk_token TkString v" ts'] by simp
  next
    case 5
    with 2 show ?thesis by (auto simp: tokenize.simps(2) push_token_def ebind_eq_Inr intro!: push punct)
  qed
qed

end
