(* ===== verification/Parser.thy ===== *)
theory Parser
  imports Ast Tokenizer
begin

text \<open>
  \<open>parser/parser.hpp\<close> and \<open>parser/parser.cpp\<close>. The span and the position \<open>current_\<close> are the
  tokens that remain; a parsing function returns its result and the tokens after it. A
  \<open>do ... while (match(Comma))\<close> loop is a recursive function, and so is each \<open>while\<close> loop of the
  predicate grammar; they end because a match or a primary predicate consumes a token.
  \<open>Parser_parse\<close> is the parser of a text.
\<close>

type_synonym 'a parser = "token list \<Rightarrow> ('a \<times> token list) outcome"

definition equalsIgnoreCase :: "string \<Rightarrow> string \<Rightarrow> bool" where
  "equalsIgnoreCase lhs rhs \<longleftrightarrow> length lhs = length rhs \<and> map toupper lhs = map toupper rhs"

section \<open>Primitives\<close>

definition Parser_peek :: "token list \<Rightarrow> token outcome" where
  "Parser_peek ts =
     (case ts of
        [] \<Rightarrow> Inl (RuntimeError ''parser read past end of token stream'')
      | t # _ \<Rightarrow> Inr t)"

definition Parser_advance :: "token parser" where
  "Parser_advance ts =
     ebind (Parser_peek ts) (\<lambda>t. Inr (t, if tok_type t \<noteq> TkEnd then tl ts else ts))"

definition Parser_match :: "token_type \<Rightarrow> string \<Rightarrow> bool parser" where
  "Parser_match ty lexeme ts =
     ebind (Parser_peek ts) (\<lambda>t.
       if tok_type t \<noteq> ty then Inr (False, ts)
       else if lexeme \<noteq> [] \<and> \<not> equalsIgnoreCase (tok_lexeme t) lexeme then Inr (False, ts)
       else ebind (Parser_advance ts) (\<lambda>(_, ts'). Inr (True, ts')))"

definition Parser_expect :: "token_type \<Rightarrow> string \<Rightarrow> unit parser" where
  "Parser_expect ty lexeme ts =
     ebind (Parser_match ty lexeme ts) (\<lambda>(matched, ts').
       if \<not> matched then Inl (RuntimeError ''unexpected token'') else Inr ((), ts'))"

definition Parser_expectStatementEnd :: "unit parser" where
  "Parser_expectStatementEnd ts =
     ebind (Parser_match TkSemicolon [] ts) (\<lambda>(_, ts1).
     ebind (Parser_peek ts1) (\<lambda>t.
       if tok_type t \<noteq> TkEnd then Inl (RuntimeError ''unexpected trailing token'') else Inr ((), ts1)))"

text \<open>\<open>advance()\<close>, then a check that the token is an identifier: its lexeme.\<close>

definition expect_name :: "string \<Rightarrow> string parser" where
  "expect_name message ts =
     ebind (Parser_advance ts) (\<lambda>(t, ts').
       if tok_type t \<noteq> TkIdentifier then Inl (RuntimeError message) else Inr (tok_lexeme t, ts'))"

definition parseValue :: "sql_value parser" where
  "parseValue ts =
     ebind (Parser_advance ts) (\<lambda>(t, ts').
       if tok_type t = TkIdentifier \<and> equalsIgnoreCase (tok_lexeme t) ''NULL'' then Inr (VNull, ts')
       else if tok_type t = TkString then Inr (VString (tok_lexeme t), ts')
       else if tok_type t = TkNumber then
         (if CHR ''.'' \<in> set (tok_lexeme t)
          then ebind (stod (tok_lexeme t)) (\<lambda>d. Inr (VDouble d, ts'))
          else ebind (parseInt (tok_lexeme t)) (\<lambda>i. Inr (VInt i, ts')))
       else Inl (RuntimeError ''expected literal value''))"

subsection \<open>How many tokens remain\<close>

lemma Parser_advance_length: "Parser_advance ts = Inr (t, ts') \<Longrightarrow> length ts' \<le> length ts"
  by (auto simp: Parser_advance_def ebind_eq_Inr split: if_splits)

lemma Parser_advance_shorter:
  "Parser_advance ts = Inr (t, ts') \<Longrightarrow> tok_type t \<noteq> TkEnd \<Longrightarrow> length ts' < length ts"
  by (auto simp: Parser_advance_def Parser_peek_def ebind_eq_Inr split: list.splits)

lemma Parser_match_True:
  "Parser_match ty lexeme ts = Inr (b, ts') \<Longrightarrow> b \<Longrightarrow> ty \<noteq> TkEnd \<Longrightarrow> length ts' < length ts"
  by (auto simp: Parser_match_def ebind_eq_Inr Parser_advance_def Parser_peek_def
      split: if_splits list.splits)

lemma Parser_match_False: "Parser_match ty lexeme ts = Inr (False, ts') \<Longrightarrow> ts' = ts"
  by (auto simp: Parser_match_def ebind_eq_Inr split: if_splits)

lemma Parser_match_length: "Parser_match ty lexeme ts = Inr (b, ts') \<Longrightarrow> length ts' \<le> length ts"
  by (auto simp: Parser_match_def ebind_eq_Inr dest: Parser_advance_length split: if_splits)

lemma Parser_expect_length: "Parser_expect ty lexeme ts = Inr (u, ts') \<Longrightarrow> length ts' \<le> length ts"
  by (auto simp: Parser_expect_def ebind_eq_Inr dest: Parser_match_length split: if_splits)

lemma Parser_expect_shorter:
  "Parser_expect ty lexeme ts = Inr (u, ts') \<Longrightarrow> ty \<noteq> TkEnd \<Longrightarrow> length ts' < length ts"
  by (auto simp: Parser_expect_def ebind_eq_Inr dest: Parser_match_True split: if_splits)

lemma expect_name_shorter: "expect_name m ts = Inr (n, ts') \<Longrightarrow> length ts' < length ts"
  by (auto simp: expect_name_def ebind_eq_Inr dest: Parser_advance_shorter split: if_splits)

lemma parseValue_shorter: "parseValue ts = Inr (v, ts') \<Longrightarrow> length ts' < length ts"
  by (auto simp: parseValue_def ebind_eq_Inr dest: Parser_advance_shorter split: if_splits)

section \<open>Lists separated by commas\<close>

function parse_values :: "sql_value list parser" where
  "parse_values ts =
     ebind (parseValue ts) (\<lambda>(v, ts1).
     ebind (Parser_match TkComma [] ts1) (\<lambda>(more, ts2).
       if more then ebind (parse_values ts2) (\<lambda>(vs, ts3). Inr (v # vs, ts3)) else Inr ([v], ts2)))"
  by pat_completeness auto
termination
  by (relation "measure length") (auto dest!: parseValue_shorter Parser_match_length)

declare parse_values.simps [simp del]

text \<open>\<open>expect(LeftParen)\<close>, values, \<open>expect(RightParen)\<close>.\<close>

definition parse_tuple :: "sql_value list parser" where
  "parse_tuple ts =
     ebind (Parser_expect TkLeftParen [] ts) (\<lambda>(_, ts1).
     ebind (parse_values ts1) (\<lambda>(vs, ts2).
     ebind (Parser_expect TkRightParen [] ts2) (\<lambda>(_, ts3). Inr (vs, ts3))))"

lemma parse_values_length: "parse_values ts = Inr (vs, ts') \<Longrightarrow> length ts' \<le> length ts"
proof (induction ts arbitrary: vs ts' rule: parse_values.induct)
  case (1 ts)
  from "1.prems" obtain v ts1 more ts2 where
    h: "parseValue ts = Inr (v, ts1)" "Parser_match TkComma [] ts1 = Inr (more, ts2)"
    and t: "if more then \<exists>us. parse_values ts2 = Inr (us, ts') else ts' = ts2"
    by (subst (asm) parse_values.simps) (auto simp: ebind_eq_Inr split: if_splits)
  have "length ts2 \<le> length ts" using h parseValue_shorter Parser_match_length by fastforce
  with t "1.IH"[OF h(1) refl h(2) refl] show ?case by (fastforce split: if_splits)
qed

lemma parse_tuple_shorter: "parse_tuple ts = Inr (vs, ts') \<Longrightarrow> length ts' < length ts"
  by (auto simp: parse_tuple_def ebind_eq_Inr dest!: parse_values_length Parser_expect_shorter)

function parse_tuples :: "row list parser" where
  "parse_tuples ts =
     ebind (parse_tuple ts) (\<lambda>(vs, ts1).
     ebind (Parser_match TkComma [] ts1) (\<lambda>(more, ts2).
       if more then ebind (parse_tuples ts2) (\<lambda>(vss, ts3). Inr (vs # vss, ts3)) else Inr ([vs], ts2)))"
  by pat_completeness auto
termination
  by (relation "measure length") (auto dest!: parse_tuple_shorter Parser_match_length)

declare parse_tuples.simps [simp del]

definition parse_column :: "column parser" where
  "parse_column ts =
     ebind (expect_name ''expected column name'' ts) (\<lambda>(name, ts1).
     ebind (expect_name ''expected column type'' ts1) (\<lambda>(typeName, ts2).
       (case columnTypeFromString typeName of
          None \<Rightarrow> Inl (RuntimeError ''unsupported column type'')
        | Some ty \<Rightarrow>
            ebind (Parser_match TkIdentifier ''NOT'' ts2) (\<lambda>(isNot, ts3).
              if isNot then ebind (Parser_expect TkIdentifier ''NULL'' ts3) (\<lambda>(_, ts4).
                Inr (\<lparr>col_name = name, col_type = ty, col_nullable = False\<rparr>, ts4))
              else ebind (Parser_match TkIdentifier ''NULL'' ts3) (\<lambda>(nullable, ts4).
                Inr (\<lparr>col_name = name, col_type = ty, col_nullable = nullable\<rparr>, ts4))))))"

lemma parse_column_shorter: "parse_column ts = Inr (c, ts') \<Longrightarrow> length ts' < length ts"
  unfolding parse_column_def
  by (auto simp: ebind_eq_Inr dest!: expect_name_shorter Parser_match_length Parser_expect_length
      split: option.splits if_splits)

function parse_columns :: "column list parser" where
  "parse_columns ts =
     ebind (parse_column ts) (\<lambda>(c, ts1).
     ebind (Parser_match TkComma [] ts1) (\<lambda>(more, ts2).
       if more then ebind (parse_columns ts2) (\<lambda>(cs, ts3). Inr (c # cs, ts3)) else Inr ([c], ts2)))"
  by pat_completeness auto
termination
  by (relation "measure length") (auto dest!: parse_column_shorter Parser_match_length)

declare parse_columns.simps [simp del]

function parse_names :: "string list parser" where
  "parse_names ts =
     ebind (expect_name ''expected selected column'' ts) (\<lambda>(n, ts1).
     ebind (Parser_match TkComma [] ts1) (\<lambda>(more, ts2).
       if more then ebind (parse_names ts2) (\<lambda>(ns, ts3). Inr (n # ns, ts3)) else Inr ([n], ts2)))"
  by pat_completeness auto
termination
  by (relation "measure length") (auto dest!: expect_name_shorter Parser_match_length)

declare parse_names.simps [simp del]

section \<open>Predicates\<close>

definition parseComparisonPredicate :: "predicate parser" where
  "parseComparisonPredicate ts =
     ebind (expect_name ''expected predicate column'' ts) (\<lambda>(column, ts1).
     ebind (Parser_match TkEqual [] ts1) (\<lambda>(eq, ts2).
     ebind (if eq then Inr (Equal, ts2)
            else ebind (Parser_match TkGreater [] ts2) (\<lambda>(gt, ts3).
              if gt then Inr (Greater, ts3)
              else ebind (Parser_match TkLess [] ts3) (\<lambda>(less, ts4).
                if less then Inr (Less, ts4)
                else Inl (RuntimeError ''expected comparison operator'')))) (\<lambda>(op, ts5).
     ebind (parseValue ts5) (\<lambda>(v, ts6). Inr (Comparison column op v, ts6)))))"

lemma parseComparisonPredicate_shorter:
  "parseComparisonPredicate ts = Inr (p, ts') \<Longrightarrow> length ts' < length ts"
  unfolding parseComparisonPredicate_def
  by (auto simp: ebind_eq_Inr dest!: expect_name_shorter Parser_match_length parseValue_shorter
      split: if_splits)

function parseOrPredicate :: "predicate parser"
  and or_loop :: "predicate \<Rightarrow> predicate parser"
  and parseAndPredicate :: "predicate parser"
  and and_loop :: "predicate \<Rightarrow> predicate parser"
  and parsePrimaryPredicate :: "predicate parser" where
  "parseOrPredicate ts = ebind (parseAndPredicate ts) (\<lambda>(p, ts1). or_loop p ts1)"
| "or_loop p ts =
     ebind (Parser_match TkIdentifier ''OR'' ts) (\<lambda>(more, ts1).
       if more then ebind (parseAndPredicate ts1) (\<lambda>(q, ts2). or_loop (POr p q) ts2)
       else Inr (p, ts1))"
| "parseAndPredicate ts = ebind (parsePrimaryPredicate ts) (\<lambda>(p, ts1). and_loop p ts1)"
| "and_loop p ts =
     ebind (Parser_match TkIdentifier ''AND'' ts) (\<lambda>(more, ts1).
       if more then ebind (parsePrimaryPredicate ts1) (\<lambda>(q, ts2). and_loop (PAnd p q) ts2)
       else Inr (p, ts1))"
| "parsePrimaryPredicate ts =
     ebind (Parser_match TkLeftParen [] ts) (\<lambda>(open, ts1).
       if open then ebind (parseOrPredicate ts1) (\<lambda>(p, ts2).
         ebind (Parser_expect TkRightParen [] ts2) (\<lambda>(_, ts3). Inr (p, ts3)))
       else parseComparisonPredicate ts1)"
  by pat_completeness auto

text \<open>Before the functions are known to end: where they do, they return no more tokens than they got.\<close>

lemma predicate_parsers_length:
  "parseOrPredicate_or_loop_parseAndPredicate_and_loop_parsePrimaryPredicate_dom (Inl (Inl ts1)) \<Longrightarrow>
   parseOrPredicate ts1 = Inr (q, ts') \<Longrightarrow> length ts' \<le> length ts1"
  "parseOrPredicate_or_loop_parseAndPredicate_and_loop_parsePrimaryPredicate_dom (Inl (Inr (p2, ts2))) \<Longrightarrow>
   or_loop p2 ts2 = Inr (q, ts') \<Longrightarrow> length ts' \<le> length ts2"
  "parseOrPredicate_or_loop_parseAndPredicate_and_loop_parsePrimaryPredicate_dom (Inr (Inl ts3)) \<Longrightarrow>
   parseAndPredicate ts3 = Inr (q, ts') \<Longrightarrow> length ts' \<le> length ts3"
  "parseOrPredicate_or_loop_parseAndPredicate_and_loop_parsePrimaryPredicate_dom (Inr (Inr (Inl (p4, ts4)))) \<Longrightarrow>
   and_loop p4 ts4 = Inr (q, ts') \<Longrightarrow> length ts' \<le> length ts4"
  "parseOrPredicate_or_loop_parseAndPredicate_and_loop_parsePrimaryPredicate_dom (Inr (Inr (Inr ts5))) \<Longrightarrow>
   parsePrimaryPredicate ts5 = Inr (q, ts') \<Longrightarrow> length ts' \<le> length ts5"
proof (induction ts1 and p2 ts2 and ts3 and p4 ts4 and ts5 arbitrary: q ts' and q ts' and q ts' and q ts' and q ts'
    rule: parseOrPredicate_or_loop_parseAndPredicate_and_loop_parsePrimaryPredicate.pinduct)
  case (1 ts)
  then show ?case by (fastforce simp: parseOrPredicate.psimps ebind_eq_Inr)
next
  case (2 p ts)
  then show ?case
    by (fastforce simp: or_loop.psimps ebind_eq_Inr dest: Parser_match_length split: if_splits)
next
  case (3 ts)
  then show ?case by (fastforce simp: parseAndPredicate.psimps ebind_eq_Inr)
next
  case (4 p ts)
  then show ?case
    by (fastforce simp: and_loop.psimps ebind_eq_Inr dest: Parser_match_length split: if_splits)
next
  case (5 ts)
  then show ?case
    by (fastforce simp: parsePrimaryPredicate.psimps ebind_eq_Inr
        dest: Parser_match_length Parser_expect_length parseComparisonPredicate_shorter split: if_splits)
qed

termination parseOrPredicate
proof (relation "inv_image (less_than <*lex*> less_than) (\<lambda>x. case x of
    Inl (Inl ts) \<Rightarrow> (length ts, 4 :: nat)
  | Inl (Inr (p, ts)) \<Rightarrow> (length ts, 0)
  | Inr (Inl ts) \<Rightarrow> (length ts, 3)
  | Inr (Inr (Inl (p, ts))) \<Rightarrow> (length ts, 0)
  | Inr (Inr (Inr ts)) \<Rightarrow> (length ts, 2))", goal_cases)
  case 1
  then show ?case by auto
qed (auto dest!: Parser_match_True predicate_parsers_length)

declare parseOrPredicate.simps [simp del] or_loop.simps [simp del] parseAndPredicate.simps [simp del]
  and_loop.simps [simp del] parsePrimaryPredicate.simps [simp del]

definition parsePredicate :: "predicate parser" where
  "parsePredicate ts = parseOrPredicate ts"

text \<open>\<open>if (match(Identifier, "WHERE")) where = parsePredicate();\<close>\<close>

definition parse_where :: "predicate option parser" where
  "parse_where ts =
     ebind (Parser_match TkIdentifier ''WHERE'' ts) (\<lambda>(present, ts1).
       if present then ebind (parsePredicate ts1) (\<lambda>(p, ts2). Inr (Some p, ts2)) else Inr (None, ts1))"

section \<open>Statements\<close>

definition parseCreateDatabase :: "query parser" where
  "parseCreateDatabase ts =
     ebind (expect_name ''expected database name'' ts) (\<lambda>(name, ts1). Inr (CreateDatabase name, ts1))"

definition parseCreateTable :: "query parser" where
  "parseCreateTable ts =
     ebind (expect_name ''expected table name'' ts) (\<lambda>(table, ts1).
     ebind (Parser_expect TkLeftParen [] ts1) (\<lambda>(_, ts2).
     ebind (parse_columns ts2) (\<lambda>(columns, ts3).
     ebind (Parser_expect TkRightParen [] ts3) (\<lambda>(_, ts4). Inr (CreateTable table columns, ts4)))))"

definition parseDropTable :: "query parser" where
  "parseDropTable ts =
     ebind (Parser_expect TkIdentifier ''TABLE'' ts) (\<lambda>(_, ts1).
     ebind (expect_name ''expected table name'' ts1) (\<lambda>(table, ts2). Inr (DropTable table, ts2)))"

definition parseRenameTable :: "query parser" where
  "parseRenameTable ts =
     ebind (Parser_expect TkIdentifier ''TABLE'' ts) (\<lambda>(_, ts1).
     ebind (expect_name ''expected source table name'' ts1) (\<lambda>(oldName, ts2).
     ebind (Parser_expect TkIdentifier ''TO'' ts2) (\<lambda>(_, ts3).
     ebind (expect_name ''expected destination table name'' ts3) (\<lambda>(newName, ts4).
       Inr (RenameTable oldName newName, ts4)))))"

definition parseCreateIndex :: "query parser" where
  "parseCreateIndex ts =
     ebind (expect_name ''expected index name'' ts) (\<lambda>(index, ts1).
     ebind (Parser_expect TkIdentifier ''ON'' ts1) (\<lambda>(_, ts2).
     ebind (expect_name ''expected indexed table name'' ts2) (\<lambda>(table, ts3).
     ebind (Parser_expect TkLeftParen [] ts3) (\<lambda>(_, ts4).
     ebind (expect_name ''expected indexed column name'' ts4) (\<lambda>(column, ts5).
     ebind (Parser_expect TkRightParen [] ts5) (\<lambda>(_, ts6).
       Inr (CreateIndex index table column, ts6)))))))"

definition parseInsert :: "query parser" where
  "parseInsert ts =
     ebind (Parser_expect TkIdentifier ''INTO'' ts) (\<lambda>(_, ts1).
     ebind (expect_name ''expected table name'' ts1) (\<lambda>(table, ts2).
     ebind (Parser_expect TkIdentifier ''VALUES'' ts2) (\<lambda>(_, ts3).
     ebind (parse_tuples ts3) (\<lambda>(rows, ts4). Inr (Insert table rows, ts4)))))"

definition parse_join :: "join_clause option parser" where
  "parse_join ts =
     ebind (Parser_match TkIdentifier ''JOIN'' ts) (\<lambda>(present, ts1).
       if \<not> present then Inr (None, ts1)
       else
         ebind (expect_name ''expected joined table name'' ts1) (\<lambda>(table, ts2).
         ebind (Parser_expect TkIdentifier ''ON'' ts2) (\<lambda>(_, ts3).
         ebind (expect_name ''expected left join column'' ts3) (\<lambda>(l, ts4).
         ebind (Parser_expect TkEqual [] ts4) (\<lambda>(_, ts5).
         ebind (expect_name ''expected right join column'' ts5) (\<lambda>(r, ts6).
           Inr (Some \<lparr>jc_table = table, jc_leftColumn = l, jc_rightColumn = r\<rparr>, ts6)))))))"

text \<open>\<open>DESC\<close> clears the flag; otherwise an \<open>ASC\<close> may be there.\<close>

definition parse_order_by :: "order_by option parser" where
  "parse_order_by ts =
     ebind (Parser_match TkIdentifier ''ORDER'' ts) (\<lambda>(present, ts1).
       if \<not> present then Inr (None, ts1)
       else
         ebind (Parser_expect TkIdentifier ''BY'' ts1) (\<lambda>(_, ts2).
         ebind (expect_name ''expected ORDER BY column'' ts2) (\<lambda>(column, ts3).
         ebind (Parser_match TkIdentifier ''DESC'' ts3) (\<lambda>(desc, ts4).
           if desc then Inr (Some \<lparr>ob_column = column, ob_ascending = False\<rparr>, ts4)
           else ebind (Parser_match TkIdentifier ''ASC'' ts4) (\<lambda>(_, ts5).
             Inr (Some \<lparr>ob_column = column, ob_ascending = True\<rparr>, ts5))))))"

definition parse_limit :: "64 word option parser" where
  "parse_limit ts =
     ebind (Parser_match TkIdentifier ''LIMIT'' ts) (\<lambda>(present, ts1).
       if \<not> present then Inr (None, ts1)
       else
         ebind (Parser_advance ts1) (\<lambda>(count, ts2).
           if tok_type count \<noteq> TkNumber then Inl (RuntimeError ''expected numeric limit'')
           else ebind (parseInt (tok_lexeme count)) (\<lambda>n. Inr (Some n, ts2))))"

definition parseSelect :: "query parser" where
  "parseSelect ts =
     ebind (Parser_match TkStar [] ts) (\<lambda>(star, ts1).
     ebind (if star then Inr ([''*''], ts1) else parse_names ts1) (\<lambda>(columns, ts2).
     ebind (Parser_expect TkIdentifier ''FROM'' ts2) (\<lambda>(_, ts3).
     ebind (expect_name ''expected table name'' ts3) (\<lambda>(table, ts4).
     ebind (parse_join ts4) (\<lambda>(join, ts5).
     ebind (parse_where ts5) (\<lambda>(cond, ts6).
     ebind (parse_order_by ts6) (\<lambda>(orderBy, ts7).
     ebind (parse_limit ts7) (\<lambda>(limit, ts8).
       Inr (Select \<lparr>sel_table = table, sel_join = join, sel_columns = columns, sel_where = cond,
              sel_orderBy = orderBy, sel_limit = limit\<rparr>, ts8)))))))))"

definition parseUpdate :: "query parser" where
  "parseUpdate ts =
     ebind (expect_name ''expected table name'' ts) (\<lambda>(table, ts1).
     ebind (Parser_expect TkIdentifier ''SET'' ts1) (\<lambda>(_, ts2).
     ebind (expect_name ''expected update column'' ts2) (\<lambda>(column, ts3).
     ebind (Parser_expect TkEqual [] ts3) (\<lambda>(_, ts4).
     ebind (parseValue ts4) (\<lambda>(v, ts5).
     ebind (parse_where ts5) (\<lambda>(cond, ts6).
       Inr (Update \<lparr>upd_table = table, upd_column = column, upd_value = v, upd_where = cond\<rparr>, ts6)))))))"

definition parseDelete :: "query parser" where
  "parseDelete ts =
     ebind (Parser_expect TkIdentifier ''FROM'' ts) (\<lambda>(_, ts1).
     ebind (expect_name ''expected table name'' ts1) (\<lambda>(table, ts2).
     ebind (parse_where ts2) (\<lambda>(cond, ts3). Inr (Delete table cond, ts3))))"

definition parsePrepare :: "query parser" where
  "parsePrepare ts =
     ebind (expect_name ''expected prepared statement name'' ts) (\<lambda>(name, ts1).
     ebind (Parser_expect TkIdentifier ''AS'' ts1) (\<lambda>(_, ts2).
     ebind (Parser_advance ts2) (\<lambda>(sql, ts3).
       if tok_type sql \<noteq> TkString then Inl (RuntimeError ''expected prepared SQL string'')
       else Inr (PrepareStatement name (tok_lexeme sql), ts3))))"

definition parseExecutePrepared :: "query parser" where
  "parseExecutePrepared ts =
     ebind (expect_name ''expected prepared statement name'' ts) (\<lambda>(name, ts1).
     ebind (Parser_match TkIdentifier ''VALUES'' ts1) (\<lambda>(present, ts2).
       if present then ebind (parse_tuple ts2) (\<lambda>(vs, ts3). Inr (ExecutePrepared name vs, ts3))
       else Inr (ExecutePrepared name [], ts2)))"

text \<open>The keyword dispatch of \<open>parse\<close>: the first match decides the statement.\<close>

definition parse_keyword :: "string \<Rightarrow> query parser \<Rightarrow> query parser \<Rightarrow> query parser" where
  "parse_keyword kw p otherwise ts =
     ebind (Parser_match TkIdentifier kw ts) (\<lambda>(matched, ts1). if matched then p ts1 else otherwise ts1)"

definition parse_fail :: "string \<Rightarrow> query parser" where
  "parse_fail message ts = Inl (RuntimeError message)"

definition parse_then :: "string \<Rightarrow> query \<Rightarrow> query parser" where
  "parse_then kw q ts = ebind (Parser_expect TkIdentifier kw ts) (\<lambda>(_, ts1). Inr (q, ts1))"

definition parseCreate :: "query parser" where
  "parseCreate =
     parse_keyword ''DATABASE'' parseCreateDatabase
       (parse_keyword ''TABLE'' parseCreateTable
         (parse_keyword ''INDEX'' parseCreateIndex
           (parse_fail ''expected DATABASE, TABLE, or INDEX after CREATE'')))"

definition parseLoad :: "query parser" where
  "parseLoad ts =
     ebind (Parser_expect TkIdentifier ''DATABASE'' ts) (\<lambda>(_, ts1).
     ebind (Parser_peek ts1) (\<lambda>t.
       if tok_type t = TkIdentifier
       then ebind (Parser_advance ts1) (\<lambda>(name, ts2). Inr (LoadDatabase (Some (tok_lexeme name)), ts2))
       else Inr (LoadDatabase None, ts1)))"

definition parse_statement :: "query parser" where
  "parse_statement =
     parse_keyword ''CREATE'' parseCreate
     (parse_keyword ''DROP'' parseDropTable
     (parse_keyword ''RENAME'' parseRenameTable
     (parse_keyword ''LIST'' (parse_then ''TABLES'' ListTables)
     (parse_keyword ''INSERT'' parseInsert
     (parse_keyword ''SELECT'' parseSelect
     (parse_keyword ''UPDATE'' parseUpdate
     (parse_keyword ''DELETE'' parseDelete
     (parse_keyword ''SAVE'' (parse_then ''DATABASE'' SaveDatabase)
     (parse_keyword ''LOAD'' parseLoad
     (parse_keyword ''BEGIN'' (\<lambda>ts. Inr (BeginTransaction, ts))
     (parse_keyword ''COMMIT'' (\<lambda>ts. Inr (CommitTransaction, ts))
     (parse_keyword ''ROLLBACK'' (\<lambda>ts. Inr (RollbackTransaction, ts))
     (parse_keyword ''PREPARE'' parsePrepare
     (parse_keyword ''EXECUTE'' parseExecutePrepared
     (parse_keyword ''EXIT'' (\<lambda>ts. Inr (Exit, ts))
     (parse_fail ''unsupported SQL command''))))))))))))))))"

definition Parser_parse_tokens :: "token list \<Rightarrow> query outcome" where
  "Parser_parse_tokens tokens =
     ebind (parse_statement tokens) (\<lambda>(q, ts1).
     ebind (Parser_expectStatementEnd ts1) (\<lambda>_. Inr q))"

definition Parser_parse :: "string \<Rightarrow> query outcome" where
  "Parser_parse sql = ebind (tokenize sql) Parser_parse_tokens"

end
