(* ===== verification/SqlText.thy ===== *)
theory SqlText
  imports Parser
begin

text \<open>
  The SQL texts that \<open>execution/query_executor.cpp\<close> writes into the log: literals,
  predicates and one statement per kind of change. The log is replayed by parsing them, so the
  lemmas are round trips: parsing the text of a statement gives the statement
  (\<open>parse_insertSql\<close> and the like). Two conditions are needed. Names must be words
  (\<open>word_text\<close>), as the names of parsed statements are. Doubles must be such that their text reads
  back to them (\<open>double_reads_back\<close>): it keeps six significant digits, has a point only when a
  fraction is left, and may use an exponent, which the tokenizer does not know.
\<close>

section \<open>Printing\<close>

definition sqlLiteral :: "sql_value \<Rightarrow> string" where
  "sqlLiteral v =
     (case v of
        VNull \<Rightarrow> ''NULL''
      | VInt _ \<Rightarrow> Value_toString v
      | VDouble _ \<Rightarrow> Value_toString v
      | VString s \<Rightarrow> [CHR 0x22] @ escape_string s @ [CHR 0x22])"

definition operatorLiteral :: "comparison_operator \<Rightarrow> string" where
  "operatorLiteral op = (case op of Equal \<Rightarrow> ''='' | Greater \<Rightarrow> ''>'' | Less \<Rightarrow> ''<'')"

fun predicateLiteral :: "predicate \<Rightarrow> string" where
  "predicateLiteral (PAnd l r) = ''('' @ predicateLiteral l @ '' AND '' @ predicateLiteral r @ '')''"
| "predicateLiteral (POr l r) = ''('' @ predicateLiteral l @ '' OR '' @ predicateLiteral r @ '')''"
| "predicateLiteral (Comparison column op v) =
     column @ '' '' @ operatorLiteral op @ '' '' @ sqlLiteral v"

definition columnSql :: "column \<Rightarrow> string" where
  "columnSql c =
     col_name c @ '' '' @ ColumnType_toString (col_type c) @ (if col_nullable c then '' NULL'' else [])"

definition createTableSql :: "string \<Rightarrow> column list \<Rightarrow> string" where
  "createTableSql name columns =
     ''CREATE TABLE '' @ name @ '' ('' @ join_with '', '' (map columnSql columns) @ '');''"

definition insertSql :: "string \<Rightarrow> row \<Rightarrow> string" where
  "insertSql table r =
     ''INSERT INTO '' @ table @ '' VALUES ('' @ join_with '', '' (map sqlLiteral r) @ '');''"

definition whereSql :: "predicate option \<Rightarrow> string" where
  "whereSql w = (case w of None \<Rightarrow> [] | Some p \<Rightarrow> '' WHERE '' @ predicateLiteral p)"

definition updateSql :: "update_query \<Rightarrow> string" where
  "updateSql u =
     ''UPDATE '' @ upd_table u @ '' SET '' @ upd_column u @ '' = '' @ sqlLiteral (upd_value u)
     @ whereSql (upd_where u) @ '';''"

definition deleteSql :: "string \<Rightarrow> predicate option \<Rightarrow> string" where
  "deleteSql table w = ''DELETE FROM '' @ table @ whereSql w @ '';''"

definition createIndexSql :: "string \<Rightarrow> string \<Rightarrow> string \<Rightarrow> string" where
  "createIndexSql name table column = ''CREATE INDEX '' @ name @ '' ON '' @ table @ ''('' @ column @ '');''"

definition dropTableSql :: "string \<Rightarrow> string" where
  "dropTableSql name = ''DROP TABLE '' @ name @ '';''"

definition renameTableSql :: "string \<Rightarrow> string \<Rightarrow> string" where
  "renameTableSql oldName newName = ''RENAME TABLE '' @ oldName @ '' TO '' @ newName @ '';''"

section \<open>Tokens of the printed texts\<close>

definition ident :: "string \<Rightarrow> token" where
  "ident w = mk_token TkIdentifier w"

lemma ident_simps [simp]: "tok_type (ident w) = TkIdentifier" "tok_lexeme (ident w) = w"
  by (simp_all add: ident_def)

definition push_tokens :: "token list \<Rightarrow> token list outcome \<Rightarrow> token list outcome" where
  "push_tokens ts rest = foldr push_token ts rest"

lemma push_tokens_simps [simp]:
  "push_tokens [] r = r" "push_tokens (t # ts) r = push_token t (push_tokens ts r)"
  "push_tokens (ts @ us) r = push_tokens ts (push_tokens us r)"
  by (simp_all add: push_tokens_def)

lemma push_tokens_Inr [simp]: "push_tokens ts (Inr us) = Inr (ts @ us)"
  by (induction ts) auto

text \<open>A name before a character that cannot continue it.\<close>

lemma tokenize_ident:
  "word_text w \<Longrightarrow> \<not> isIdentifierPart c \<Longrightarrow> tokenize (w @ c # s) = push_token (ident w) (tokenize (c # s))"
  using tokenize_word[of w "c # s"] by (simp add: stops_def ident_def)

lemma tokenize_keyword:
  "word_text w \<Longrightarrow> tokenize (w @ CHR '' '' # s) = push_token (ident w) (tokenize s)"
  using tokenize_ident[of w "CHR '' ''" s] by (simp add: tokenize_space char_evals)

text \<open>
  The doubles whose text is a number token with a point that reads back to the same bits, such as
  1.5 or -0.25. Not among them are 1.2345678 (printed \<open>1.23457\<close>), 120000.0 (printed
  \<open>120000\<close>, an integer) and 1234567.0 (printed \<open>1.23457e+06\<close>).
\<close>

definition double_reads_back :: "double \<Rightarrow> bool" where
  "double_reads_back d \<longleftrightarrow>
     number_text (dbl_show d) \<and> CHR ''.'' \<in> set (dbl_show d) \<and> stod (dbl_show d) = Inr d"

definition literal_ok :: "sql_value \<Rightarrow> bool" where
  "literal_ok v = (case v of VDouble d \<Rightarrow> double_reads_back d | _ \<Rightarrow> True)"

definition value_token :: "sql_value \<Rightarrow> token" where
  "value_token v =
     (case v of
        VNull \<Rightarrow> ident ''NULL''
      | VInt i \<Rightarrow> mk_token TkNumber (show_int (sint i))
      | VDouble d \<Rightarrow> mk_token TkNumber (dbl_show d)
      | VString s \<Rightarrow> mk_token TkString s)"

text \<open>What may follow a literal: a separator.\<close>

definition separates :: "string \<Rightarrow> bool" where
  "separates s \<longleftrightarrow> stops (\<lambda>c. isIdentifierPart c \<or> isNumberPart c) s"

lemma separatesD: "separates s \<Longrightarrow> stops isIdentifierPart s" "separates s \<Longrightarrow> stops isNumberPart s"
  by (auto simp: separates_def stops_def split: list.splits)

lemma separates_simps [simp]:
  "separates (CHR '','' # s)" "separates (CHR '')'' # s)" "separates (CHR '';'' # s)"
  "separates (CHR '' '' # s)"
  by (simp_all add: separates_def stops_def char_evals)

lemma word_NULL: "word_text ''NULL''"
  by (simp add: word_text_def char_evals)

lemma tokenize_literal:
  assumes "literal_ok v" and "separates s"
  shows "tokenize (sqlLiteral v @ s) = push_token (value_token v) (tokenize s)"
proof (cases v)
  case VNull
  then show ?thesis
    using tokenize_word[OF word_NULL separatesD(1)[OF assms(2)]]
    by (simp add: sqlLiteral_def value_token_def ident_def)
next
  case (VInt i)
  then show ?thesis
    using tokenize_number[OF show_int_number separatesD(2)[OF assms(2)]]
    by (simp add: sqlLiteral_def value_token_def)
next
  case (VDouble d)
  with assms have "number_text (dbl_show d)" by (simp add: literal_ok_def double_reads_back_def)
  then show ?thesis
    using tokenize_number[OF _ separatesD(2)[OF assms(2)]] VDouble
    by (simp add: sqlLiteral_def value_token_def)
next
  case (VString t)
  then show ?thesis by (simp add: sqlLiteral_def value_token_def tokenize_quoted)
qed

fun comma_tokens :: "token list list \<Rightarrow> token list" where
  "comma_tokens [] = []"
| "comma_tokens [x] = x"
| "comma_tokens (x # y # zs) = x @ mk_token TkComma '','' # comma_tokens (y # zs)"

lemma tokenize_join:
  assumes "\<And>x s. x \<in> set xs \<Longrightarrow> separates s \<Longrightarrow> tokenize (f x @ s) = push_tokens (g x) (tokenize s)"
    and "separates s"
  shows "tokenize (join_with '', '' (map f xs) @ s) = push_tokens (comma_tokens (map g xs)) (tokenize s)"
  using assms(1)
proof (induction xs rule: induct_list012)
  case 1
  then show ?case by simp
next
  case (2 x)
  with assms(2) show ?case by simp
next
  case (3 x y zs)
  have "tokenize (f x @ '', '' @ r) = push_tokens (g x) (push_token (mk_token TkComma '','') (tokenize r))" for r
    using 3(3)[of x "'', '' @ r"] by (simp add: tokenize_punctuation tokenize_space)
  with 3 show ?case by simp
qed

lemma tokenize_values:
  "\<forall>v \<in> set r. literal_ok v \<Longrightarrow> separates s \<Longrightarrow>
   tokenize (join_with '', '' (map sqlLiteral r) @ s) =
     push_tokens (comma_tokens (map (\<lambda>v. [value_token v]) r)) (tokenize s)"
  by (rule tokenize_join) (simp_all add: tokenize_literal)

definition names_ok :: "string list \<Rightarrow> bool" where
  "names_ok ns \<longleftrightarrow> list_all word_text ns"

fun predicate_ok :: "predicate \<Rightarrow> bool" where
  "predicate_ok (Comparison column op v) \<longleftrightarrow> word_text column \<and> literal_ok v"
| "predicate_ok (PAnd l r) \<longleftrightarrow> predicate_ok l \<and> predicate_ok r"
| "predicate_ok (POr l r) \<longleftrightarrow> predicate_ok l \<and> predicate_ok r"

definition operator_token :: "comparison_operator \<Rightarrow> token" where
  "operator_token op =
     (case op of Equal \<Rightarrow> mk_token TkEqual ''='' | Greater \<Rightarrow> mk_token TkGreater ''>''
      | Less \<Rightarrow> mk_token TkLess ''<'')"

fun predicate_tokens :: "predicate \<Rightarrow> token list" where
  "predicate_tokens (Comparison column op v) = [ident column, operator_token op, value_token v]"
| "predicate_tokens (PAnd l r) = mk_token TkLeftParen ''('' # predicate_tokens l @ ident ''AND'' #
     predicate_tokens r @ [mk_token TkRightParen '')'']"
| "predicate_tokens (POr l r) = mk_token TkLeftParen ''('' # predicate_tokens l @ ident ''OR'' #
     predicate_tokens r @ [mk_token TkRightParen '')'']"

lemma tokenize_AND: "tokenize ('' AND '' @ s) = push_token (ident ''AND'') (tokenize s)"
  and tokenize_OR: "tokenize ('' OR '' @ s) = push_token (ident ''OR'') (tokenize s)"
  and tokenize_WHERE: "tokenize ('' WHERE '' @ s) = push_token (ident ''WHERE'') (tokenize s)"
  using tokenize_keyword[of "''AND''" s] tokenize_keyword[of "''OR''" s] tokenize_keyword[of "''WHERE''" s]
  by (simp_all add: tokenize_space word_text_def char_evals)

lemma tokenize_operator:
  "tokenize (operatorLiteral op @ s) = push_token (operator_token op) (tokenize s)"
  by (cases op) (simp_all add: operatorLiteral_def operator_token_def tokenize_punctuation)

lemma tokenize_predicate:
  "predicate_ok p \<Longrightarrow> separates s \<Longrightarrow>
   tokenize (predicateLiteral p @ s) = push_tokens (predicate_tokens p) (tokenize s)"
proof (induction p arbitrary: s)
  case (Comparison column op v)
  then show ?case
    using tokenize_keyword[of column "operatorLiteral op @ '' '' @ sqlLiteral v @ s"]
    by (simp add: tokenize_operator tokenize_space tokenize_literal)
next
  case (PAnd l r)
  then show ?case using tokenize_AND by (simp add: tokenize_punctuation)
next
  case (POr l r)
  then show ?case using tokenize_OR by (simp add: tokenize_punctuation)
qed

section \<open>Parsing the tokens\<close>

lemma Parser_advance_Cons:
  "tok_type t \<noteq> TkEnd \<Longrightarrow> Parser_advance (t # ts) = Inr (t, ts)"
  by (simp add: Parser_advance_def Parser_peek_def)

lemma Parser_match_Cons:
  "Parser_match ty lexeme (t # ts) =
     (if tok_type t = ty \<and> (lexeme = [] \<or> equalsIgnoreCase (tok_lexeme t) lexeme) \<and> ty \<noteq> TkEnd
      then Inr (True, ts)
      else if tok_type t = ty \<and> (lexeme = [] \<or> equalsIgnoreCase (tok_lexeme t) lexeme)
      then Inr (True, t # ts) else Inr (False, t # ts))"
  by (simp add: Parser_match_def Parser_peek_def Parser_advance_def)

lemma Parser_expect_Cons:
  "tok_type t = ty \<Longrightarrow> lexeme = [] \<or> equalsIgnoreCase (tok_lexeme t) lexeme \<Longrightarrow> ty \<noteq> TkEnd \<Longrightarrow>
   Parser_expect ty lexeme (t # ts) = Inr ((), ts)"
  by (simp add: Parser_expect_def Parser_match_Cons)

lemma expect_name_ident [simp]: "expect_name m (ident n # ts) = Inr (n, ts)"
  by (simp add: expect_name_def Parser_advance_Cons)

lemmas keyword_cmp = equalsIgnoreCase_def toupper_def ccode_def

lemma equalsIgnoreCase_refl [simp]: "equalsIgnoreCase w w"
  by (simp add: equalsIgnoreCase_def)

lemma show_int_no_dot: "CHR ''.'' \<notin> set (show_int i)"
proof -
  have "CHR ''.'' \<notin> set (show_nat n)" for n using show_nat_digits[of n] isdigit_simps(2) by blast
  then show ?thesis by (simp add: show_int_def)
qed

lemma parseValue_token [simp]:
  "literal_ok v \<Longrightarrow> parseValue (value_token v # ts) = Inr (v, ts)"
  by (cases v)
    (simp_all add: literal_ok_def double_reads_back_def value_token_def parseValue_def Parser_advance_Cons
      show_int_no_dot
      parseInt_show_int)

lemma value_token_type [simp]:
  "literal_ok v \<Longrightarrow> tok_type (value_token v) \<noteq> TkEnd"
  by (cases v) (simp_all add: value_token_def literal_ok_def)

abbreviation rparen :: token where "rparen \<equiv> mk_token TkRightParen '')''"
abbreviation semicolon :: token where "semicolon \<equiv> mk_token TkSemicolon '';''"

lemma parse_values_tokens:
  "r \<noteq> [] \<Longrightarrow> \<forall>v \<in> set r. literal_ok v \<Longrightarrow>
   parse_values (comma_tokens (map (\<lambda>v. [value_token v]) r) @ rparen # ts) = Inr (r, rparen # ts)"
proof (induction r rule: induct_list012)
  case 1
  then show ?case by simp
next
  case (2 v)
  then show ?case by (subst parse_values.simps) (simp add: Parser_match_Cons)
next
  case (3 v w r)
  then show ?case
    by (subst parse_values.simps) (simp add: Parser_match_Cons)
qed

lemma parse_tuple_tokens:
  assumes "r \<noteq> []" and "\<forall>v \<in> set r. literal_ok v"
  shows "parse_tuple (mk_token TkLeftParen ''('' # comma_tokens (map (\<lambda>v. [value_token v]) r) @ rparen # ts) =
    Inr (r, ts)"
  by (simp add: parse_tuple_def Parser_expect_Cons parse_values_tokens[OF assms])

text \<open>A predicate's tokens, wherever a primary predicate may stand.\<close>

definition no_connective :: "token list \<Rightarrow> bool" where
  "no_connective ts \<longleftrightarrow>
     (case ts of [] \<Rightarrow> False
      | t # _ \<Rightarrow> tok_type t = TkRightParen \<or> tok_type t = TkSemicolon)"

lemma loops_stop:
  "no_connective ts \<Longrightarrow> or_loop p ts = Inr (p, ts) \<and> and_loop p ts = Inr (p, ts)"
  by (cases ts) (auto simp: no_connective_def or_loop.simps and_loop.simps Parser_match_Cons)

lemma parsePrimary_tokens:
  "predicate_ok p \<Longrightarrow> parsePrimaryPredicate (predicate_tokens p @ ts) = Inr (p, ts)"
proof (induction p arbitrary: ts)
  case (Comparison column op v)
  then show ?case
    by (cases op) (simp_all add: parsePrimaryPredicate.simps Parser_match_Cons
        parseComparisonPredicate_def operator_token_def)
next
  case (PAnd l r)
  have stop: "no_connective (rparen # ts)" by (simp add: no_connective_def)
  have "and_loop l (ident ''AND'' # predicate_tokens r @ rparen # ts) = Inr (PAnd l r, rparen # ts)"
    using PAnd loops_stop[OF stop] by (simp add: and_loop.simps[of l] Parser_match_Cons)
  with PAnd loops_stop[OF stop] show ?case
    by (simp add: parsePrimaryPredicate.simps[of "mk_token _ _ # _"] Parser_match_Cons
        parseOrPredicate.simps parseAndPredicate.simps Parser_expect_Cons)
next
  case (POr l r)
  have stop: "no_connective (rparen # ts)" by (simp add: no_connective_def)
  have "and_loop l (ident ''OR'' # us) = Inr (l, ident ''OR'' # us)" for us
    by (simp add: and_loop.simps[of l] Parser_match_Cons equalsIgnoreCase_def)
  moreover have "or_loop l (ident ''OR'' # predicate_tokens r @ rparen # ts) = Inr (POr l r, rparen # ts)"
    using POr loops_stop[OF stop]
    by (simp add: or_loop.simps[of l] Parser_match_Cons parseAndPredicate.simps)
  ultimately show ?case
    using POr
    by (simp add: parsePrimaryPredicate.simps[of "mk_token _ _ # _"] Parser_match_Cons
        parseOrPredicate.simps parseAndPredicate.simps Parser_expect_Cons)
qed

lemma parsePredicate_tokens:
  "predicate_ok p \<Longrightarrow> no_connective ts \<Longrightarrow> parsePredicate (predicate_tokens p @ ts) = Inr (p, ts)"
  by (simp add: parsePredicate_def parseOrPredicate.simps parseAndPredicate.simps
      parsePrimary_tokens loops_stop)

definition where_ok :: "predicate option \<Rightarrow> bool" where
  "where_ok w = (case w of None \<Rightarrow> True | Some p \<Rightarrow> predicate_ok p)"

definition where_tokens :: "predicate option \<Rightarrow> token list" where
  "where_tokens w = (case w of None \<Rightarrow> [] | Some p \<Rightarrow> ident ''WHERE'' # predicate_tokens p)"

lemma tokenize_where:
  "where_ok w \<Longrightarrow> separates s \<Longrightarrow> tokenize (whereSql w @ s) = push_tokens (where_tokens w) (tokenize s)"
  using tokenize_WHERE
  by (cases w) (simp_all add: where_ok_def whereSql_def where_tokens_def tokenize_predicate)

lemma parse_where_tokens:
  "where_ok w \<Longrightarrow> parse_where (where_tokens w @ semicolon # ts) = Inr (w, semicolon # ts)"
  by (cases w)
    (simp_all add: where_ok_def where_tokens_def parse_where_def Parser_match_Cons
      parsePredicate_tokens no_connective_def)

lemma finish_tokens [simp]:
  "Parser_expectStatementEnd [semicolon, mk_token TkEnd []] = Inr ((), [mk_token TkEnd []])"
  by (simp add: Parser_expectStatementEnd_def Parser_match_Cons Parser_peek_def)

lemma parse_finish:
  assumes "tokenize sql = push_tokens ts (Inr [semicolon, mk_token TkEnd []])"
    and "parse_statement (ts @ [semicolon, mk_token TkEnd []]) = Inr (q, [semicolon, mk_token TkEnd []])"
  shows "Parser_parse sql = Inr q"
  using assms by (simp add: Parser_parse_def Parser_parse_tokens_def)

text \<open>The dispatch on the first keyword.\<close>

lemma parse_keyword_ident:
  "parse_keyword kw p other (ident w # ts) =
     (if kw = [] \<or> equalsIgnoreCase w kw then p ts else other (ident w # ts))"
  by (simp add: parse_keyword_def Parser_match_Cons)

lemma tokenize_semicolon_end: "tokenize '';'' = Inr [semicolon, mk_token TkEnd []]"
  using tokenize_punctuation(2)[of "[]"] by simp

section \<open>Round trips of statements\<close>

lemma tokenize_insertSql:
  assumes "word_text table" and "\<forall>v \<in> set r. literal_ok v"
  shows "tokenize (insertSql table r) = push_tokens
    ([ident ''INSERT'', ident ''INTO'', ident table, ident ''VALUES'', mk_token TkLeftParen ''(''] @
     comma_tokens (map (\<lambda>v. [value_token v]) r) @ [rparen]) (Inr [semicolon, mk_token TkEnd []])"
proof -
  have kw: "word_text ''INSERT''" "word_text ''INTO''" "word_text ''VALUES''"
    by (simp_all add: word_text_def char_evals)
  let ?vals = "join_with '', '' (map sqlLiteral r) @ '');''"
  have "tokenize (insertSql table r) =
      tokenize (''INSERT'' @ CHR '' '' # ''INTO'' @ CHR '' '' # table @ CHR '' '' # ''VALUES'' @ CHR '' '' # CHR ''('' # ?vals)"
    by (simp add: insertSql_def)
  also have "\<dots> = push_tokens [ident ''INSERT'', ident ''INTO'', ident table, ident ''VALUES'', mk_token TkLeftParen ''('']
      (tokenize ?vals)"
    by (simp only: tokenize_keyword kw assms(1) tokenize_punctuation push_tokens_simps)
  also have "tokenize ?vals = push_tokens (comma_tokens (map (\<lambda>v. [value_token v]) r))
      (push_token rparen (Inr [semicolon, mk_token TkEnd []]))"
    using tokenize_values[OF assms(2), of "'');''"] tokenize_semicolon_end
    by (simp add: tokenize_punctuation)
  finally show ?thesis by simp
qed

lemma parse_insertSql:
  assumes "word_text table" and "r \<noteq> []" and "\<forall>v \<in> set r. literal_ok v"
  shows "Parser_parse (insertSql table r) = Inr (Insert table [r])"
proof (rule parse_finish[OF tokenize_insertSql[OF assms(1,3)]])
  have tuples: "parse_tuples (mk_token TkLeftParen ''('' # comma_tokens (map (\<lambda>v. [value_token v]) r) @
      rparen # semicolon # ts) = Inr ([r], semicolon # ts)" for ts
    by (subst parse_tuples.simps) (simp add: parse_tuple_tokens[OF assms(2,3)] Parser_match_Cons)
  show "parse_statement (([ident ''INSERT'', ident ''INTO'', ident table, ident ''VALUES'', mk_token TkLeftParen ''(''] @
     comma_tokens (map (\<lambda>v. [value_token v]) r) @ [rparen]) @ [semicolon, mk_token TkEnd []]) =
    Inr (Insert table [r], [semicolon, mk_token TkEnd []])"
    by (simp add: parse_statement_def parse_keyword_ident keyword_cmp)
      (simp add: parseInsert_def Parser_expect_Cons tuples keyword_cmp)
qed

lemma word_keywords:
  "word_text ''CREATE''" "word_text ''TABLE''" "word_text ''INDEX''" "word_text ''ON''"
  "word_text ''DROP''" "word_text ''RENAME''" "word_text ''TO''" "word_text ''UPDATE''"
  "word_text ''SET''" "word_text ''DELETE''" "word_text ''FROM''"
  by (simp_all add: word_text_def char_evals)

lemma tokenize_end_semicolon:
  "word_text w \<Longrightarrow> tokenize (w @ '';'') = push_tokens [ident w] (Inr [semicolon, mk_token TkEnd []])"
  using tokenize_ident[of w "CHR '';''" "[]"] tokenize_semicolon_end by (simp add: char_evals)

lemma parse_dropTableSql:
  assumes "word_text name"
  shows "Parser_parse (dropTableSql name) = Inr (DropTable name)"
proof (rule parse_finish)
  have "dropTableSql name = ''DROP'' @ CHR '' '' # ''TABLE'' @ CHR '' '' # name @ '';''"
    by (simp add: dropTableSql_def)
  then show "tokenize (dropTableSql name) = push_tokens [ident ''DROP'', ident ''TABLE'', ident name]
      (Inr [semicolon, mk_token TkEnd []])"
    by (simp only: tokenize_keyword word_keywords tokenize_end_semicolon[OF assms] push_tokens_simps)
  show "parse_statement ([ident ''DROP'', ident ''TABLE'', ident name] @ [semicolon, mk_token TkEnd []]) =
      Inr (DropTable name, [semicolon, mk_token TkEnd []])"
    by (simp add: parse_statement_def parse_keyword_ident keyword_cmp)
      (simp add: parseDropTable_def Parser_expect_Cons)
qed

lemma parse_renameTableSql:
  assumes "word_text oldName" and "word_text newName"
  shows "Parser_parse (renameTableSql oldName newName) = Inr (RenameTable oldName newName)"
proof (rule parse_finish)
  have "renameTableSql oldName newName =
      ''RENAME'' @ CHR '' '' # ''TABLE'' @ CHR '' '' # oldName @ CHR '' '' # ''TO'' @ CHR '' '' # newName @ '';''"
    by (simp add: renameTableSql_def)
  then show "tokenize (renameTableSql oldName newName) = push_tokens
      [ident ''RENAME'', ident ''TABLE'', ident oldName, ident ''TO'', ident newName]
      (Inr [semicolon, mk_token TkEnd []])"
    by (simp only: tokenize_keyword word_keywords assms tokenize_end_semicolon[OF assms(2)] push_tokens_simps)
  show "parse_statement ([ident ''RENAME'', ident ''TABLE'', ident oldName, ident ''TO'', ident newName] @
      [semicolon, mk_token TkEnd []]) = Inr (RenameTable oldName newName, [semicolon, mk_token TkEnd []])"
    by (simp add: parse_statement_def parse_keyword_ident keyword_cmp)
      (simp add: parseRenameTable_def Parser_expect_Cons)
qed

lemma parse_createIndexSql:
  assumes "word_text name" and "word_text table" and "word_text column"
  shows "Parser_parse (createIndexSql name table column) = Inr (CreateIndex name table column)"
proof (rule parse_finish)
  have shape: "createIndexSql name table column = ''CREATE'' @ CHR '' '' # ''INDEX'' @ CHR '' '' # name @ CHR '' '' #
      ''ON'' @ CHR '' '' # table @ CHR ''('' # column @ CHR '')'' # '';''"
    by (simp add: createIndexSql_def)
  have parens: "\<not> isIdentifierPart (CHR ''('')" "\<not> isIdentifierPart (CHR '')'')" by (simp_all add: char_evals)
  show "tokenize (createIndexSql name table column) = push_tokens
      [ident ''CREATE'', ident ''INDEX'', ident name, ident ''ON'', ident table, mk_token TkLeftParen ''('',
       ident column, rparen] (Inr [semicolon, mk_token TkEnd []])"
    unfolding shape
    by (simp only: tokenize_keyword word_keywords assms tokenize_ident[OF assms(2) parens(1)]
        tokenize_ident[OF assms(3) parens(2)] tokenize_punctuation tokenize_semicolon_end push_tokens_simps tokenize.simps(1) push_token_Inr)
  show "parse_statement ([ident ''CREATE'', ident ''INDEX'', ident name, ident ''ON'', ident table,
      mk_token TkLeftParen ''('', ident column, rparen] @ [semicolon, mk_token TkEnd []]) =
      Inr (CreateIndex name table column, [semicolon, mk_token TkEnd []])"
    by (simp add: parse_statement_def parse_keyword_ident parseCreate_def keyword_cmp)
      (simp add: parseCreateIndex_def Parser_expect_Cons)
qed

lemma parse_deleteSql:
  assumes "word_text table" and "where_ok w"
  shows "Parser_parse (deleteSql table w) = Inr (Delete table w)"
proof (rule parse_finish)
  have stop: "stops isIdentifierPart (whereSql w @ '';'')"
    by (cases w) (simp_all add: whereSql_def stops_def char_evals)
  have shape: "deleteSql table w = ''DELETE'' @ CHR '' '' # ''FROM'' @ CHR '' '' # table @ whereSql w @ '';''"
    by (simp add: deleteSql_def)
  show "tokenize (deleteSql table w) = push_tokens
      ([ident ''DELETE'', ident ''FROM'', ident table] @ where_tokens w) (Inr [semicolon, mk_token TkEnd []])"
    unfolding shape
    by (simp only: tokenize_keyword word_keywords tokenize_word[OF assms(1) stop] tokenize_where[OF assms(2)]
        separates_simps tokenize_semicolon_end push_tokens_simps tokenize.simps(1) push_token_Inr ident_def)
  show "parse_statement (([ident ''DELETE'', ident ''FROM'', ident table] @ where_tokens w) @
      [semicolon, mk_token TkEnd []]) = Inr (Delete table w, [semicolon, mk_token TkEnd []])"
    by (simp add: parse_statement_def parse_keyword_ident keyword_cmp)
      (simp add: parseDelete_def Parser_expect_Cons parse_where_tokens[OF assms(2)])
qed

lemma parse_updateSql:
  assumes "word_text (upd_table u)" and "word_text (upd_column u)" and "literal_ok (upd_value u)"
    and "where_ok (upd_where u)"
  shows "Parser_parse (updateSql u) = Inr (Update u)"
proof (rule parse_finish)
  let ?w = "whereSql (upd_where u) @ '';''"
  have sep: "separates ?w" by (cases "upd_where u") (simp_all add: whereSql_def)
  have shape: "updateSql u = ''UPDATE'' @ CHR '' '' # upd_table u @ CHR '' '' # ''SET'' @ CHR '' '' #
      upd_column u @ CHR '' '' # CHR ''='' # CHR '' '' # sqlLiteral (upd_value u) @ ?w"
    by (simp add: updateSql_def)
  show "tokenize (updateSql u) = push_tokens
      ([ident ''UPDATE'', ident (upd_table u), ident ''SET'', ident (upd_column u), mk_token TkEqual ''='',
        value_token (upd_value u)] @ where_tokens (upd_where u)) (Inr [semicolon, mk_token TkEnd []])"
    unfolding shape
    by (simp only: tokenize_keyword word_keywords assms tokenize_space tokenize_punctuation
        tokenize_literal[OF assms(3) sep] tokenize_where[OF assms(4)] separates_simps
        tokenize_semicolon_end push_tokens_simps tokenize.simps(1) push_token_Inr)
  show "parse_statement (([ident ''UPDATE'', ident (upd_table u), ident ''SET'', ident (upd_column u),
      mk_token TkEqual ''='', value_token (upd_value u)] @ where_tokens (upd_where u)) @
      [semicolon, mk_token TkEnd []]) = Inr (Update u, [semicolon, mk_token TkEnd []])"
    by (simp add: parse_statement_def parse_keyword_ident keyword_cmp)
      (simp add: parseUpdate_def Parser_expect_Cons parse_where_tokens[OF assms(4)] assms(3))
qed

text \<open>Column definitions.\<close>

definition column_ok :: "column \<Rightarrow> bool" where
  "column_ok c \<longleftrightarrow> word_text (col_name c) \<and> ColumnType_valid (col_type c)"

definition column_tokens :: "column \<Rightarrow> token list" where
  "column_tokens c = [ident (col_name c), ident (ColumnType_toString (col_type c))] @
     (if col_nullable c then [ident ''NULL''] else [])"

lemma type_name_word: "ColumnType_valid t \<Longrightarrow> word_text (ColumnType_toString t)"
  by (cases t) (simp_all add: ColumnType_valid_def word_text_def char_evals)

lemma tokenize_column:
  assumes "column_ok c" and "separates s"
  shows "tokenize (columnSql c @ s) = push_tokens (column_tokens c) (tokenize s)"
proof -
  have ok: "word_text (col_name c)" "word_text (ColumnType_toString (col_type c))"
    using assms(1) type_name_word by (simp_all add: column_ok_def)
  have shape: "columnSql c @ s = col_name c @ CHR '' '' # ColumnType_toString (col_type c) @
      (if col_nullable c then CHR '' '' # ''NULL'' @ s else s)"
    by (simp add: columnSql_def)
  show ?thesis
    unfolding shape
    using tokenize_word[OF ok(2) separatesD(1)[OF assms(2)]]
      tokenize_word[OF word_NULL separatesD(1)[OF assms(2)]]
    by (cases "col_nullable c")
      (simp_all only: tokenize_keyword ok column_tokens_def push_tokens_simps ident_def if_True if_False)
qed

lemma parse_column_tokens:
  assumes "column_ok c" and "tok_type t \<noteq> TkIdentifier"
  shows "parse_column (column_tokens c @ t # ts) = Inr (c, t # ts)"
proof -
  have ty: "columnTypeFromString (ColumnType_toString (col_type c)) = Some (col_type c)"
    using assms(1) columnTypeFromString_toString by (simp add: column_ok_def)
  show ?thesis
    using assms(2)
    by (cases "col_nullable c")
      (simp_all add: parse_column_def column_tokens_def ty Parser_match_Cons keyword_cmp)
qed

lemma parse_columns_tokens:
  "cs \<noteq> [] \<Longrightarrow> \<forall>c \<in> set cs. column_ok c \<Longrightarrow>
   parse_columns (comma_tokens (map column_tokens cs) @ rparen # ts) = Inr (cs, rparen # ts)"
proof (induction cs rule: induct_list012)
  case 1
  then show ?case by simp
next
  case (2 c)
  then show ?case by (subst parse_columns.simps) (simp add: parse_column_tokens Parser_match_Cons)
next
  case (3 c d cs)
  then show ?case
    by (subst parse_columns.simps) (simp add: parse_column_tokens Parser_match_Cons)
qed

lemma parse_createTableSql:
  assumes "word_text name" and "cs \<noteq> []" and "\<forall>c \<in> set cs. column_ok c"
  shows "Parser_parse (createTableSql name cs) = Inr (CreateTable name cs)"
proof (rule parse_finish)
  let ?cols = "join_with '', '' (map columnSql cs) @ '');''"
  have shape: "createTableSql name cs = ''CREATE'' @ CHR '' '' # ''TABLE'' @ CHR '' '' # name @ CHR '' '' #
      CHR ''('' # ?cols"
    by (simp add: createTableSql_def)
  have cols: "tokenize ?cols = push_tokens (comma_tokens (map column_tokens cs))
      (push_token rparen (Inr [semicolon, mk_token TkEnd []]))"
    using tokenize_join[of cs columnSql column_tokens "'');''"] tokenize_column assms(3)
      tokenize_semicolon_end by (simp add: tokenize_punctuation)
  show "tokenize (createTableSql name cs) = push_tokens
      ([ident ''CREATE'', ident ''TABLE'', ident name, mk_token TkLeftParen ''(''] @
       comma_tokens (map column_tokens cs) @ [rparen]) (Inr [semicolon, mk_token TkEnd []])"
    unfolding shape
    by (simp only: tokenize_keyword word_keywords assms(1) tokenize_punctuation cols push_tokens_simps)
  show "parse_statement (([ident ''CREATE'', ident ''TABLE'', ident name, mk_token TkLeftParen ''(''] @
      comma_tokens (map column_tokens cs) @ [rparen]) @ [semicolon, mk_token TkEnd []]) =
      Inr (CreateTable name cs, [semicolon, mk_token TkEnd []])"
    by (simp add: parse_statement_def parse_keyword_ident parseCreate_def keyword_cmp)
      (simp add: parseCreateTable_def Parser_expect_Cons parse_columns_tokens[OF assms(2,3)])
qed

end
