(* ===== verification/ParserSound.thy ===== *)
theory ParserSound
  imports SqlText
begin

text \<open>
  What the statements the parser returns have in common (\<open>query_ok\<close>): names are words, lists that
  the grammar wants non-empty are, column types have an enumerator, no value is a NaN
  (\<open>Parser_parse_ok\<close>). The proof is a small calculus on parsing functions: \<open>result_ok Q r\<close> says
  that a successful result satisfies \<open>Q\<close> and leaves good tokens, and is preserved by \<open>ebind\<close>.
\<close>

section \<open>Well-formed statements\<close>

fun predicate_wf :: "predicate \<Rightarrow> bool" where
  "predicate_wf (Comparison column op v) \<longleftrightarrow> word_text column \<and> value_ok v"
| "predicate_wf (PAnd l r) \<longleftrightarrow> predicate_wf l \<and> predicate_wf r"
| "predicate_wf (POr l r) \<longleftrightarrow> predicate_wf l \<and> predicate_wf r"

definition where_wf :: "predicate option \<Rightarrow> bool" where
  "where_wf w = (case w of None \<Rightarrow> True | Some p \<Rightarrow> predicate_wf p)"

definition join_wf :: "join_clause option \<Rightarrow> bool" where
  "join_wf j = (case j of None \<Rightarrow> True
     | Some c \<Rightarrow> word_text (jc_table c) \<and> word_text (jc_leftColumn c) \<and> word_text (jc_rightColumn c))"

definition order_wf :: "order_by option \<Rightarrow> bool" where
  "order_wf ob = (case ob of None \<Rightarrow> True | Some b \<Rightarrow> word_text (ob_column b))"

definition row_wf :: "row \<Rightarrow> bool" where
  "row_wf r \<longleftrightarrow> r \<noteq> [] \<and> (\<forall>v \<in> set r. value_ok v)"

fun query_ok :: "query \<Rightarrow> bool" where
  "query_ok (CreateDatabase n) \<longleftrightarrow> word_text n"
| "query_ok (CreateTable n cs) \<longleftrightarrow> word_text n \<and> cs \<noteq> [] \<and> (\<forall>c \<in> set cs. column_ok c)"
| "query_ok (DropTable n) \<longleftrightarrow> word_text n"
| "query_ok (RenameTable a b) \<longleftrightarrow> word_text a \<and> word_text b"
| "query_ok (Insert t rows) \<longleftrightarrow> word_text t \<and> rows \<noteq> [] \<and> (\<forall>r \<in> set rows. row_wf r)"
| "query_ok (Select s) \<longleftrightarrow> word_text (sel_table s) \<and> join_wf (sel_join s) \<and>
     (sel_columns s = [''*''] \<or> (sel_columns s \<noteq> [] \<and> list_all word_text (sel_columns s))) \<and>
     where_wf (sel_where s) \<and> order_wf (sel_orderBy s)"
| "query_ok (Update u) \<longleftrightarrow> word_text (upd_table u) \<and> word_text (upd_column u) \<and>
     value_ok (upd_value u) \<and> where_wf (upd_where u)"
| "query_ok (Delete t w) \<longleftrightarrow> word_text t \<and> where_wf w"
| "query_ok (CreateIndex n t c) \<longleftrightarrow> word_text n \<and> word_text t \<and> word_text c"
| "query_ok (LoadDatabase n) \<longleftrightarrow> (case n of None \<Rightarrow> True | Some m \<Rightarrow> word_text m)"
| "query_ok (PrepareStatement n sql) \<longleftrightarrow> word_text n"
| "query_ok (ExecutePrepared n vs) \<longleftrightarrow> word_text n \<and> (\<forall>v \<in> set vs. value_ok v)"
| "query_ok _ \<longleftrightarrow> True"

section \<open>Good tokens\<close>

definition good_token :: "token \<Rightarrow> bool" where
  "good_token t \<longleftrightarrow> (tok_type t = TkIdentifier \<longrightarrow> word_text (tok_lexeme t))"

definition good_tokens :: "token list \<Rightarrow> bool" where
  "good_tokens ts \<longleftrightarrow> list_all good_token ts"

lemma good_tokens_simps [simp]:
  "good_tokens []" "good_tokens (t # ts) \<longleftrightarrow> good_token t \<and> good_tokens ts"
  by (simp_all add: good_tokens_def)

lemma takeWhile_word: "isIdentifierStart ch \<Longrightarrow> word_text (ch # takeWhile isIdentifierPart cs)"
  by (auto simp: word_text_def list_all_iff dest: set_takeWhileD)

lemma tokenize_good: "tokenize s = Inr ts \<Longrightarrow> good_tokens ts"
proof (induction s arbitrary: ts rule: tokenize.induct)
  case 1
  then show ?case by (auto simp: good_token_def)
next
  case (2 ch cs)
  have punct: "good_token t" if "punctuation ch = Inr t" for t
    using that by (auto simp: punctuation_def good_token_def split: if_splits)
  have words: "isIdentifierStart ch \<Longrightarrow> good_token (mk_token TkIdentifier (ch # takeWhile isIdentifierPart cs))"
    using takeWhile_word by (simp add: good_token_def)
  have others: "good_token (mk_token TkNumber w)" "good_token (mk_token TkString w)" for w
    by (simp_all add: good_token_def)
  from "2.prems" show ?case
    by (auto simp: tokenize.simps(2) push_token_def ebind_eq_Inr words others punct
        split: if_splits intro: "2.IH")
qed

section \<open>The calculus\<close>

definition result_ok :: "('a \<Rightarrow> bool) \<Rightarrow> ('a \<times> token list) outcome \<Rightarrow> bool" where
  "result_ok Q r \<longleftrightarrow> (\<forall>x ts. r = Inr (x, ts) \<longrightarrow> Q x \<and> good_tokens ts)"

lemma result_ok_Inl [intro!]: "result_ok Q (Inl e)"
  by (simp add: result_ok_def)

lemma result_ok_Inr [intro!]: "Q x \<Longrightarrow> good_tokens ts \<Longrightarrow> result_ok Q (Inr (x, ts))"
  by (simp add: result_ok_def)

lemma result_ok_if [intro!]:
  "(b \<Longrightarrow> result_ok Q p) \<Longrightarrow> (\<not> b \<Longrightarrow> result_ok Q q) \<Longrightarrow> result_ok Q (if b then p else q)"
  by simp

lemma result_ok_bind:
  "result_ok R m \<Longrightarrow> (\<And>x ts. m = Inr (x, ts) \<Longrightarrow> R x \<Longrightarrow> good_tokens ts \<Longrightarrow> result_ok Q (f x ts)) \<Longrightarrow>
   result_ok Q (ebind m (\<lambda>(x, ts). f x ts))"
  by (cases m) (auto simp: result_ok_def)

lemma result_ok_mono: "result_ok R m \<Longrightarrow> (\<And>x. R x \<Longrightarrow> Q x) \<Longrightarrow> result_ok Q m"
  by (auto simp: result_ok_def)

lemma advance_ok: "good_tokens ts \<Longrightarrow> result_ok good_token (Parser_advance ts)"
  by (cases ts) (auto simp: Parser_advance_def Parser_peek_def result_ok_def)

lemma match_ok: "good_tokens ts \<Longrightarrow> result_ok (\<lambda>_. True) (Parser_match ty w ts)"
  by (cases ts)
    (auto simp: result_ok_def Parser_match_def Parser_advance_def Parser_peek_def split: if_splits)

lemma expect_ok: "good_tokens ts \<Longrightarrow> result_ok (\<lambda>_. True) (Parser_expect ty w ts)"
  unfolding Parser_expect_def by (rule result_ok_bind, erule match_ok) auto

lemma expect_name_ok: "good_tokens ts \<Longrightarrow> result_ok word_text (expect_name m ts)"
  unfolding expect_name_def by (rule result_ok_bind, erule advance_ok) (auto simp: good_token_def)

lemma parseValue_ok: "good_tokens ts \<Longrightarrow> result_ok value_ok (parseValue ts)"
  unfolding parseValue_def
  by (rule result_ok_bind, erule advance_ok)
    (auto simp: result_ok_def ebind_eq_Inr stod_not_nan)

lemmas prim_ok = match_ok expect_ok expect_name_ok parseValue_ok

text \<open>One round of a loop over a list with commas.\<close>

definition all_and_some :: "('a \<Rightarrow> bool) \<Rightarrow> 'a list \<Rightarrow> bool" where
  "all_and_some R xs \<longleftrightarrow> xs \<noteq> [] \<and> (\<forall>x \<in> set xs. R x)"

lemma comma_round_ok:
  assumes "result_ok R (item ts)"
    and "\<And>x ts1 b ts2. item ts = Inr (x, ts1) \<Longrightarrow> Parser_match TkComma [] ts1 = Inr (b, ts2) \<Longrightarrow> b \<Longrightarrow>
      good_tokens ts2 \<Longrightarrow> result_ok (all_and_some R) (again ts2)"
  shows "result_ok (all_and_some R) (ebind (item ts) (\<lambda>(x, ts1).
     ebind (Parser_match TkComma [] ts1) (\<lambda>(more, ts2).
       if more then ebind (again ts2) (\<lambda>(xs, ts3). Inr (x # xs, ts3)) else Inr ([x], ts2))))"
proof (rule result_ok_bind[OF assms(1)], rule result_ok_bind, erule match_ok)
  fix x ts1 more ts2
  assume h: "item ts = Inr (x, ts1)" "Parser_match TkComma [] ts1 = Inr (more, ts2)" "R x" "good_tokens ts2"
  show "result_ok (all_and_some R)
      (if more then ebind (again ts2) (\<lambda>(xs, ts3). Inr (x # xs, ts3)) else Inr ([x], ts2))"
  proof (cases more)
    case True
    then show ?thesis
      using h by (auto intro!: result_ok_bind[OF assms(2)[OF h(1,2)]] simp: all_and_some_def)
  qed (use h in \<open>auto simp: all_and_some_def\<close>)
qed

lemma parse_values_ok: "good_tokens ts \<Longrightarrow> result_ok (all_and_some value_ok) (parse_values ts)"
proof (induction ts rule: parse_values.induct)
  case (1 ts)
  show ?case
    by (subst parse_values.simps, rule comma_round_ok[where item = parseValue])
      (use 1 parseValue_ok in auto)
qed

lemma parse_tuple_ok: "good_tokens ts \<Longrightarrow> result_ok row_wf (parse_tuple ts)"
  unfolding parse_tuple_def
  by (rule result_ok_bind, erule expect_ok, rule result_ok_bind, erule parse_values_ok,
      rule result_ok_bind, erule expect_ok) (auto simp: all_and_some_def row_wf_def)

lemma parse_tuples_ok: "good_tokens ts \<Longrightarrow> result_ok (all_and_some row_wf) (parse_tuples ts)"
proof (induction ts rule: parse_tuples.induct)
  case (1 ts)
  show ?case
    by (subst parse_tuples.simps, rule comma_round_ok[where item = parse_tuple])
      (use 1 parse_tuple_ok in auto)
qed

lemma parse_names_ok: "good_tokens ts \<Longrightarrow> result_ok (all_and_some word_text) (parse_names ts)"
proof (induction ts rule: parse_names.induct)
  case (1 ts)
  show ?case
    by (subst parse_names.simps, rule comma_round_ok[where item = "expect_name _"])
      (use 1 expect_name_ok in auto)
qed

lemma columnTypeFromString_valid: "columnTypeFromString s = Some t \<Longrightarrow> ColumnType_valid t"
  by (auto simp: columnTypeFromString_def ColumnType_valid_def Let_def split: if_splits)

lemma parse_column_ok: "good_tokens ts \<Longrightarrow> result_ok column_ok (parse_column ts)"
  unfolding parse_column_def
  by (rule result_ok_bind, erule expect_name_ok, rule result_ok_bind, erule expect_name_ok)
    (auto split: option.split intro!: result_ok_bind[OF match_ok] result_ok_bind[OF expect_ok]
      simp: column_ok_def columnTypeFromString_valid)

lemma parse_columns_ok: "good_tokens ts \<Longrightarrow> result_ok (all_and_some column_ok) (parse_columns ts)"
proof (induction ts rule: parse_columns.induct)
  case (1 ts)
  show ?case
    by (subst parse_columns.simps, rule comma_round_ok[where item = parse_column])
      (use 1 parse_column_ok in auto)
qed

section \<open>Predicates\<close>

lemma comparison_ok: "good_tokens ts \<Longrightarrow> result_ok predicate_wf (parseComparisonPredicate ts)"
  unfolding parseComparisonPredicate_def
  by (rule result_ok_bind, erule expect_name_ok, rule result_ok_bind, erule match_ok,
      rule result_ok_bind[where R = "\<lambda>_. True"])
    (auto intro!: result_ok_bind[OF match_ok] result_ok_bind[OF parseValue_ok])

lemma predicate_parsers_ok:
  "good_tokens ts1 \<Longrightarrow> result_ok predicate_wf (parseOrPredicate ts1)"
  "good_tokens ts2 \<Longrightarrow> predicate_wf p2 \<Longrightarrow> result_ok predicate_wf (or_loop p2 ts2)"
  "good_tokens ts3 \<Longrightarrow> result_ok predicate_wf (parseAndPredicate ts3)"
  "good_tokens ts4 \<Longrightarrow> predicate_wf p4 \<Longrightarrow> result_ok predicate_wf (and_loop p4 ts4)"
  "good_tokens ts5 \<Longrightarrow> result_ok predicate_wf (parsePrimaryPredicate ts5)"
proof (induction ts1 and p2 ts2 and ts3 and p4 ts4 and ts5
    rule: parseOrPredicate_or_loop_parseAndPredicate_and_loop_parsePrimaryPredicate.induct)
  case (1 ts)
  show ?case
    by (subst parseOrPredicate.simps, rule result_ok_bind[where R = predicate_wf]) (use 1 in auto)
next
  case (2 p ts)
  show ?case
    by (subst or_loop.simps, rule result_ok_bind[OF match_ok[OF "2.prems"(1)]])
      (auto intro!: result_ok_bind[where R = predicate_wf] "2.IH" simp: "2.prems")
next
  case (3 ts)
  show ?case
    by (subst parseAndPredicate.simps, rule result_ok_bind[where R = predicate_wf]) (use 3 in auto)
next
  case (4 p ts)
  show ?case
    by (subst and_loop.simps, rule result_ok_bind[OF match_ok[OF "4.prems"(1)]])
      (auto intro!: result_ok_bind[where R = predicate_wf] "4.IH" simp: "4.prems")
next
  case (5 ts)
  show ?case
    by (subst parsePrimaryPredicate.simps, rule result_ok_bind[OF match_ok[OF "5.prems"]])
      (auto intro!: result_ok_bind[where R = predicate_wf] result_ok_bind[OF expect_ok] "5.IH" comparison_ok)
qed

lemma parse_where_ok: "good_tokens ts \<Longrightarrow> result_ok where_wf (parse_where ts)"
  unfolding parse_where_def parsePredicate_def
  by (rule result_ok_bind, erule match_ok)
    (auto intro!: result_ok_bind[OF predicate_parsers_ok(1)] simp: where_wf_def)

section \<open>Statements\<close>

lemma parse_join_ok: "good_tokens ts \<Longrightarrow> result_ok join_wf (parse_join ts)"
  unfolding parse_join_def
  by (auto intro!: result_ok_bind[OF match_ok] result_ok_bind[OF expect_ok]
      result_ok_bind[OF expect_name_ok] simp: join_wf_def)

lemma parse_order_by_ok: "good_tokens ts \<Longrightarrow> result_ok order_wf (parse_order_by ts)"
  unfolding parse_order_by_def
  by (auto intro!: result_ok_bind[OF match_ok] result_ok_bind[OF expect_ok]
      result_ok_bind[OF expect_name_ok] simp: order_wf_def)

lemma parse_limit_ok: "good_tokens ts \<Longrightarrow> result_ok (\<lambda>_. True) (parse_limit ts)"
  unfolding parse_limit_def
  by (auto intro!: result_ok_bind[OF match_ok] result_ok_bind[OF advance_ok])
    (auto simp: result_ok_def ebind_eq_Inr)

lemma parseSelect_ok: "good_tokens ts \<Longrightarrow> result_ok query_ok (parseSelect ts)"
  unfolding parseSelect_def
  apply (rule result_ok_bind, erule match_ok)
  apply (rule result_ok_bind[where R = "\<lambda>cs. cs = [''*''] \<or> all_and_some word_text cs"])
   apply (auto intro: result_ok_mono[OF parse_names_ok])[1]
  apply (rule result_ok_bind, erule expect_ok)
  apply (rule result_ok_bind, erule expect_name_ok)
  apply (rule result_ok_bind, erule parse_join_ok)
  apply (rule result_ok_bind, erule parse_where_ok)
  apply (rule result_ok_bind, erule parse_order_by_ok)
  apply (rule result_ok_bind, erule parse_limit_ok)
  apply (auto simp: all_and_some_def list_all_iff)
  done

lemmas stmt_binds = result_ok_bind[OF match_ok] result_ok_bind[OF expect_ok]
  result_ok_bind[OF expect_name_ok] result_ok_bind[OF parse_columns_ok] result_ok_bind[OF parse_tuples_ok]
  result_ok_bind[OF parse_tuple_ok] result_ok_bind[OF parse_where_ok] result_ok_bind[OF parseValue_ok]
  result_ok_bind[OF advance_ok]

lemma statement_parsers_ok:
  assumes "good_tokens ts"
  shows "result_ok query_ok (parseCreateDatabase ts)" "result_ok query_ok (parseCreateTable ts)"
    "result_ok query_ok (parseDropTable ts)" "result_ok query_ok (parseRenameTable ts)"
    "result_ok query_ok (parseCreateIndex ts)" "result_ok query_ok (parseInsert ts)"
    "result_ok query_ok (parseUpdate ts)" "result_ok query_ok (parseDelete ts)"
    "result_ok query_ok (parsePrepare ts)" "result_ok query_ok (parseExecutePrepared ts)"
  using assms
  unfolding parseCreateDatabase_def parseCreateTable_def parseDropTable_def parseRenameTable_def
    parseCreateIndex_def parseInsert_def parseUpdate_def parseDelete_def parsePrepare_def
    parseExecutePrepared_def
  by (auto intro!: stmt_binds simp: all_and_some_def row_wf_def)

lemma parse_then_ok: "query_ok q \<Longrightarrow> good_tokens ts \<Longrightarrow> result_ok query_ok (parse_then w q ts)"
  unfolding parse_then_def by (auto intro!: stmt_binds)

lemma parseLoad_ok: "good_tokens ts \<Longrightarrow> result_ok query_ok (parseLoad ts)"
  unfolding parseLoad_def
proof (rule result_ok_bind, erule expect_ok)
  fix u ts1
  assume g: "good_tokens ts1"
  show "result_ok query_ok (ebind (Parser_peek ts1) (\<lambda>t.
       if tok_type t = TkIdentifier
       then ebind (Parser_advance ts1) (\<lambda>(name, ts2). Inr (LoadDatabase (Some (tok_lexeme name)), ts2))
       else Inr (LoadDatabase None, ts1)))"
  proof (cases ts1)
    case (Cons t us)
    with g show ?thesis by (auto simp: Parser_peek_def Parser_advance_Cons good_token_def)
  qed (auto simp: Parser_peek_def)
qed

lemma parse_keyword_ok:
  "good_tokens ts \<Longrightarrow> (\<And>us. good_tokens us \<Longrightarrow> result_ok Q (p us)) \<Longrightarrow>
   (\<And>us. good_tokens us \<Longrightarrow> result_ok Q (other us)) \<Longrightarrow> result_ok Q (parse_keyword kw p other ts)"
  unfolding parse_keyword_def by (auto intro!: result_ok_bind[OF match_ok])

lemma parse_statement_ok: "good_tokens ts \<Longrightarrow> result_ok query_ok (parse_statement ts)"
  unfolding parse_statement_def parseCreate_def parse_fail_def
  by (intro parse_keyword_ok statement_parsers_ok parseSelect_ok parseLoad_ok parse_then_ok
      result_ok_Inl result_ok_Inr) simp_all

lemma Parser_parse_tokens_ok: "good_tokens ts \<Longrightarrow> Parser_parse_tokens ts = Inr q \<Longrightarrow> query_ok q"
  using parse_statement_ok[of ts] by (auto simp: Parser_parse_tokens_def ebind_eq_Inr result_ok_def)

lemma Parser_parse_ok: "Parser_parse sql = Inr q \<Longrightarrow> query_ok q"
  using Parser_parse_tokens_ok tokenize_good by (auto simp: Parser_parse_def ebind_eq_Inr)

end
