(* ===== verification/Files.thy ===== *)
theory Files
  imports Bytes
begin

text \<open>
  What the persistence code uses of \<open><filesystem>\<close> and \<open><fstream>\<close>: one directory, the storage
  root, with files that are lists of bytes, and streams that are the bytes that remain. The
  locale \<open>codec\<close> is the contract between a writer and its reader: the reader takes exactly the
  bytes that were written, and fails on any part of them that stops short. Pairs and counted
  lists of codecs are codecs.
\<close>

section \<open>The storage directory\<close>

text \<open>
  What becomes of the next write to the log: it works, the file does not open, or only the first
  bytes reach it; the flag says whether the stream notices that before it is destroyed, since its
  destructor flushes the buffer and drops the error.
\<close>

datatype log_device = LogWorks | LogClosed | LogFull nat bool

record disk =
  dk_exists :: bool
  dk_files :: "(string \<times> byte list) list"
  dk_log :: log_device

definition disk_read :: "string \<Rightarrow> disk \<Rightarrow> byte list option" where
  "disk_read name d = (if dk_exists d then map_of (dk_files d) name else None)"

definition disk_create_directories :: "disk \<Rightarrow> disk" where
  "disk_create_directories d = d\<lparr>dk_exists := True\<rparr>"

definition disk_write :: "string \<Rightarrow> byte list \<Rightarrow> disk \<Rightarrow> disk" where
  "disk_write name bs d = d\<lparr>dk_files := AList.update name bs (dk_files d)\<rparr>"

definition disk_remove :: "string \<Rightarrow> disk \<Rightarrow> disk" where
  "disk_remove name d = d\<lparr>dk_files := AList.delete name (dk_files d)\<rparr>"

lemma disk_read_write [simp]:
  "disk_read n (disk_write m bs d) = (if n = m \<and> dk_exists d then Some bs else disk_read n d)"
  by (simp add: disk_read_def disk_write_def AList.update_conv')

lemma disk_read_remove [simp]:
  "disk_read n (disk_remove m d) = (if n = m then None else disk_read n d)"
  by (simp add: disk_read_def disk_remove_def AList.delete_conv')

lemma disk_exists_simps [simp]:
  "dk_exists (disk_write n bs d) = dk_exists d" "dk_exists (disk_remove n d) = dk_exists d"
  "dk_exists (disk_create_directories d)"
  "dk_log (disk_write n bs d) = dk_log d" "dk_log (disk_remove n d) = dk_log d"
  "dk_log (disk_create_directories d) = dk_log d"
  by (simp_all add: disk_write_def disk_remove_def disk_create_directories_def)

lemma disk_read_create: "disk_read n d = Some bs \<Longrightarrow> disk_read n (disk_create_directories d) = Some bs"
  by (simp add: disk_read_def disk_create_directories_def split: if_splits)

section \<open>Streams\<close>

type_synonym 'a reader = "byte list \<Rightarrow> ('a \<times> byte list) outcome"

definition read_bytes :: "string \<Rightarrow> nat \<Rightarrow> byte list reader" where
  "read_bytes message n bs =
     (if length bs < n then Inl (RuntimeError message) else Inr (take n bs, drop n bs))"

definition read_u8 :: "string \<Rightarrow> byte reader" where
  "read_u8 message bs = ebind (read_bytes message 1 bs) (\<lambda>(b, rest). Inr (hd b, rest))"

definition read_u32 :: "string \<Rightarrow> 32 word reader" where
  "read_u32 message bs =
     ebind (read_bytes message 4 bs) (\<lambda>(b, rest). Inr (word_of_nat (le_value b), rest))"

definition read_u64 :: "string \<Rightarrow> 64 word reader" where
  "read_u64 message bs =
     ebind (read_bytes message 8 bs) (\<lambda>(b, rest). Inr (word_of_nat (le_value b), rest))"

text \<open>
  The text of a given size. A size that no allocation can satisfy throws another class of
  exception before the read; it is the same failure here.
\<close>

definition read_text :: "string \<Rightarrow> 64 word \<Rightarrow> string reader" where
  "read_text message len bs =
     ebind (read_bytes message (unat len) bs) (\<lambda>(b, rest). Inr (map char_of_byte b, rest))"

definition write_string :: "string \<Rightarrow> byte list" where
  "write_string s = bytes64 (size64 s) @ map byte_of_char s"

definition read_string :: "string \<Rightarrow> string reader" where
  "read_string message bs =
     ebind (read_u64 message bs) (\<lambda>(len, rest). read_text message len rest)"

text \<open>\<open>for (i = 0; i < n; ++i)\<close> around a read.\<close>

fun read_n :: "nat \<Rightarrow> 'a reader \<Rightarrow> 'a list reader" where
  "read_n 0 r bs = Inr ([], bs)"
| "read_n (Suc n) r bs =
     ebind (r bs) (\<lambda>(x, rest). ebind (read_n n r rest) (\<lambda>(xs, rest'). Inr (x # xs, rest')))"

definition read_pair :: "'a reader \<Rightarrow> 'b reader \<Rightarrow> ('a \<times> 'b) reader" where
  "read_pair r1 r2 bs =
     ebind (r1 bs) (\<lambda>(x, rest). ebind (r2 rest) (\<lambda>(y, rest'). Inr ((x, y), rest')))"

section \<open>The contract of a writer and its reader\<close>

definition fails :: "'a outcome \<Rightarrow> bool" where
  "fails r \<longleftrightarrow> (\<exists>e. r = Inl e)"

lemma fails_simps [simp]: "fails (Inl e)" "\<not> fails (Inr x)"
  by (simp_all add: fails_def)

lemma fails_bind: "fails m \<Longrightarrow> fails (ebind m f)"
  by (auto simp: fails_def)

text \<open>A proper part from the front.\<close>

definition cut_of :: "byte list \<Rightarrow> byte list \<Rightarrow> bool" where
  "cut_of bs full \<longleftrightarrow> (\<exists>more. more \<noteq> [] \<and> full = bs @ more)"

lemma cut_of_append: "cut_of bs (xs @ ys) \<longleftrightarrow> cut_of bs xs \<or> (\<exists>bs'. bs = xs @ bs' \<and> cut_of bs' ys)"
proof
  assume "cut_of bs (xs @ ys)"
  then obtain more where "more \<noteq> []" "xs @ ys = bs @ more" by (auto simp: cut_of_def)
  then show "cut_of bs xs \<or> (\<exists>bs'. bs = xs @ bs' \<and> cut_of bs' ys)"
    by (auto simp: append_eq_append_conv2 cut_of_def)
next
  assume "cut_of bs xs \<or> (\<exists>bs'. bs = xs @ bs' \<and> cut_of bs' ys)"
  then show "cut_of bs (xs @ ys)"
  proof (elim disjE exE conjE)
    assume "cut_of bs xs"
    then obtain more where "more \<noteq> []" "xs = bs @ more" unfolding cut_of_def by blast
    then show ?thesis unfolding cut_of_def by (intro exI[of _ "more @ ys"]) simp
  next
    fix bs' assume "bs = xs @ bs'" "cut_of bs' ys"
    then show ?thesis unfolding cut_of_def by auto
  qed
qed

lemma cut_of_Nil [simp]: "\<not> cut_of bs []"
  by (simp add: cut_of_def)

lemma cut_of_length: "cut_of bs full \<Longrightarrow> length bs < length full"
  by (auto simp: cut_of_def)

locale codec =
  fixes enc :: "'a \<Rightarrow> byte list" and dec :: "'a reader" and ok :: "'a \<Rightarrow> bool"
  assumes dec_enc: "ok x \<Longrightarrow> dec (enc x @ rest) = Inr (x, rest)"
    and dec_cut: "ok x \<Longrightarrow> cut_of bs (enc x) \<Longrightarrow> fails (dec bs)"
begin

lemma read_n_enc:
  "list_all ok xs \<Longrightarrow> read_n (length xs) dec (concat (map enc xs) @ rest) = Inr (xs, rest)"
  by (induction xs) (auto simp: dec_enc)

lemma read_n_cut:
  "list_all ok xs \<Longrightarrow> cut_of bs (concat (map enc xs)) \<Longrightarrow> fails (read_n (length xs) dec bs)"
proof (induction xs arbitrary: bs)
  case (Cons x xs)
  from Cons.prems(2) consider "cut_of bs (enc x)" | bs' where "bs = enc x @ bs'" "cut_of bs' (concat (map enc xs))"
    by (auto simp: cut_of_append)
  then show ?case
  proof cases
    case 1
    with Cons.prems(1) have "fails (dec bs)" using dec_cut[of x bs] by simp
    then show ?thesis by (simp add: fails_bind)
  next
    case 2
    with Cons show ?thesis by (simp add: dec_enc fails_bind)
  qed
qed simp

end

text \<open>Two codecs in sequence.\<close>

lemma codec_pair:
  assumes "codec enc1 dec1 ok1" and "codec enc2 dec2 ok2"
  shows "codec (\<lambda>(x, y). enc1 x @ enc2 y) (read_pair dec1 dec2) (\<lambda>(x, y). ok1 x \<and> ok2 y)"
proof
  fix x :: "'a \<times> 'b" and rest bs
  assume ok: "case x of (x, y) \<Rightarrow> ok1 x \<and> ok2 y"
  then show "read_pair dec1 dec2 ((case x of (x, y) \<Rightarrow> enc1 x @ enc2 y) @ rest) = Inr (x, rest)"
    by (auto simp: read_pair_def codec.dec_enc[OF assms(1)] codec.dec_enc[OF assms(2)])
  assume "cut_of bs (case x of (x, y) \<Rightarrow> enc1 x @ enc2 y)"
  then consider "cut_of bs (enc1 (fst x))" | bs' where "bs = enc1 (fst x) @ bs'" "cut_of bs' (enc2 (snd x))"
    by (cases x) (auto simp: cut_of_append)
  then show "fails (read_pair dec1 dec2 bs)"
  proof cases
    case 1
    with ok have "fails (dec1 bs)" using codec.dec_cut[OF assms(1)] by auto
    then show ?thesis by (simp add: read_pair_def fails_bind)
  next
    case 2
    with ok have "fails (dec2 bs')" using codec.dec_cut[OF assms(2)] by auto
    with 2 ok codec.dec_enc[OF assms(1)] show ?thesis by (auto simp: read_pair_def fails_bind)
  qed
qed

lemma read_bytes_enc: "length w = n \<Longrightarrow> read_bytes m n (w @ rest) = Inr (w, rest)"
  by (simp add: read_bytes_def)

lemma read_bytes_cut: "length w = n \<Longrightarrow> cut_of bs w \<Longrightarrow> fails (read_bytes m n bs)"
  using cut_of_length by (fastforce simp: read_bytes_def)

interpretation u8_codec: codec "\<lambda>b. [b]" "read_u8 m" "\<lambda>_. True" for m
proof unfold_locales
  fix b :: byte and rest bs
  show "read_u8 m ([b] @ rest) = Inr (b, rest)"
    using read_bytes_enc[of "[b]" 1] by (simp add: read_u8_def)
  show "cut_of bs [b] \<Longrightarrow> fails (read_u8 m bs)"
    using read_bytes_cut[of "[b]" 1] by (simp add: read_u8_def fails_bind)
qed

interpretation u32_codec: codec bytes32 "read_u32 m" "\<lambda>_. True" for m
proof unfold_locales
  fix w :: "32 word" and rest bs
  show "read_u32 m (bytes32 w @ rest) = Inr (w, rest)"
    using read_bytes_enc[of "bytes32 w" 4] by (simp add: read_u32_def le_value_bytes32)
  show "cut_of bs (bytes32 w) \<Longrightarrow> fails (read_u32 m bs)"
    using read_bytes_cut[of "bytes32 w" 4] by (simp add: read_u32_def fails_bind)
qed

interpretation u64_codec: codec bytes64 "read_u64 m" "\<lambda>_. True" for m
proof unfold_locales
  fix w :: "64 word" and rest bs
  show "read_u64 m (bytes64 w @ rest) = Inr (w, rest)"
    using read_bytes_enc[of "bytes64 w" 8] by (simp add: read_u64_def le_value_bytes64)
  show "cut_of bs (bytes64 w) \<Longrightarrow> fails (read_u64 m bs)"
    using read_bytes_cut[of "bytes64 w" 8] by (simp add: read_u64_def fails_bind)
qed

text \<open>A length fits in 64 bits, as every length in memory does.\<close>

definition length_ok :: "'a list \<Rightarrow> bool" where
  "length_ok xs \<longleftrightarrow> length xs < 2 ^ 64"

lemma read_text_enc:
  "length_ok s \<Longrightarrow> read_text m (size64 s) (map byte_of_char s @ rest) = Inr (s, rest)"
  using read_bytes_enc[of "map byte_of_char s" "length s" m rest]
  by (simp add: read_text_def length_ok_def unat_size64 comp_def)

lemma read_text_cut:
  "length_ok s \<Longrightarrow> cut_of bs (map byte_of_char s) \<Longrightarrow> fails (read_text m (size64 s) bs)"
  using read_bytes_cut[of "map byte_of_char s" "length s" bs m]
  by (simp add: read_text_def length_ok_def unat_size64 fails_bind)

interpretation string_codec: codec write_string "read_string m" length_ok for m
proof unfold_locales
  fix s :: string and rest bs
  assume ok: "length_ok s"
  show "read_string m (write_string s @ rest) = Inr (s, rest)"
    by (simp add: read_string_def write_string_def u64_codec.dec_enc read_text_enc[OF ok])
  assume "cut_of bs (write_string s)"
  then consider "cut_of bs (bytes64 (size64 s))"
    | bs' where "bs = bytes64 (size64 s) @ bs'" "cut_of bs' (map byte_of_char s)"
    by (auto simp: write_string_def cut_of_append)
  then show "fails (read_string m bs)"
  proof cases
    case 1
    then show ?thesis by (simp add: read_string_def fails_bind u64_codec.dec_cut)
  next
    case 2
    then show ?thesis by (simp add: read_string_def u64_codec.dec_enc read_text_cut[OF ok])
  qed
qed

end
