(* ===== verification/Wal.thy ===== *)
theory Wal
  imports Files
begin

text \<open>
  \<open>persistence/write_ahead_log.hpp\<close> and \<open>persistence/write_ahead_log.cpp\<close>: the log file is a
  sequence of records, each with a magic number, a version, a log sequence number, an operation
  and a payload. \<open>wal_ok\<close> is the log as a list of records; \<open>wal_append_spec\<close> says that an append
  adds one record with a larger number, and \<open>read_records_cut\<close> that a log with a torn record at
  its end cannot be read at all. Numbers are 64-bit and wrap; \<open>wal_ok\<close> carries a bound below
  which they do not.
\<close>

datatype wal_operation =
    WalCreateDatabase | WalCreateTable | WalDropTable | WalRenameTable | WalInsert | WalUpdate
  | WalDelete | WalCreateIndex | WalSaveDatabase
  | WalRaw byte

text \<open>The underlying bytes; the reader casts any byte.\<close>

fun wal_code :: "wal_operation \<Rightarrow> byte" where
  "wal_code WalCreateDatabase = 0"
| "wal_code WalCreateTable = 1"
| "wal_code WalDropTable = 2"
| "wal_code WalRenameTable = 3"
| "wal_code WalInsert = 4"
| "wal_code WalUpdate = 5"
| "wal_code WalDelete = 6"
| "wal_code WalCreateIndex = 7"
| "wal_code WalSaveDatabase = 8"
| "wal_code (WalRaw b) = b"

definition wal_cast :: "byte \<Rightarrow> wal_operation" where
  "wal_cast b =
     (if b = 0 then WalCreateDatabase else if b = 1 then WalCreateTable
      else if b = 2 then WalDropTable else if b = 3 then WalRenameTable
      else if b = 4 then WalInsert else if b = 5 then WalUpdate
      else if b = 6 then WalDelete else if b = 7 then WalCreateIndex
      else if b = 8 then WalSaveDatabase else WalRaw b)"

definition wal_op_ok :: "wal_operation \<Rightarrow> bool" where
  "wal_op_ok op \<longleftrightarrow> wal_cast (wal_code op) = op"

lemma wal_op_ok_simps [simp]:
  "wal_op_ok WalCreateDatabase" "wal_op_ok WalCreateTable" "wal_op_ok WalDropTable"
  "wal_op_ok WalRenameTable" "wal_op_ok WalInsert" "wal_op_ok WalUpdate" "wal_op_ok WalDelete"
  "wal_op_ok WalCreateIndex" "wal_op_ok WalSaveDatabase"
  by (simp_all add: wal_op_ok_def wal_cast_def)

record wal_record =
  wr_lsn :: "64 word"
  wr_operation :: wal_operation
  wr_payload :: string

definition kWalMagic :: "32 word" where
  "kWalMagic = 0x54435741"

definition kWalVersion :: "32 word" where
  "kWalVersion = 1"

definition write_record :: "wal_record \<Rightarrow> byte list" where
  "write_record r =
     bytes32 kWalMagic @ bytes32 kWalVersion @ bytes64 (wr_lsn r) @ [wal_code (wr_operation r)]
     @ bytes64 (size64 (wr_payload r)) @ map byte_of_char (wr_payload r)"

abbreviation wal_read_error :: string where
  "wal_read_error \<equiv> ''failed to read WAL record''"

definition read_record :: "wal_record reader" where
  "read_record bs =
     ebind (read_u32 wal_read_error bs) (\<lambda>(magic, b1).
     ebind (read_u32 wal_read_error b1) (\<lambda>(version, b2).
       if magic \<noteq> kWalMagic \<or> version \<noteq> kWalVersion
       then Inl (RuntimeError ''invalid WAL record header'')
       else
         ebind (read_u64 wal_read_error b2) (\<lambda>(lsn, b3).
         ebind (read_u8 wal_read_error b3) (\<lambda>(op, b4).
         ebind (read_u64 wal_read_error b4) (\<lambda>(payloadSize, b5).
         ebind (read_text ''truncated WAL payload'' payloadSize b5) (\<lambda>(payload, b6).
           Inr (\<lparr>wr_lsn = lsn, wr_operation = wal_cast op, wr_payload = payload\<rparr>, b6)))))))"

lemma read_bytes_length: "read_bytes m n bs = Inr (x, rest) \<Longrightarrow> length rest + n = length bs"
  by (auto simp: read_bytes_def split: if_splits)

lemma read_record_shorter: "read_record bs = Inr (r, rest) \<Longrightarrow> length rest < length bs"
  by (auto simp: read_record_def read_u32_def read_u64_def read_u8_def read_text_def ebind_eq_Inr
      dest!: read_bytes_length split: if_splits)

text \<open>The loop of \<open>readAll\<close>: until the end of the file.\<close>

function read_records :: "byte list \<Rightarrow> wal_record list outcome" where
  "read_records bs =
     (if bs = [] then Inr []
      else ebind (read_record bs) (\<lambda>(r, rest). ebind (read_records rest) (\<lambda>rs. Inr (r # rs))))"
  by pat_completeness auto
termination
  by (relation "measure length") (auto dest: read_record_shorter)

declare read_records.simps [simp del]

section \<open>Records and bytes\<close>

definition record_ok :: "wal_record \<Rightarrow> bool" where
  "record_ok r \<longleftrightarrow> length_ok (wr_payload r) \<and> wal_op_ok (wr_operation r)"

lemma write_record_nonempty [simp]: "write_record r \<noteq> []"
proof -
  have "length (write_record r) \<noteq> 0" by (simp add: write_record_def)
  then show ?thesis by fastforce
qed

interpretation record_codec: codec write_record read_record record_ok
proof unfold_locales
  fix r :: wal_record and rest bs
  assume ok: "record_ok r"
  have u8: "read_u8 wal_read_error (b # xs) = Inr (b, xs)" for b xs
    using u8_codec.dec_enc[of wal_read_error b xs] by simp
  show "read_record (write_record r @ rest) = Inr (r, rest)"
    using ok
    by (simp add: u8 read_record_def write_record_def u32_codec.dec_enc u64_codec.dec_enc
        read_text_enc record_ok_def wal_op_ok_def)
  assume "cut_of bs (write_record r)"
  then consider "cut_of bs (bytes32 kWalMagic)"
    | b1 where "bs = bytes32 kWalMagic @ b1" "cut_of b1 (bytes32 kWalVersion)"
    | b2 where "bs = bytes32 kWalMagic @ bytes32 kWalVersion @ b2" "cut_of b2 (bytes64 (wr_lsn r))"
    | b3 where "bs = bytes32 kWalMagic @ bytes32 kWalVersion @ bytes64 (wr_lsn r) @ b3"
        "cut_of b3 [wal_code (wr_operation r)]"
    | b4 where "bs = bytes32 kWalMagic @ bytes32 kWalVersion @ bytes64 (wr_lsn r) @
        [wal_code (wr_operation r)] @ b4" "cut_of b4 (bytes64 (size64 (wr_payload r)))"
    | b5 where "bs = bytes32 kWalMagic @ bytes32 kWalVersion @ bytes64 (wr_lsn r) @
        [wal_code (wr_operation r)] @ bytes64 (size64 (wr_payload r)) @ b5"
        "cut_of b5 (map byte_of_char (wr_payload r))"
    unfolding write_record_def cut_of_append by blast
  then show "fails (read_record bs)"
    using ok
    by cases (simp_all add: read_record_def u32_codec.dec_enc u64_codec.dec_enc u8 record_ok_def
        fails_bind u32_codec.dec_cut u64_codec.dec_cut u8_codec.dec_cut read_text_cut)
qed

definition wal_bytes :: "wal_record list \<Rightarrow> byte list" where
  "wal_bytes rs = concat (map write_record rs)"

lemma wal_bytes_simps [simp]:
  "wal_bytes [] = []" "wal_bytes (r # rs) = write_record r @ wal_bytes rs"
  "wal_bytes (rs @ ss) = wal_bytes rs @ wal_bytes ss"
  by (simp_all add: wal_bytes_def)

lemma read_records_bytes: "list_all record_ok rs \<Longrightarrow> read_records (wal_bytes rs) = Inr rs"
proof (induction rs)
  case Nil
  then show ?case by (simp add: read_records.simps)
next
  case (Cons r rs)
  then show ?case by (subst read_records.simps) (simp add: record_codec.dec_enc)
qed

text \<open>A torn record at the end of the file hides every record before it.\<close>

lemma read_records_cut:
  "list_all record_ok rs \<Longrightarrow> record_ok r \<Longrightarrow> bs \<noteq> [] \<Longrightarrow> cut_of bs (write_record r) \<Longrightarrow>
   fails (read_records (wal_bytes rs @ bs))"
proof (induction rs)
  case Nil
  then show ?case
    by (subst read_records.simps) (simp add: fails_bind record_codec.dec_cut[of r])
next
  case (Cons s rs)
  then show ?case
    by (subst read_records.simps) (simp add: record_codec.dec_enc fails_bind)
qed

section \<open>The class\<close>

definition walFile :: string where
  "walFile = ''VertexDB.wal''"

record wal =
  wal_nextLsn :: "64 word option"

definition WriteAheadLog_new :: wal where
  "WriteAheadLog_new = \<lparr>wal_nextLsn = None\<rparr>"

definition WriteAheadLog_readAll :: "disk \<Rightarrow> wal_record list outcome" where
  "WriteAheadLog_readAll d =
     (case disk_read walFile d of None \<Rightarrow> Inr [] | Some bs \<Rightarrow> read_records bs)"

definition WriteAheadLog_nextLsn :: "wal \<Rightarrow> disk \<Rightarrow> (64 word \<times> wal) outcome" where
  "WriteAheadLog_nextLsn w d =
     (case wal_nextLsn w of
        Some n \<Rightarrow> Inr (n, w\<lparr>wal_nextLsn := Some (n + 1)\<rparr>)
      | None \<Rightarrow>
          ebind (WriteAheadLog_readAll d) (\<lambda>records.
            (let n = fold (\<lambda>r next. max next (wr_lsn r + 1)) records 1
             in Inr (n, w\<lparr>wal_nextLsn := Some (n + 1)\<rparr>))))"

definition WriteAheadLog_append ::
  "wal_operation \<Rightarrow> string \<Rightarrow> wal \<Rightarrow> disk \<Rightarrow> (wal \<times> disk) \<times> 64 word outcome" where
  "WriteAheadLog_append op payload w d =
     (let d1 = disk_create_directories d
      in case WriteAheadLog_nextLsn w d1 of
           Inl e \<Rightarrow> ((w, d1), Inl e)
         | Inr (lsn, w1) \<Rightarrow>
             (let old = (case disk_read walFile d1 of None \<Rightarrow> [] | Some bs \<Rightarrow> bs);
                  bytes = write_record \<lparr>wr_lsn = lsn, wr_operation = op, wr_payload = payload\<rparr>
              in case dk_log d1 of
                   LogClosed \<Rightarrow> ((w1, d1), Inl (RuntimeError ''failed to open WAL for append''))
                 | LogFull k noticed \<Rightarrow>
                     ((w1, disk_write walFile (old @ take k bytes) d1),
                      if noticed then Inl (RuntimeError ''failed to append WAL record'') else Inr lsn)
                 | LogWorks \<Rightarrow> ((w1, disk_write walFile (old @ bytes) d1), Inr lsn)))"

text \<open>Whether the stream that truncates the file could be opened is not tested.\<close>

definition WriteAheadLog_reset :: "wal \<Rightarrow> disk \<Rightarrow> wal \<times> disk" where
  "WriteAheadLog_reset w d =
     (let d1 = disk_create_directories d
      in (w\<lparr>wal_nextLsn := Some 1\<rparr>, if dk_log d1 = LogClosed then d1 else disk_write walFile [] d1))"

section \<open>The log as a list of records\<close>

definition wal_file_ok :: "wal_record list \<Rightarrow> disk \<Rightarrow> bool" where
  "wal_file_ok rs d \<longleftrightarrow> list_all record_ok rs \<and> dk_log d = LogWorks \<and>
     (disk_read walFile d = Some (wal_bytes rs) \<or> (rs = [] \<and> disk_read walFile d = None \<and>
        disk_read walFile (disk_create_directories d) = None))"

text \<open>The numbers increase, stay below \<open>k\<close>, and below the next one where it is known.\<close>

definition wal_ok :: "nat \<Rightarrow> wal_record list \<Rightarrow> wal \<Rightarrow> disk \<Rightarrow> bool" where
  "wal_ok k rs w d \<longleftrightarrow> wal_file_ok rs d \<and> 0 < k \<and>
     sorted_wrt (\<lambda>a b. wr_lsn a < wr_lsn b) rs \<and> (\<forall>r \<in> set rs. unat (wr_lsn r) < k) \<and>
     (case wal_nextLsn w of
        None \<Rightarrow> True
      | Some n \<Rightarrow> unat n \<le> k \<and> (\<forall>r \<in> set rs. wr_lsn r < n))"

lemma readAll_file_ok: "wal_file_ok rs d \<Longrightarrow> WriteAheadLog_readAll d = Inr rs"
  by (auto simp: wal_file_ok_def WriteAheadLog_readAll_def read_records_bytes)

lemma wal_file_ok_create: "wal_file_ok rs d \<Longrightarrow> wal_file_ok rs (disk_create_directories d)"
  using disk_read_create by (auto simp: wal_file_ok_def disk_create_directories_def)

lemma next_lsn_fold:
  assumes "\<forall>r \<in> set rs. unat (wr_lsn r) < k" and "k < 2 ^ 64" and "unat (m :: 64 word) \<le> k"
  shows "unat (fold (\<lambda>r next. max next (wr_lsn r + 1)) rs m) \<le> k \<and>
    m \<le> fold (\<lambda>r next. max next (wr_lsn r + 1)) rs m \<and>
    (\<forall>r \<in> set rs. wr_lsn r < fold (\<lambda>r next. max next (wr_lsn r + 1)) rs m)"
  using assms(1,3)
proof (induction rs arbitrary: m)
  case (Cons r rs)
  have r: "unat (wr_lsn r) < k" using Cons.prems by simp
  then have "unat (wr_lsn r) + 1 < 2 ^ 64" using assms(2) by simp
  then have succ: "unat (wr_lsn r + 1) = unat (wr_lsn r) + 1"
    by (simp add: unat_add_lem[THEN iffD1])
  let ?m = "max m (wr_lsn r + 1)"
  have m: "unat ?m \<le> k" using succ r Cons.prems(2) by (simp add: max_def)
  have "wr_lsn r < ?m" using succ by (simp add: word_less_nat_alt max_def not_le word_le_nat_alt)
  moreover have "m \<le> ?m" by simp
  ultimately show ?case using Cons.IH[OF _ m] Cons.prems(1) by (auto intro: order_trans less_le_trans)
qed simp

lemma wal_append_spec:
  assumes ok: "wal_ok k rs w d" and payload: "length_ok payload" "wal_op_ok op" and room: "k + 1 < 2 ^ 64"
  shows "\<exists>lsn w' d'. WriteAheadLog_append op payload w d = ((w', d'), Inr lsn) \<and>
    wal_ok (k + 1) (rs @ [\<lparr>wr_lsn = lsn, wr_operation = op, wr_payload = payload\<rparr>]) w' d' \<and>
    (\<forall>r \<in> set rs. wr_lsn r < lsn) \<and> (\<forall>f. f \<noteq> walFile \<longrightarrow> disk_read f d' = disk_read f (disk_create_directories d))"
proof -
  let ?d = "disk_create_directories d"
  have held: "wal_file_ok rs ?d" using ok wal_file_ok_create by (simp add: wal_ok_def)
  obtain lsn where lsn: "WriteAheadLog_nextLsn w ?d = Inr (lsn, w\<lparr>wal_nextLsn := Some (lsn + 1)\<rparr>)"
    "unat lsn \<le> k" "\<forall>r \<in> set rs. wr_lsn r < lsn"
  proof (cases "wal_nextLsn w")
    case (Some n)
    with ok show ?thesis using that[of n] by (simp add: WriteAheadLog_nextLsn_def wal_ok_def)
  next
    case None
    have "unat (1 :: 64 word) \<le> k" using ok by (simp add: wal_ok_def)
    with None ok room show ?thesis
      using that[of "fold (\<lambda>r next. max next (wr_lsn r + 1)) rs 1"] next_lsn_fold[of rs k 1] readAll_file_ok[OF held]
      by (simp add: WriteAheadLog_nextLsn_def wal_ok_def Let_def)
  qed
  let ?r = "\<lparr>wr_lsn = lsn, wr_operation = op, wr_payload = payload\<rparr>"
  let ?d' = "disk_write walFile (wal_bytes (rs @ [?r])) ?d"
  have app: "WriteAheadLog_append op payload w d = ((w\<lparr>wal_nextLsn := Some (lsn + 1)\<rparr>, ?d'), Inr lsn)"
    using held lsn(1) by (auto simp: WriteAheadLog_append_def Let_def wal_file_ok_def)
  have "unat (lsn + 1) = unat lsn + 1"
    using lsn(2) room by (simp add: unat_add_lem[THEN iffD1])
  then have "unat (lsn + 1) \<le> k + 1" "lsn < lsn + 1"
    using lsn(2) by (simp_all add: word_less_nat_alt)
  then have "wal_ok (k + 1) (rs @ [?r]) (w\<lparr>wal_nextLsn := Some (lsn + 1)\<rparr>) ?d'"
    using ok lsn(2,3) payload
    by (auto simp: wal_ok_def wal_file_ok_def record_ok_def sorted_wrt_append intro: less_trans)
  with app lsn(3) show ?thesis by auto
qed

lemma wal_reset_spec:
  assumes "WriteAheadLog_reset w d = (w', d')" and "dk_log d = LogWorks"
  shows "wal_ok 1 [] w' d' \<and> (\<forall>f. f \<noteq> walFile \<longrightarrow> disk_read f d' = disk_read f (disk_create_directories d))"
  using assms by (auto simp: WriteAheadLog_reset_def Let_def wal_ok_def wal_file_ok_def)

end
