(* ===== verification/StorageManager.thy ===== *)
theory StorageManager
  imports Files Database
begin

text \<open>
  \<open>persistence/storage_manager.hpp\<close> and \<open>persistence/storage_manager.cpp\<close>: the snapshot file
  of a database, its writer and its reader, and the publication of a snapshot by a rename. The
  faults of the file system are a parameter of \<open>saveDatabase\<close> (\<open>save_env\<close>). The reader passes
  two \<open>readString\<close> calls as arguments of one call, which C++ may evaluate in either order: the
  flag \<open>ltr\<close> of \<open>loadDatabase\<close> says which.
\<close>

abbreviation db_read_error :: string where
  "db_read_error \<equiv> ''failed to read database file''"

definition kMagic :: "byte list" where
  "kMagic = map byte_of_char ''TCRDB001''"

definition kVersion :: "32 word" where
  "kVersion = 1"

definition kExtension :: string where
  "kExtension = ''.tcrdb''"

section \<open>Values\<close>

definition writeValue :: "sql_value \<Rightarrow> byte list" where
  "writeValue v =
     (case v of
        VNull \<Rightarrow> [255]
      | VInt i \<Rightarrow> ColumnType_code CInt # bytes64 i
      | VDouble d \<Rightarrow> ColumnType_code CDouble # bytes64 d
      | VString s \<Rightarrow> ColumnType_code CString # write_string s)"

definition readValue :: "sql_value reader" where
  "readValue bs =
     ebind (read_u8 db_read_error bs) (\<lambda>(encodedType, b1).
       if encodedType = 255 then Inr (VNull, b1)
       else (case ColumnType_cast encodedType of
               CInt \<Rightarrow> ebind (read_u64 db_read_error b1) (\<lambda>(i, b2). Inr (VInt i, b2))
             | CDouble \<Rightarrow> ebind (read_u64 db_read_error b1) (\<lambda>(d, b2). Inr (VDouble d, b2))
             | CString \<Rightarrow> ebind (read_string db_read_error b1) (\<lambda>(s, b2). Inr (VString s, b2))
             | CRaw _ \<Rightarrow> Inl (RuntimeError ''unsupported value type in database file'')))"

definition value_stored :: "sql_value \<Rightarrow> bool" where
  "value_stored v = (case v of VString s \<Rightarrow> length_ok s | _ \<Rightarrow> True)"

lemma read_u8_Cons [simp]: "read_u8 m (b # bs) = Inr (b, bs)"
  using u8_codec.dec_enc[of m b bs] by simp

interpretation value_codec: codec writeValue readValue value_stored
proof unfold_locales
  fix v rest bs
  assume ok: "value_stored v"
  show "readValue (writeValue v @ rest) = Inr (v, rest)"
    using ok by (cases v) (simp_all add: readValue_def writeValue_def ColumnType_code_def
        ColumnType_cast_def u64_codec.dec_enc string_codec.dec_enc value_stored_def)
  have tag: "bs = [] \<or> (\<exists>bs'. bs = b # bs' \<and> cut_of bs' xs)" if "cut_of bs (b # xs)" for b xs
    using cut_of_append[of bs "[b]" xs] that by (cases bs) (auto simp: cut_of_def)
  have nil: "fails (readValue [])" by (simp add: readValue_def read_u8_def read_bytes_def)
  show "cut_of bs (writeValue v) \<Longrightarrow> fails (readValue bs)"
    using ok nil
    by (cases v) (auto simp: writeValue_def readValue_def ColumnType_code_def ColumnType_cast_def
        value_stored_def fails_bind u64_codec.dec_cut string_codec.dec_cut dest!: tag)
qed

section \<open>Columns\<close>

definition writeColumn :: "column \<Rightarrow> byte list" where
  "writeColumn c =
     write_string (col_name c) @ [ColumnType_code (col_type c)] @ [if col_nullable c then 1 else 0]"

text \<open>The type byte is cast without a check.\<close>

definition readColumn :: "column reader" where
  "readColumn bs =
     ebind (read_string db_read_error bs) (\<lambda>(name, b1).
     ebind (read_u8 db_read_error b1) (\<lambda>(ty, b2).
     ebind (read_u8 db_read_error b2) (\<lambda>(nullable, b3).
       Inr (\<lparr>col_name = name, col_type = ColumnType_cast ty, col_nullable = nullable \<noteq> 0\<rparr>, b3))))"

definition column_stored :: "column \<Rightarrow> bool" where
  "column_stored c \<longleftrightarrow> length_ok (col_name c) \<and> ColumnType_valid (col_type c)"

interpretation column_codec: codec writeColumn readColumn column_stored
proof unfold_locales
  fix c :: column and rest bs
  assume ok: "column_stored c"
  then show "readColumn (writeColumn c @ rest) = Inr (c, rest)"
    by (simp add: readColumn_def writeColumn_def string_codec.dec_enc column_stored_def ColumnType_cast_code)
  assume "cut_of bs (writeColumn c)"
  then consider "cut_of bs (write_string (col_name c))"
    | b1 where "bs = write_string (col_name c) @ b1" "b1 = []"
    | t where "bs = write_string (col_name c) @ [t]"
    unfolding writeColumn_def cut_of_append by (auto simp: cut_of_def Cons_eq_append_conv)
  then show "fails (readColumn bs)"
  proof cases
    case 1
    with ok have "fails (read_string db_read_error bs)"
      using string_codec.dec_cut column_stored_def by blast
    then show ?thesis by (simp add: readColumn_def fails_bind)
  next
    case 2
    with ok show ?thesis
      using string_codec.dec_enc[where rest = "[]"]
      by (simp add: readColumn_def column_stored_def) (simp add: read_u8_def read_bytes_def)
  next
    case 3
    with ok show ?thesis
      by (simp add: readColumn_def column_stored_def string_codec.dec_enc) (simp add: read_u8_def read_bytes_def)
  qed
qed

section \<open>Tables and databases\<close>

definition writeIndex :: "string \<times> string \<Rightarrow> byte list" where
  "writeIndex = (\<lambda>(indexName, columnName). write_string indexName @ write_string columnName)"

definition writeTable :: "vtable \<Rightarrow> byte list" where
  "writeTable t =
     write_string (tb_name t)
     @ bytes64 (size64 (tb_schema t)) @ concat (map writeColumn (tb_schema t))
     @ bytes64 (size64 (Table_indexDefinitions t)) @ concat (map writeIndex (Table_indexDefinitions t))
     @ bytes64 (size64 (Table_rowsSnapshot t))
     @ concat (map (\<lambda>r. concat (map writeValue r)) (Table_rowsSnapshot t))"

definition writeDatabase :: "database \<Rightarrow> byte list" where
  "writeDatabase db =
     kMagic @ bytes32 kVersion @ write_string (db_name db)
     @ bytes64 (size64 (Database_tables db)) @ concat (map writeTable (Database_tables db))"

text \<open>\<open>emplace_back(readString(in), readString(in))\<close>.\<close>

definition readIndex :: "bool \<Rightarrow> (string \<times> string) reader" where
  "readIndex ltr bs =
     ebind (read_pair (read_string db_read_error) (read_string db_read_error) bs)
       (\<lambda>((a, b), rest). Inr (if ltr then (a, b) else (b, a), rest))"

text \<open>One round of the loop over the tables.\<close>

definition readTable :: "bool \<Rightarrow> database \<Rightarrow> database reader" where
  "readTable ltr db bs =
     ebind (read_string db_read_error bs) (\<lambda>(tableName, b1).
     ebind (read_u64 db_read_error b1) (\<lambda>(columnCount, b2).
     ebind (read_n (unat columnCount) readColumn b2) (\<lambda>(schema, b3).
     ebind (Database_createTable tableName schema db) (\<lambda>(created, db1).
       if \<not> created then Inl (RuntimeError ''duplicate table in database file'')
       else
         ebind (read_u64 db_read_error b3) (\<lambda>(indexCount, b4).
         ebind (read_n (unat indexCount) (readIndex ltr) b4) (\<lambda>(indexDefinitions, b5).
         ebind (read_u64 db_read_error b5) (\<lambda>(rowCount, b6).
         ebind (read_n (unat rowCount) (read_n (unat columnCount) readValue) b6) (\<lambda>(rows, b7).
         ebind (Table_replaceRows rows (the (Database_table tableName db1))) (\<lambda>t.
           Inr (Database_putTable tableName (create_indexes indexDefinitions t) db1, b7))))))))))"

fun readTables :: "bool \<Rightarrow> nat \<Rightarrow> database \<Rightarrow> database reader" where
  "readTables ltr 0 db bs = Inr (db, bs)"
| "readTables ltr (Suc n) db bs =
     ebind (readTable ltr db bs) (\<lambda>(db', rest). readTables ltr n db' rest)"

definition readDatabase :: "bool \<Rightarrow> byte list \<Rightarrow> database outcome" where
  "readDatabase ltr bs =
     ebind (read_bytes db_read_error (length kMagic) bs) (\<lambda>(magic, b1).
       if magic \<noteq> kMagic then Inl (RuntimeError ''invalid database file magic'')
       else
         ebind (read_u32 db_read_error b1) (\<lambda>(version, b2).
           if version \<noteq> kVersion then Inl (RuntimeError ''unsupported database file version'')
           else
             ebind (read_string db_read_error b2) (\<lambda>(name, b3).
             ebind (Database_new name) (\<lambda>db.
             ebind (read_u64 db_read_error b3) (\<lambda>(tableCount, b4).
             ebind (readTables ltr (unat tableCount) db b4) (\<lambda>(db', _). Inr db'))))))"

section \<open>The class\<close>

definition pathFor :: "string \<Rightarrow> string" where
  "pathFor databaseName = databaseName @ kExtension"

definition temporaryPathFor :: "string \<Rightarrow> string" where
  "temporaryPathFor databaseName = databaseName @ kExtension @ ''.tmp''"

text \<open>
  What the file system does to one save: whether the temporary file opens, how many bytes reach
  it if not all do and whether the stream notices that before its destructor drops the error, and
  whether the first rename, the removal of the target and the second rename succeed. A rename replaces the target atomically.
\<close>

record save_env =
  se_open_ok :: bool
  se_failure :: "(nat \<times> bool) option"
  se_rename_ok :: bool
  se_remove_ok :: bool
  se_retry_ok :: bool

definition disk_rename :: "string \<Rightarrow> string \<Rightarrow> disk \<Rightarrow> disk" where
  "disk_rename src dst d =
     (case disk_read src d of None \<Rightarrow> d | Some bs \<Rightarrow> disk_write dst bs (disk_remove src d))"

definition save_bytes :: "save_env \<Rightarrow> database \<Rightarrow> byte list" where
  "save_bytes env db =
     (case se_failure env of None \<Rightarrow> writeDatabase db | Some (k, _) \<Rightarrow> take k (writeDatabase db))"

definition save_noticed :: "save_env \<Rightarrow> bool" where
  "save_noticed env = (case se_failure env of None \<Rightarrow> False | Some (_, noticed) \<Rightarrow> noticed)"

definition StorageManager_saveDatabase :: "save_env \<Rightarrow> database \<Rightarrow> disk \<Rightarrow> disk \<times> unit outcome" where
  "StorageManager_saveDatabase env db d =
     (let d1 = disk_create_directories d; target = pathFor (db_name db); temp = temporaryPathFor (db_name db)
      in if \<not> se_open_ok env
         then (d1, Inl (RuntimeError ''failed to open temporary database file for writing''))
         else (let d2 = disk_write temp (save_bytes env db) d1
           in if save_noticed env then (d2, Inl (RuntimeError ''failed to write database file''))
              else if se_rename_ok env then (disk_rename temp target d2, Inr ())
              else (let d3 = (if se_remove_ok env then disk_remove target d2 else d2)
                    in if se_retry_ok env then (disk_rename temp target d3, Inr ())
                       else (disk_remove temp d3,
                             Inl (RuntimeError ''failed to publish database snapshot'')))))"

definition StorageManager_loadDatabase :: "bool \<Rightarrow> string \<Rightarrow> disk \<Rightarrow> database outcome" where
  "StorageManager_loadDatabase ltr databaseName d =
     (case disk_read (pathFor databaseName) d of
        None \<Rightarrow> Inl (RuntimeError ''failed to open database file for reading'')
      | Some bs \<Rightarrow> readDatabase ltr bs)"

text \<open>
  \<open>path::extension\<close> and \<open>path::stem\<close> of a file name: from the last dot, unless that is the first
  character.
\<close>

definition path_extension :: "string \<Rightarrow> string" where
  "path_extension name =
     (let suffix = takeWhile (\<lambda>c. c \<noteq> CHR ''.'') (rev name)
      in if length name \<le> length suffix + 1 then [] else CHR ''.'' # rev suffix)"

definition path_stem :: "string \<Rightarrow> string" where
  "path_stem name = take (length name - length (path_extension name)) name"

text \<open>The order of a directory iteration is unspecified: it is the parameter \<open>order\<close>.\<close>

definition StorageManager_loadFirstDatabase ::
  "bool \<Rightarrow> (string list \<Rightarrow> string list) \<Rightarrow> disk \<Rightarrow> database outcome" where
  "StorageManager_loadFirstDatabase ltr order d =
     (if \<not> dk_exists d then Inl (RuntimeError ''database storage directory does not exist'')
      else case List.find (\<lambda>f. path_extension f = kExtension) (order (map fst (dk_files d))) of
             None \<Rightarrow> Inl (RuntimeError ''no saved database files found'')
           | Some f \<Rightarrow> StorageManager_loadDatabase ltr (path_stem f) d)"

definition StorageManager_metadataExists :: "string \<Rightarrow> disk \<Rightarrow> bool" where
  "StorageManager_metadataExists databaseName d \<longleftrightarrow> disk_read (pathFor databaseName) d \<noteq> None"

section \<open>Reading a snapshot back\<close>

text \<open>Sizes that fit their 64-bit fields, and types with an enumerator.\<close>

definition table_stored :: "vtable \<Rightarrow> bool" where
  "table_stored t \<longleftrightarrow> length_ok (tb_name t) \<and> length_ok (tb_schema t) \<and>
     list_all column_stored (tb_schema t) \<and> length_ok (tb_indexColumns t) \<and>
     list_all (\<lambda>(n, _). length_ok n) (tb_indexColumns t) \<and>
     length_ok (Table_rowsSnapshot t) \<and> list_all (list_all value_stored) (Table_rowsSnapshot t)"

definition database_stored :: "database \<Rightarrow> bool" where
  "database_stored db \<longleftrightarrow> length_ok (db_name db) \<and> length_ok (db_tables db) \<and>
     list_all (\<lambda>(_, t). table_stored t) (db_tables db)"

lemma unat_size64_ok: "length_ok xs \<Longrightarrow> unat (size64 xs) = length xs"
  by (simp add: length_ok_def unat_size64)

lemmas string_pair = codec_pair[OF string_codec.codec_axioms string_codec.codec_axioms]

text \<open>An index definition as the reader sees it: with the arguments evaluated from the right, swapped.\<close>

definition seen_index :: "bool \<Rightarrow> string \<times> string \<Rightarrow> string \<times> string" where
  "seen_index ltr p = (if ltr then p else prod.swap p)"

lemma seen_index_simps [simp]: "seen_index True p = p" "seen_index ltr (seen_index ltr p) = p"
  by (simp_all add: seen_index_def)

definition index_stored :: "string \<times> string \<Rightarrow> bool" where
  "index_stored = (\<lambda>(a, b). length_ok a \<and> length_ok b)"

lemma index_stored_seen [simp]: "index_stored (seen_index ltr p) = index_stored p"
  by (cases p) (auto simp: index_stored_def seen_index_def)

interpretation index_codec: codec "\<lambda>p. writeIndex (seen_index ltr p)" "readIndex ltr" index_stored for ltr
proof unfold_locales
  fix x :: "string \<times> string" and rest bs
  let ?w = "seen_index ltr x"
  assume "index_stored x"
  then have "index_stored ?w" by simp
  then have ok: "case ?w of (a, b) \<Rightarrow> length_ok a \<and> length_ok b" by (simp only: index_stored_def)
  show "readIndex ltr (writeIndex ?w @ rest) = Inr (x, rest)"
    using codec.dec_enc[OF string_pair ok, of db_read_error db_read_error rest]
    by (cases x) (simp add: readIndex_def writeIndex_def seen_index_def split: if_splits)
  assume "cut_of bs (writeIndex ?w)"
  then have "fails (read_pair (read_string db_read_error) (read_string db_read_error) bs)"
    using codec.dec_cut[OF string_pair ok] by (cases ?w) (simp add: writeIndex_def)
  then show "fails (readIndex ltr bs)" by (simp add: readIndex_def fails_bind)
qed

text \<open>The definitions of a table, as they come back.\<close>

lemma index_definitions_codec:
  assumes "list_all index_stored defs"
  shows "read_n (length defs) (readIndex ltr) (concat (map writeIndex defs) @ rest) =
      Inr (map (seen_index ltr) defs, rest)"
    and "cut_of bs (concat (map writeIndex defs)) \<Longrightarrow> fails (read_n (length defs) (readIndex ltr) bs)"
  using index_codec.read_n_enc[of "map (seen_index ltr) defs" ltr rest]
    index_codec.read_n_cut[of "map (seen_index ltr) defs" bs ltr] assms
  by (simp_all add: list_all_length comp_def)

lemma stored_index_definitions:
  "Table_inv t \<Longrightarrow> table_stored t \<Longrightarrow>
   length_ok (Table_indexDefinitions t) \<and>
   list_all index_stored (Table_indexDefinitions t)"
proof -
  assume inv: "Table_inv t" and st: "table_stored t"
  have "length_ok n \<and> length_ok (col_name (tb_schema t ! c))" if "(n, c) \<in> set (tb_indexColumns t)" for n c
  proof -
    have "find_column (col_name (tb_schema t ! c)) (tb_schema t) = Some c"
      using inv that by (auto simp: Table_inv_def Table_indexed_def)
    then have "c < length (tb_schema t)" using find_column_Some by blast
    then have "column_stored (tb_schema t ! c)" using st by (simp add: table_stored_def list_all_length)
    moreover have "length_ok n" using st that by (auto simp: table_stored_def list_all_iff)
    ultimately show ?thesis by (simp add: column_stored_def)
  qed
  moreover have "length_ok (Table_indexDefinitions t)"
    using st by (simp add: table_stored_def Table_indexDefinitions_def length_ok_def)
  ultimately show ?thesis by (auto simp: Table_indexDefinitions_def list_all_iff index_stored_def)
qed

lemma stored_rows:
  assumes "Table_inv t" and "table_stored t"
  shows "list_all (\<lambda>r. length r = length (tb_schema t) \<and> list_all value_stored r) (Table_rowsSnapshot t)"
  using assms Table_inv_row_ok row_ok_length by (fastforce simp: table_stored_def list_all_iff)

lemma read_row_enc:
  "length r = n \<Longrightarrow> list_all value_stored r \<Longrightarrow>
   read_n n readValue (concat (map writeValue r) @ rest) = Inr (r, rest)"
  using value_codec.read_n_enc[of r rest] by simp

lemma read_rows_enc:
  "list_all (\<lambda>r. length r = n \<and> list_all value_stored r) rows \<Longrightarrow>
   read_n (length rows) (read_n n readValue)
     (concat (map (\<lambda>r. concat (map writeValue r)) rows) @ rest) = Inr (rows, rest)"
  by (induction rows) (auto simp: read_row_enc)

text \<open>
  What reading back gives for a table: its schema and rows, and its whole content when the
  definitions of its indexes come back as they were.
\<close>

definition restores :: "bool \<Rightarrow> vtable \<Rightarrow> vtable \<Rightarrow> bool" where
  "restores ltr t t' \<longleftrightarrow> Table_inv t' \<and> tb_name t' = tb_name t \<and> tb_schema t' = tb_schema t \<and>
     Table_rowsSnapshot t' = Table_rowsSnapshot t \<and>
     (ltr \<or> tb_indexColumns t = [] \<longrightarrow> Table_content t' = Table_content t)"

lemma readTable_writeTable:
  assumes inv: "Table_inv t" and st: "table_stored t" and name: "tb_name t = n"
    and db: "Database_inv db" "Database_table n db = None"
  shows "\<exists>t'. readTable ltr db (writeTable t @ rest) = Inr (Database_putTable n t' db, rest) \<and> restores ltr t t'"
proof -
  obtain db1 t1 where c: "Database_createTable n (tb_schema t) db = Inr (True, db1)"
    "Table_replaceRows (Table_rowsSnapshot t) (the (Database_table n db1)) = Inr t1"
    "\<forall>t. Database_putTable n t db1 = Database_putTable n t db"
    and t1: "Table_inv t1" "tb_name t1 = n" "tb_schema t1 = tb_schema t" "tb_indexColumns t1 = []"
    "Table_rowsSnapshot t1 = Table_rowsSnapshot t"
    using copyTable_spec[OF inv name db] by blast
  note idx = stored_index_definitions[OF inv st] and rows = stored_rows[OF inv st]
  let ?defs = "map (seen_index ltr) (Table_indexDefinitions t)"
  have sizes: "unat (size64 (tb_schema t)) = length (tb_schema t)"
    "unat (size64 (Table_indexDefinitions t)) = length (Table_indexDefinitions t)"
    "unat (size64 (Table_rowsSnapshot t)) = length (Table_rowsSnapshot t)"
    using st idx by (simp_all add: unat_size64_ok table_stored_def)
  have ok: "length_ok n" "list_all column_stored (tb_schema t)"
    using st name by (simp_all add: table_stored_def)
  have "readTable ltr db (writeTable t @ rest) = Inr (Database_putTable n (create_indexes ?defs t1) db, rest)"
    using idx
    by (simp add: readTable_def writeTable_def name string_codec.dec_enc ok u64_codec.dec_enc sizes
        column_codec.read_n_enc c index_definitions_codec(1) read_rows_enc[OF rows])
  moreover have "?defs = Table_indexDefinitions t" if "ltr \<or> tb_indexColumns t = []"
    using that by (auto simp: Table_indexDefinitions_def seen_index_def)
  then have "restores ltr t (create_indexes ?defs t1)"
    using create_indexes_keeps[OF t1(1), of ?defs] create_indexes_spec[OF inv t1(1,3,4)] t1 name
    by (auto simp: restores_def Table_content_def)
  ultimately show ?thesis by blast
qed

lemma readTables_writeTables:
  assumes "\<forall>(n, t) \<in> set ts. Table_inv t \<and> tb_name t = n \<and> table_stored t"
    and "sorted_wrt str_less (map fst ts)"
    and "Database_inv db" and "\<forall>n \<in> fst ` set (db_tables db). \<forall>m \<in> fst ` set ts. str_less n m"
  shows "\<exists>db' ts'. readTables ltr (length ts) db (concat (map writeTable (map snd ts)) @ rest) = Inr (db', rest) \<and>
    Database_inv db' \<and> db_name db' = db_name db \<and> db_tables db' = db_tables db @ ts' \<and>
    list_all2 (\<lambda>(n, t) (n', t'). n' = n \<and> restores ltr t t') ts ts'"
  using assms
proof (induction ts arbitrary: db)
  case Nil
  then show ?case by simp
next
  case (Cons e ts)
  obtain n t where e: "e = (n, t)" by (cases e)
  have t: "Table_inv t" "table_stored t" "tb_name t = n" using Cons.prems(1) e by auto
  have before: "\<forall>a \<in> fst ` set (db_tables db). str_less a n" using Cons.prems(4) e by auto
  have free: "Database_table n db = None"
    unfolding Database_table_def by (rule omap_find_end) (rule before)
  obtain t' where t': "readTable ltr db (writeTable t @ concat (map writeTable (map snd ts)) @ rest) =
      Inr (Database_putTable n t' db, concat (map writeTable (map snd ts)) @ rest)" "restores ltr t t'"
    using readTable_writeTable[OF t Cons.prems(3) free] by blast
  have "Table_inv t'" "tb_name t' = n" using t'(2) t(3) by (simp_all add: restores_def)
  then have inv': "Database_inv (Database_putTable n t' db)"
    using Database_putTable_inv[OF Cons.prems(3)] by blast
  have tabs: "db_tables (Database_putTable n t' db) = db_tables db @ [(n, t')]"
    "db_name (Database_putTable n t' db) = db_name db"
    using omap_alter_end[of "db_tables db" str_less n] before by (simp_all add: Database_putTable_def)
  have after: "\<forall>a \<in> fst ` set (db_tables (Database_putTable n t' db)). \<forall>m \<in> fst ` set ts. str_less a m"
    using Cons.prems(2,4) e by (auto simp: tabs)
  from Cons.IH[OF _ _ inv' after] Cons.prems(1,2) t' show ?case by (auto simp: e tabs)
qed

text \<open>Loading what was saved.\<close>

lemma readDatabase_writeDatabase:
  assumes inv: "Database_inv db" and st: "database_stored db"
  shows "\<exists>db'. readDatabase ltr (writeDatabase db) = Inr db' \<and> Database_inv db' \<and> db_name db' = db_name db \<and>
    list_all2 (\<lambda>(n, t) (n', t'). n' = n \<and> restores ltr t t') (db_tables db) (db_tables db')"
proof -
  have sizes: "unat (size64 (map snd (db_tables db))) = length (db_tables db)" "length_ok (db_name db)"
    using st by (simp_all add: database_stored_def unat_size64_ok length_ok_def)
  define copy where "copy = \<lparr>db_name = db_name db, db_tables = []\<rparr>"
  then have copy: "Database_new (db_name db) = Inr copy" "db_tables copy = []" "db_name copy = db_name db"
    using inv by (simp_all add: Database_new_def Database_inv_def)
  have tabs: "\<forall>(n, t) \<in> set (db_tables db). Table_inv t \<and> tb_name t = n \<and> table_stored t"
    "sorted_wrt str_less (map fst (db_tables db))"
    using inv st by (auto simp: Database_inv_def database_stored_def list_all_iff omap_wf_def)
  obtain db' ts' where db': "readTables ltr (length (db_tables db)) copy
      (concat (map writeTable (map snd (db_tables db))) @ []) = Inr (db', [])"
    "Database_inv db'" "db_name db' = db_name copy" "db_tables db' = db_tables copy @ ts'"
    "list_all2 (\<lambda>(n, t) (n', t'). n' = n \<and> restores ltr t t') (db_tables db) ts'"
    using readTables_writeTables[OF tabs Database_new_inv[OF copy(1)], of ltr "[]"] copy(2) by auto
  have magic: "read_bytes db_read_error (length kMagic) (kMagic @ xs) = Inr (kMagic, xs)" for xs
    by (simp add: read_bytes_def)
  have "readDatabase ltr (writeDatabase db) = Inr db'"
    using db'(1)
    by (simp add: readDatabase_def writeDatabase_def magic u32_codec.dec_enc string_codec.dec_enc
        sizes copy u64_codec.dec_enc Database_tables_def)
  with db' copy show ?thesis by auto
qed

text \<open>From the left, or without indexes, that is the content.\<close>

lemma restored_content:
  assumes "list_all2 (\<lambda>(n, t) (n', t'). n' = n \<and> restores ltr t t') (db_tables db) (db_tables db')"
    and "db_name db' = db_name db" and "ltr \<or> (\<forall>(n, t) \<in> set (db_tables db). tb_indexColumns t = [])"
  shows "Database_content db' = Database_content db"
proof -
  have "map (\<lambda>(n, t). (n, Table_content t)) us' = map (\<lambda>(n, t). (n, Table_content t)) us"
    if "list_all2 (\<lambda>(n, t) (n', t'). n' = n \<and> restores ltr t t') us us'"
      "ltr \<or> (\<forall>(n, t) \<in> set us. tb_indexColumns t = [])" for us us'
    using that by (induction rule: list_all2_induct) (auto simp: restores_def)
  from this[OF assms(1,3)] assms(2) show ?thesis by (simp add: Database_content_def)
qed

lemma readDatabase_content:
  assumes "Database_inv db" and "database_stored db"
  shows "\<exists>db'. readDatabase True (writeDatabase db) = Inr db' \<and> Database_inv db' \<and>
    Database_content db' = Database_content db"
  using readDatabase_writeDatabase[OF assms, of True] restored_content[of True] by blast

section \<open>Publishing a snapshot\<close>

lemma temp_not_target [simp]: "temporaryPathFor n \<noteq> pathFor n" "pathFor n \<noteq> temporaryPathFor n"
proof -
  have "length (temporaryPathFor n) \<noteq> length (pathFor n)" by (simp add: temporaryPathFor_def pathFor_def)
  then show "temporaryPathFor n \<noteq> pathFor n" "pathFor n \<noteq> temporaryPathFor n" by metis+
qed

lemma disk_read_rename:
  "disk_read src d = Some bs \<Longrightarrow> src \<noteq> dst \<Longrightarrow> dk_exists d \<Longrightarrow>
   disk_read f (disk_rename src dst d) =
     (if f = dst then Some bs else if f = src then None else disk_read f d)"
  by (simp add: disk_rename_def)

text \<open>
  A save that succeeds publishes what it wrote; one that fails leaves every other file, and, as
  long as the target was not removed for a retry, the old snapshot.
\<close>

lemma saveDatabase_success:
  assumes "StorageManager_saveDatabase env db d = (d', Inr u)"
  shows "disk_read (pathFor (db_name db)) d' = Some (save_bytes env db)"
    and "f \<noteq> pathFor (db_name db) \<Longrightarrow> f \<noteq> temporaryPathFor (db_name db) \<Longrightarrow>
      disk_read f d' = disk_read f (disk_create_directories d)"
  using assms
  by (auto simp: StorageManager_saveDatabase_def Let_def disk_read_rename split: if_splits option.splits)

lemma saveDatabase_failure:
  assumes "StorageManager_saveDatabase env db d = (d', Inl e)"
  shows "f \<noteq> temporaryPathFor (db_name db) \<Longrightarrow> f \<noteq> pathFor (db_name db) \<or> \<not> se_remove_ok env \<or> se_rename_ok env \<or>
      \<not> se_open_ok env \<or> save_noticed env \<Longrightarrow>
    disk_read f d' = disk_read f (disk_create_directories d)"
  using assms
  by (auto simp: StorageManager_saveDatabase_def Let_def split: if_splits option.splits)

lemma saveDatabase_ok_env:
  "StorageManager_saveDatabase \<lparr>se_open_ok = True, se_failure = None, se_rename_ok = True,
     se_remove_ok = True, se_retry_ok = True\<rparr> db d =
   (disk_rename (temporaryPathFor (db_name db)) (pathFor (db_name db))
      (disk_write (temporaryPathFor (db_name db)) (writeDatabase db) (disk_create_directories d)), Inr ())"
  by (simp add: StorageManager_saveDatabase_def save_bytes_def save_noticed_def Let_def)

lemma save_dk_log: "dk_log (fst (StorageManager_saveDatabase env db d)) = dk_log d"
  by (simp add: StorageManager_saveDatabase_def disk_rename_def Let_def split: option.split)

end
