(* ===== verification/Executor.thy ===== *)
theory Executor
  imports Planner ParserSound Wal StorageManager
begin

text \<open>
  \<open>execution/query_executor.hpp\<close> and \<open>execution/query_executor.cpp\<close>: one handler per kind of
  statement. A handler takes the executor to the executor and an outcome, so a handler that
  throws after it changed something shows the change. The tables and the log are changed
  through the operations of their classes, in the order of the code: a statement that inserts
  logs a row before it stores it, the others log after.
\<close>

section \<open>Parameters\<close>

text \<open>
  What the standard library leaves open: how \<open>std::ranges::sort\<close> orders equal rows, the order
  of a directory iteration, what the file system does to a save, and the order in which two
  arguments are evaluated (see \<open>StorageManager\<close>).
\<close>

record platform =
  pf_sort :: "(row \<Rightarrow> row \<Rightarrow> bool) \<Rightarrow> row list \<Rightarrow> row list"
  pf_order :: "string list \<Rightarrow> string list"
  pf_save :: save_env
  pf_ltr :: bool

text \<open>
  The documented contract of \<open>sort\<close>: for a strict weak order on the elements, a permutation in
  which no element comes after a greater one.
\<close>

definition sort_contract :: "((row \<Rightarrow> row \<Rightarrow> bool) \<Rightarrow> row list \<Rightarrow> row list) \<Rightarrow> bool" where
  "sort_contract srt \<longleftrightarrow>
     (\<forall>less rows. weak_order less (\<lambda>r. r \<in> set rows) \<longrightarrow>
        mset (srt less rows) = mset rows \<and> sorted_wrt (\<lambda>a b. \<not> less b a) (srt less rows))"

section \<open>State\<close>

record query_result =
  qr_success :: bool
  qr_message :: string
  qr_columns :: "string list"
  qr_rows :: "row list"

record executor =
  ex_database :: "database option"
  ex_snapshot :: "database option"
  ex_disk :: disk
  ex_wal :: wal
  ex_transactions :: transaction_manager
  ex_active :: "transaction_id option"
  ex_prepared :: "(string \<times> string) list"
  ex_replaying :: bool

type_synonym 'a action = "executor \<Rightarrow> executor \<times> 'a outcome"

definition act_bind :: "'a action \<Rightarrow> ('a \<Rightarrow> 'b action) \<Rightarrow> 'b action" where
  "act_bind m f s = (case m s of (s', Inl e) \<Rightarrow> (s', Inl e) | (s', Inr x) \<Rightarrow> f x s')"

definition messageResult :: "bool \<Rightarrow> string \<Rightarrow> query_result" where
  "messageResult success message =
     \<lparr>qr_success = success, qr_message = message, qr_columns = [], qr_rows = []\<rparr>"

definition reply :: "bool \<Rightarrow> string \<Rightarrow> query_result action" where
  "reply success message s = (s, Inr (messageResult success message))"

definition throw_error :: "string \<Rightarrow> 'a action" where
  "throw_error message s = (s, Inl (RuntimeError message))"

definition appendWal :: "wal_operation \<Rightarrow> string \<Rightarrow> unit action" where
  "appendWal op payload s =
     (if ex_replaying s then (s, Inr ())
      else case WriteAheadLog_append op payload (ex_wal s) (ex_disk s) of
             ((w, d), Inl e) \<Rightarrow> (s\<lparr>ex_wal := w, ex_disk := d\<rparr>, Inl e)
           | ((w, d), Inr _) \<Rightarrow> (s\<lparr>ex_wal := w, ex_disk := d\<rparr>, Inr ()))"

text \<open>\<open>if (changed) { appendWal(op, payload); }\<close>\<close>

definition append_if :: "bool \<Rightarrow> wal_operation \<Rightarrow> string \<Rightarrow> unit action" where
  "append_if changed op payload s = (if changed then appendWal op payload s else (s, Inr ()))"

text \<open>\<open>if (!database_) return messageResult(false, "no active database");\<close>\<close>

definition with_database :: "(database \<Rightarrow> query_result action) \<Rightarrow> query_result action" where
  "with_database f s =
     (case ex_database s of None \<Rightarrow> reply False ''no active database'' s | Some db \<Rightarrow> f db s)"

definition requireTable :: "string \<Rightarrow> executor \<Rightarrow> vtable outcome" where
  "requireTable tableName s =
     (case ex_database s of
        None \<Rightarrow> Inl (RuntimeError ''no active database'')
      | Some db \<Rightarrow>
          (case Database_table tableName db of
             None \<Rightarrow> Inl (RuntimeError ''unknown table'')
           | Some t \<Rightarrow> Inr t))"

text \<open>The table of that name, changed in place.\<close>

definition put_table :: "string \<Rightarrow> vtable \<Rightarrow> executor \<Rightarrow> executor" where
  "put_table name t s = s\<lparr>ex_database := map_option (Database_putTable name t) (ex_database s)\<rparr>"

section \<open>Data definition\<close>

definition executeCreateDatabase :: "string \<Rightarrow> query_result action" where
  "executeCreateDatabase name =
     act_bind (appendWal WalCreateDatabase name) (\<lambda>_ s.
       case Database_new name of
         Inl e \<Rightarrow> (s, Inl e)
       | Inr db \<Rightarrow> reply True (''created database '' @ name) (s\<lparr>ex_database := Some db\<rparr>))"

definition executeCreateTable :: "string \<Rightarrow> column list \<Rightarrow> query_result action" where
  "executeCreateTable name columns = with_database (\<lambda>db s.
     case Database_createTable name columns db of
       Inl e \<Rightarrow> (s, Inl e)
     | Inr (created, db') \<Rightarrow>
         act_bind (append_if created WalCreateTable (createTableSql name columns))
           (\<lambda>_. reply created (if created then ''created table '' @ name else ''table already exists''))
           (s\<lparr>ex_database := Some db'\<rparr>))"

definition executeDropTable :: "string \<Rightarrow> query_result action" where
  "executeDropTable name = with_database (\<lambda>db s.
     case Database_dropTable name db of
       (dropped, db') \<Rightarrow>
         act_bind (append_if dropped WalDropTable (dropTableSql name))
           (\<lambda>_. reply dropped (if dropped then ''dropped table '' @ name else ''unknown table''))
           (s\<lparr>ex_database := Some db'\<rparr>))"

definition executeRenameTable :: "string \<Rightarrow> string \<Rightarrow> query_result action" where
  "executeRenameTable oldName newName = with_database (\<lambda>db s.
     case Database_renameTable oldName newName db of
       (db', Inl e) \<Rightarrow> (s\<lparr>ex_database := Some db'\<rparr>, Inl e)
     | (db', Inr renamed) \<Rightarrow>
         act_bind (append_if renamed WalRenameTable (renameTableSql oldName newName))
           (\<lambda>_. reply renamed (if renamed then ''renamed table '' @ oldName else ''rename failed''))
           (s\<lparr>ex_database := Some db'\<rparr>))"

definition executeListTables :: "executor \<Rightarrow> query_result" where
  "executeListTables s =
     (case ex_database s of
        None \<Rightarrow> messageResult False ''no active database''
      | Some db \<Rightarrow>
          \<lparr>qr_success = True, qr_message = ''listed tables'', qr_columns = [''table''],
           qr_rows = map (\<lambda>name. [VString name]) (Database_listTables db)\<rparr>)"

definition executeCreateIndex :: "string \<Rightarrow> string \<Rightarrow> string \<Rightarrow> query_result action" where
  "executeCreateIndex name table column s =
     (case requireTable table s of
        Inl e \<Rightarrow> (s, Inl e)
      | Inr t \<Rightarrow>
          (case Table_createIndex name column t of
             (created, t') \<Rightarrow>
               act_bind (append_if created WalCreateIndex (createIndexSql name table column))
                 (\<lambda>_. reply created
                   (if created then ''created index '' @ name else ''index creation failed''))
                 (put_table table t' s)))"

section \<open>Predicates\<close>

text \<open>\<open>matches\<close>: \<open>&&\<close> and \<open>||\<close> do not evaluate the right side when the left decides.\<close>

fun matches :: "row \<Rightarrow> vtable \<Rightarrow> predicate \<Rightarrow> bool outcome" where
  "matches r t (PAnd p q) = ebind (matches r t p) (\<lambda>b. if b then matches r t q else Inr False)"
| "matches r t (POr p q) = ebind (matches r t p) (\<lambda>b. if b then Inr True else matches r t q)"
| "matches r t (Comparison column op v) =
     (case Table_columnIndex column t of
        None \<Rightarrow> Inl (RuntimeError ''unknown predicate column'')
      | Some i \<Rightarrow> Inr (compare_values (r ! i) op v))"

definition selected :: "predicate option \<Rightarrow> vtable \<Rightarrow> row \<Rightarrow> bool outcome" where
  "selected cond t r = (case cond of None \<Rightarrow> Inr True | Some p \<Rightarrow> matches r t p)"

section \<open>Changing rows\<close>

definition nat_text :: "nat \<Rightarrow> string" where
  "nat_text n = show_nat n"

text \<open>The second loop of \<open>executeInsert\<close>: log the row, then store it.\<close>

fun insert_loop :: "string \<Rightarrow> row list \<Rightarrow> unit action" where
  "insert_loop table [] s = (s, Inr ())"
| "insert_loop table (r # rows) s =
     act_bind (appendWal WalInsert (insertSql table r)) (\<lambda>_ s1.
       case ebind (requireTable table s1) (Table_insert r) of
         Inl e \<Rightarrow> (s1, Inl e)
       | Inr (_, t') \<Rightarrow> insert_loop table rows (put_table table t' s1)) s"

definition executeInsert :: "string \<Rightarrow> row list \<Rightarrow> query_result action" where
  "executeInsert table rows s =
     (case ebind (requireTable table s) (\<lambda>t. efold (\<lambda>r _. Table_validateRow r t) rows ()) of
        Inl e \<Rightarrow> (s, Inl e)
      | Inr _ \<Rightarrow>
          act_bind (insert_loop table rows)
            (\<lambda>_. reply True (''inserted '' @ nat_text (length rows) @ '' row(s)'')) s)"

text \<open>
  The loops of \<open>executeUpdate\<close> and \<open>executeDelete\<close>: over the row ids, testing the row of the
  snapshot and changing the row of the table; they return the table even when they throw.
\<close>

fun update_loop ::
  "predicate option \<Rightarrow> nat \<Rightarrow> sql_value \<Rightarrow> row list \<Rightarrow> row_id list \<Rightarrow> nat \<Rightarrow> vtable \<Rightarrow>
   vtable \<times> nat outcome" where
  "update_loop cond target v snapshot [] changed t = (t, Inr changed)"
| "update_loop cond target v snapshot (rowId # ids) changed t =
     (case selected cond t (snapshot ! rowId) of
        Inl e \<Rightarrow> (t, Inl e)
      | Inr False \<Rightarrow> update_loop cond target v snapshot ids changed t
      | Inr True \<Rightarrow>
          (case Table_update rowId target v t of
             Inl e \<Rightarrow> (t, Inl e)
           | Inr (b, t') \<Rightarrow> update_loop cond target v snapshot ids (if b then changed + 1 else changed) t'))"

fun delete_loop ::
  "predicate option \<Rightarrow> row list \<Rightarrow> row_id list \<Rightarrow> nat \<Rightarrow> vtable \<Rightarrow> vtable \<times> nat outcome" where
  "delete_loop cond snapshot [] changed t = (t, Inr changed)"
| "delete_loop cond snapshot (rowId # ids) changed t =
     (case selected cond t (snapshot ! rowId) of
        Inl e \<Rightarrow> (t, Inl e)
      | Inr False \<Rightarrow> delete_loop cond snapshot ids changed t
      | Inr True \<Rightarrow>
          (case Table_erase rowId t of
             Inl e \<Rightarrow> (t, Inl e)
           | Inr (b, t') \<Rightarrow> delete_loop cond snapshot ids (if b then changed + 1 else changed) t'))"

text \<open>What both do with the outcome: store the table, log when a row changed, and reply.\<close>

definition finish_change ::
  "string \<Rightarrow> wal_operation \<Rightarrow> string \<Rightarrow> string \<Rightarrow> vtable \<times> nat outcome \<Rightarrow> query_result action" where
  "finish_change table op sql verb result s =
     (case result of
        (t', Inl e) \<Rightarrow> (put_table table t' s, Inl e)
      | (t', Inr changed) \<Rightarrow>
          act_bind (append_if (changed \<noteq> 0) op sql)
            (\<lambda>_. reply True (verb @ nat_text changed @ '' row(s)'')) (put_table table t' s))"

definition executeUpdate :: "update_query \<Rightarrow> query_result action" where
  "executeUpdate command s =
     (case requireTable (upd_table command) s of
        Inl e \<Rightarrow> (s, Inl e)
      | Inr t \<Rightarrow>
          (case Table_columnIndex (upd_column command) t of
             None \<Rightarrow> throw_error ''unknown update column'' s
           | Some target \<Rightarrow>
               (let snapshot = Table_rowsSnapshot t
                in finish_change (upd_table command) WalUpdate (updateSql command) ''updated ''
                     (update_loop (upd_where command) target (upd_value command) snapshot
                        [0..<length snapshot] 0 t) s)))"

definition executeDelete :: "string \<Rightarrow> predicate option \<Rightarrow> query_result action" where
  "executeDelete table cond s =
     (case requireTable table s of
        Inl e \<Rightarrow> (s, Inl e)
      | Inr t \<Rightarrow>
          (let snapshot = Table_rowsSnapshot t
           in finish_change table WalDelete (deleteSql table cond) ''deleted ''
                (delete_loop cond snapshot (rev [0..<length snapshot]) 0 t) s))"

section \<open>SELECT\<close>

text \<open>Inside a transaction, reads go through the version store with the largest id.\<close>

definition readVersion :: "executor \<Rightarrow> transaction_id option" where
  "readVersion s = (case ex_active s of None \<Rightarrow> None | Some _ \<Rightarrow> Some (- 1))"

definition rowsSnapshotForRead :: "executor \<Rightarrow> vtable \<Rightarrow> row list" where
  "rowsSnapshotForRead s t =
     (case readVersion s of None \<Rightarrow> Table_rowsSnapshot t | Some v \<Rightarrow> Table_rowsSnapshotAt v t)"

definition rowsByIdForRead :: "executor \<Rightarrow> vtable \<Rightarrow> row_id list \<Rightarrow> row list" where
  "rowsByIdForRead s t rowIds =
     (case readVersion s of None \<Rightarrow> Table_rowsById rowIds t | Some v \<Rightarrow> Table_rowsByIdAt rowIds v t)"

definition resolveProjection :: "select_query \<Rightarrow> vtable \<Rightarrow> (nat list \<times> string list) outcome" where
  "resolveProjection command t =
     (if sel_columns command = [''*'']
      then Inr ([0..<length (tb_schema t)], map col_name (tb_schema t))
      else ebind (emap (\<lambda>column. case Table_columnIndex column t of
               None \<Rightarrow> Inl (RuntimeError ''unknown selected column'') | Some i \<Rightarrow> Inr i)
             (sel_columns command)) (\<lambda>projection. Inr (projection, sel_columns command)))"

text \<open>The scan of \<open>collectRows\<close>, taken when no index applies or its lookup has no index.\<close>

definition scan_rows :: "executor \<Rightarrow> select_query \<Rightarrow> vtable \<Rightarrow> row list outcome" where
  "scan_rows s command t = efilter (selected (sel_where command) t) (rowsSnapshotForRead s t)"

definition collectRows :: "executor \<Rightarrow> select_query \<Rightarrow> vtable \<Rightarrow> row list outcome" where
  "collectRows s command t =
     (let path = qp_accessPath (planSelect command t)
      in case simpleComparison (sel_where command) of
           None \<Rightarrow> scan_rows s command t
         | Some (column, op, v) \<Rightarrow>
             ebind (if path = HashIndexLookup then Table_indexedLookup column v t
                    else if path = OrderedIndexRange then Table_orderedLookup column op v t
                    else Inr None) (\<lambda>rowIds.
               case rowIds of
                 None \<Rightarrow> scan_rows s command t
               | Some ids \<Rightarrow> Inr (rowsByIdForRead s t ids)))"

definition order_less :: "nat \<Rightarrow> bool \<Rightarrow> row \<Rightarrow> row \<Rightarrow> bool" where
  "order_less i ascending l r =
     (if ascending then Value_less (l ! i) (r ! i) else Value_less (r ! i) (l ! i))"

text \<open>The output loop: push the projected row, then stop when the limit is reached.\<close>

fun output_loop :: "nat list \<Rightarrow> 64 word option \<Rightarrow> row list \<Rightarrow> row list \<Rightarrow> row list" where
  "output_loop projection limit [] out = out"
| "output_loop projection limit (r # rows) out =
     (let out' = out @ [map (\<lambda>i. r ! i) projection]
      in case limit of
           Some n \<Rightarrow> if unat n \<le> length out' then out' else output_loop projection limit rows out'
         | None \<Rightarrow> output_loop projection limit rows out')"

definition select_result :: "nat list \<Rightarrow> string list \<Rightarrow> 64 word option \<Rightarrow> row list \<Rightarrow> query_result" where
  "select_result projection columns limit rows =
     \<lparr>qr_success = True, qr_message = ''selected rows'', qr_columns = columns,
      qr_rows = output_loop projection limit rows []\<rparr>"

definition sort_rows ::
  "platform \<Rightarrow> order_by option \<Rightarrow> (string \<Rightarrow> nat option outcome) \<Rightarrow> row list \<Rightarrow> row list outcome" where
  "sort_rows pf orderBy resolve rows =
     (case orderBy of
        None \<Rightarrow> Inr rows
      | Some ob \<Rightarrow>
          ebind (resolve (ob_column ob)) (\<lambda>index.
            case index of
              None \<Rightarrow> Inl (RuntimeError ''unknown ORDER BY column'')
            | Some i \<Rightarrow> Inr (pf_sort pf (order_less i (ob_ascending ob)) rows)))"

subsection \<open>Joins\<close>

text \<open>A name of the joined columns: exact, or else the only one with it after a dot.\<close>

definition resolveResultColumn :: "string list \<Rightarrow> string \<Rightarrow> nat option outcome" where
  "resolveResultColumn columns requested =
     (case positions (\<lambda>c. c = requested) columns of
        i # _ \<Rightarrow> Inr (Some i)
      | [] \<Rightarrow>
          (case positions (\<lambda>c. str_ends_with c (''.'' @ requested)) columns of
             [] \<Rightarrow> Inr None
           | [i] \<Rightarrow> Inr (Some i)
           | _ \<Rightarrow> Inl (RuntimeError ''ambiguous column reference'')))"

definition resolveTableColumn :: "vtable \<Rightarrow> string \<Rightarrow> string \<Rightarrow> nat option" where
  "resolveTableColumn t tableName requested =
     (let qualifier = tableName @ ''.''
      in Table_columnIndex (if str_starts_with requested qualifier
           then drop (length qualifier) requested else requested) t)"

fun joined_matches :: "string list \<Rightarrow> row \<Rightarrow> predicate \<Rightarrow> bool outcome" where
  "joined_matches columns r (PAnd p q) =
     ebind (joined_matches columns r p) (\<lambda>b. if b then joined_matches columns r q else Inr False)"
| "joined_matches columns r (POr p q) =
     ebind (joined_matches columns r p) (\<lambda>b. if b then Inr True else joined_matches columns r q)"
| "joined_matches columns r (Comparison column op v) =
     ebind (resolveResultColumn columns column) (\<lambda>index.
       case index of
         None \<Rightarrow> Inl (RuntimeError ''unknown predicate column'')
       | Some i \<Rightarrow> Inr (compare_values (r ! i) op v))"

text \<open>\<open>rightRowsByKey\<close>: the right rows by join key, in an ordered map.\<close>

definition rows_by_key :: "nat \<Rightarrow> row list \<Rightarrow> (sql_value \<times> row list) list" where
  "rows_by_key c rows =
     fold (\<lambda>r. omap_alter Value_less (r ! c) (\<lambda>old. (case old of None \<Rightarrow> [] | Some rs \<Rightarrow> rs) @ [r])) rows []"

definition join_rows ::
  "string list \<Rightarrow> predicate option \<Rightarrow> nat \<Rightarrow> nat \<Rightarrow> row list \<Rightarrow> row list \<Rightarrow> row list outcome" where
  "join_rows columns cond lc rc leftRows rightRows =
     (let byKey = rows_by_key rc rightRows
      in ebind (emap (\<lambda>l.
           case omap_find Value_less (l ! lc) byKey of
             None \<Rightarrow> Inr []
           | Some rs \<Rightarrow>
               efilter (\<lambda>j. case cond of None \<Rightarrow> Inr True | Some p \<Rightarrow> joined_matches columns j p)
                 (map (\<lambda>r. l @ r) rs)) leftRows) (\<lambda>parts. Inr (concat parts)))"

definition joined_columns :: "string \<Rightarrow> vtable \<Rightarrow> string \<Rightarrow> vtable \<Rightarrow> string list" where
  "joined_columns l lt r rt =
     map (\<lambda>c. l @ ''.'' @ col_name c) (tb_schema lt) @ map (\<lambda>c. r @ ''.'' @ col_name c) (tb_schema rt)"

definition join_projection :: "string list \<Rightarrow> string list \<Rightarrow> (nat list \<times> string list) outcome" where
  "join_projection columns requested =
     (if requested = [''*''] then Inr ([0..<length columns], columns)
      else ebind (emap (\<lambda>column. ebind (resolveResultColumn columns column) (\<lambda>index.
               case index of
                 None \<Rightarrow> Inl (RuntimeError ''unknown selected column'') | Some i \<Rightarrow> Inr i)) requested)
             (\<lambda>projection. Inr (projection, map (\<lambda>i. columns ! i) projection)))"

definition executeJoinSelect :: "platform \<Rightarrow> select_query \<Rightarrow> join_clause \<Rightarrow> executor \<Rightarrow> query_result outcome" where
  "executeJoinSelect pf command join s =
     ebind (requireTable (sel_table command) s) (\<lambda>leftTable.
     ebind (requireTable (jc_table join) s) (\<lambda>rightTable.
       case (resolveTableColumn leftTable (sel_table command) (jc_leftColumn join),
             resolveTableColumn rightTable (jc_table join) (jc_rightColumn join)) of
         (Some lc, Some rc) \<Rightarrow>
           (let columns = joined_columns (sel_table command) leftTable (jc_table join) rightTable
            in ebind (join_projection columns (sel_columns command)) (\<lambda>(projection, projectedColumns).
               ebind (join_rows columns (sel_where command) lc rc
                       (rowsSnapshotForRead s leftTable) (rowsSnapshotForRead s rightTable)) (\<lambda>joinedRows.
               ebind (sort_rows pf (sel_orderBy command) (resolveResultColumn columns) joinedRows) (\<lambda>ordered.
                 Inr (select_result projection projectedColumns (sel_limit command) ordered)))))
       | _ \<Rightarrow> Inl (RuntimeError ''unknown join column'')))"

definition executeSelect :: "platform \<Rightarrow> select_query \<Rightarrow> executor \<Rightarrow> query_result outcome" where
  "executeSelect pf command s =
     (case sel_join command of
        Some join \<Rightarrow> executeJoinSelect pf command join s
      | None \<Rightarrow>
          ebind (requireTable (sel_table command) s) (\<lambda>t.
          ebind (resolveProjection command t) (\<lambda>(projection, columns).
          ebind (collectRows s command t) (\<lambda>rows.
          ebind (sort_rows pf (sel_orderBy command) (\<lambda>c. Inr (Table_columnIndex c t)) rows) (\<lambda>ordered.
            Inr (select_result projection columns (sel_limit command) ordered))))))"

section \<open>Persistence and transactions\<close>

definition executeSaveDatabase :: "platform \<Rightarrow> query_result action" where
  "executeSaveDatabase pf = with_database (\<lambda>db.
     act_bind (appendWal WalSaveDatabase (db_name db)) (\<lambda>_ s.
       case StorageManager_saveDatabase (pf_save pf) db (ex_disk s) of
         (d, Inl e) \<Rightarrow> (s\<lparr>ex_disk := d\<rparr>, Inl e)
       | (d, Inr _) \<Rightarrow>
           (case WriteAheadLog_reset (ex_wal s) d of
              (w, d') \<Rightarrow> reply True (''saved database '' @ db_name db) (s\<lparr>ex_wal := w, ex_disk := d'\<rparr>))))"

definition executeLoadDatabase :: "platform \<Rightarrow> string option \<Rightarrow> query_result action" where
  "executeLoadDatabase pf name s =
     (case (case name of
              Some n \<Rightarrow> StorageManager_loadDatabase (pf_ltr pf) n (ex_disk s)
            | None \<Rightarrow>
                (case ex_database s of
                   Some db \<Rightarrow> StorageManager_loadDatabase (pf_ltr pf) (db_name db) (ex_disk s)
                 | None \<Rightarrow> StorageManager_loadFirstDatabase (pf_ltr pf) (pf_order pf) (ex_disk s))) of
        Inl e \<Rightarrow> (s, Inl e)
      | Inr db \<Rightarrow>
          reply True (''loaded database '' @ db_name db)
            (s\<lparr>ex_database := Some db, ex_snapshot := None\<rparr>))"

definition executeBegin :: "query_result action" where
  "executeBegin = with_database (\<lambda>db s.
     if ex_snapshot s \<noteq> None then reply False ''transaction already active'' s
     else
       (let (t, tm) = TransactionManager_begin (ex_transactions s);
            s1 = s\<lparr>ex_transactions := tm, ex_active := Some (tx_id t)\<rparr>
        in case Database_clone db of
             Inl e \<Rightarrow> (s1, Inl e)
           | Inr copy \<Rightarrow> reply True ''began transaction'' (s1\<lparr>ex_snapshot := Some copy\<rparr>)))"

definition executeCommit :: "query_result action" where
  "executeCommit s =
     (if ex_snapshot s = None then reply False ''no active transaction'' s
      else case ex_active s of
             None \<Rightarrow> reply False ''transaction state is inconsistent'' s
           | Some i \<Rightarrow>
               (case TransactionManager_commit i (ex_transactions s) of
                  Inl e \<Rightarrow> (s, Inl e)
                | Inr tm \<Rightarrow> reply True ''committed transaction''
                    (s\<lparr>ex_transactions := tm, ex_active := None, ex_snapshot := None\<rparr>)))"

definition executeRollback :: "query_result action" where
  "executeRollback s =
     (case ex_snapshot s of
        None \<Rightarrow> reply False ''no active transaction'' s
      | Some copy \<Rightarrow>
          (case ex_active s of
             None \<Rightarrow> reply False ''transaction state is inconsistent'' s
           | Some i \<Rightarrow>
               (case TransactionManager_rollback i (ex_transactions s) of
                  Inl e \<Rightarrow> (s, Inl e)
                | Inr tm \<Rightarrow> reply True ''rolled back transaction''
                    (s\<lparr>ex_transactions := tm, ex_active := None, ex_database := Some copy,
                       ex_snapshot := None\<rparr>))))"

section \<open>Prepared statements\<close>

definition executePrepare :: "string \<Rightarrow> string \<Rightarrow> query_result action" where
  "executePrepare name sql s =
     reply True (''prepared statement '' @ name)
       (s\<lparr>ex_prepared := umap_alter (=) name (\<lambda>_. sql) (ex_prepared s)\<rparr>)"

text \<open>The loop that puts literals for the question marks, and the check after it.\<close>

fun bind_text :: "string \<Rightarrow> sql_value list \<Rightarrow> string outcome" where
  "bind_text [] vs =
     (if vs \<noteq> [] then Inl (RuntimeError ''too many prepared statement parameters'') else Inr [])"
| "bind_text (c # cs) vs =
     (if c \<noteq> CHR ''?'' then ebind (bind_text cs vs) (\<lambda>s. Inr (c # s))
      else case vs of
             [] \<Rightarrow> Inl (RuntimeError ''not enough prepared statement parameters'')
           | v # vs' \<Rightarrow> ebind (bind_text cs vs') (\<lambda>s. Inr (sqlLiteral v @ s)))"

definition bindPreparedSql :: "string \<Rightarrow> sql_value list \<Rightarrow> executor \<Rightarrow> string outcome" where
  "bindPreparedSql name parameters s =
     (case umap_find (=) name (ex_prepared s) of
        None \<Rightarrow> Inl (RuntimeError ''unknown prepared statement'')
      | Some sql \<Rightarrow> bind_text sql parameters)"

declare act_bind_def [handlers] with_database_def [handlers] throw_error_def [handlers]
  finish_change_def [handlers] executeCreateDatabase_def [handlers] executeCreateTable_def [handlers]
  executeDropTable_def [handlers] executeRenameTable_def [handlers] executeListTables_def [handlers]
  executeCreateIndex_def [handlers] executeInsert_def [handlers] executeUpdate_def [handlers]
  executeDelete_def [handlers] executeSaveDatabase_def [handlers] executeLoadDatabase_def [handlers]
  executeBegin_def [handlers] executeCommit_def [handlers] executeRollback_def [handlers]
  executePrepare_def [handlers]

section \<open>Dispatch\<close>

fun executeUnlocked :: "platform \<Rightarrow> query \<Rightarrow> query_result action" where
  "executeUnlocked pf (CreateDatabase name) s = executeCreateDatabase name s"
| "executeUnlocked pf (CreateTable name columns) s = executeCreateTable name columns s"
| "executeUnlocked pf (DropTable name) s = executeDropTable name s"
| "executeUnlocked pf (RenameTable oldName newName) s = executeRenameTable oldName newName s"
| "executeUnlocked pf ListTables s = (s, Inr (executeListTables s))"
| "executeUnlocked pf (Insert table rows) s = executeInsert table rows s"
| "executeUnlocked pf (Select command) s = (s, executeSelect pf command s)"
| "executeUnlocked pf (Update command) s = executeUpdate command s"
| "executeUnlocked pf (Delete table cond) s = executeDelete table cond s"
| "executeUnlocked pf (CreateIndex name table column) s = executeCreateIndex name table column s"
| "executeUnlocked pf SaveDatabase s = executeSaveDatabase pf s"
| "executeUnlocked pf (LoadDatabase name) s = executeLoadDatabase pf name s"
| "executeUnlocked pf BeginTransaction s = executeBegin s"
| "executeUnlocked pf CommitTransaction s = executeCommit s"
| "executeUnlocked pf RollbackTransaction s = executeRollback s"
| "executeUnlocked pf (PrepareStatement name sql) s = executePrepare name sql s"
| "executeUnlocked pf (ExecutePrepared name parameters) s =
     throw_error ''prepared execution must not be dispatched while locked'' s"
| "executeUnlocked pf Exit s = reply True ''exit'' s"

text \<open>
  \<open>execute\<close>: EXECUTE binds, parses and executes the text, which may be another EXECUTE. The
  value \<open>None\<close> is a call that does not return.
\<close>

partial_function (option) execute ::
  "platform \<Rightarrow> query \<Rightarrow> executor \<Rightarrow> (executor \<times> query_result outcome) option" where
  "execute pf q s =
     (case q of
        ExecutePrepared name parameters \<Rightarrow>
          (case ebind (bindPreparedSql name parameters s) Parser_parse of
             Inl e \<Rightarrow> Some (s, Inl e)
           | Inr q' \<Rightarrow> execute pf q' s)
      | _ \<Rightarrow> Some (executeUnlocked pf q s))"

section \<open>Recovery\<close>

text \<open>The loop over the records; an exception ends it.\<close>

fun replay :: "platform \<Rightarrow> wal_record list \<Rightarrow> unit action" where
  "replay pf [] s = (s, Inr ())"
| "replay pf (r # rs) s =
     (if wr_operation r = WalSaveDatabase then replay pf rs s
      else if wr_operation r = WalCreateDatabase \<and> CHR '' '' \<notin> set (wr_payload r) then
        (case Database_new (wr_payload r) of
           Inl e \<Rightarrow> (s, Inl e)
         | Inr db \<Rightarrow> replay pf rs (s\<lparr>ex_database := Some db\<rparr>))
      else
        (case Parser_parse (wr_payload r) of
           Inl e \<Rightarrow> (s, Inl e)
         | Inr q \<Rightarrow> act_bind (executeUnlocked pf q) (\<lambda>_. replay pf rs) s))"

text \<open>The records after the last save marker, when a snapshot was loaded.\<close>

definition records_to_replay :: "bool \<Rightarrow> wal_record list \<Rightarrow> wal_record list" where
  "records_to_replay loadedSnapshot records =
     (if loadedSnapshot
      then drop (fold (\<lambda>i start. if wr_operation (records ! i) = WalSaveDatabase then i + 1 else start)
                   [0..<length records] 0) records
      else records)"

definition recoverFromWal :: "platform \<Rightarrow> bool \<Rightarrow> executor \<Rightarrow> executor" where
  "recoverFromWal pf loadedSnapshot s =
     (case WriteAheadLog_readAll (ex_disk s) of
        Inl _ \<Rightarrow> s
      | Inr records \<Rightarrow>
          if records = [] then s
          else
            (case replay pf (records_to_replay loadedSnapshot records) (s\<lparr>ex_replaying := True\<rparr>) of
               (s', Inl _) \<Rightarrow> s'\<lparr>ex_database := None, ex_replaying := False\<rparr>
             | (s', Inr _) \<Rightarrow> s'\<lparr>ex_replaying := False\<rparr>))"

definition recoverFromStorage :: "platform \<Rightarrow> executor \<Rightarrow> executor" where
  "recoverFromStorage pf s =
     (case StorageManager_loadFirstDatabase (pf_ltr pf) (pf_order pf) (ex_disk s) of
        Inl _ \<Rightarrow> recoverFromWal pf False (s\<lparr>ex_database := None\<rparr>)
      | Inr db \<Rightarrow> recoverFromWal pf True (s\<lparr>ex_database := Some db\<rparr>))"

definition QueryExecutor_new :: "platform \<Rightarrow> disk \<Rightarrow> executor" where
  "QueryExecutor_new pf d =
     recoverFromStorage pf
       \<lparr>ex_database = None, ex_snapshot = None, ex_disk = d, ex_wal = WriteAheadLog_new,
        ex_transactions = TransactionManager_new, ex_active = None, ex_prepared = [],
        ex_replaying = False\<rparr>"

end
