(* ===== verification/Queries.thy ===== *)
theory Queries
  imports Executor
begin

text \<open>
  What SELECT returns. The condition of a statement is a predicate on rows (\<open>cond_holds\<close>)
  whenever its columns are known; \<open>collectRows_scan\<close> says that the rows found through an index
  are those a scan finds, \<open>join_rows_nested\<close> that the join over a map of the right rows is the
  nested loop, \<open>output_loop_take\<close> which rows a limit lets through.
\<close>

section \<open>Conditions\<close>

fun pred_columns :: "predicate \<Rightarrow> string set" where
  "pred_columns (Comparison column op v) = {column}"
| "pred_columns (PAnd p q) = pred_columns p \<union> pred_columns q"
| "pred_columns (POr p q) = pred_columns p \<union> pred_columns q"

definition cond_columns :: "predicate option \<Rightarrow> string set" where
  "cond_columns cond = (case cond of None \<Rightarrow> {} | Some p \<Rightarrow> pred_columns p)"

text \<open>The meaning of a predicate under a resolution of column names.\<close>

fun pred_holds :: "(string \<Rightarrow> nat option) \<Rightarrow> row \<Rightarrow> predicate \<Rightarrow> bool" where
  "pred_holds col r (PAnd p q) \<longleftrightarrow> pred_holds col r p \<and> pred_holds col r q"
| "pred_holds col r (POr p q) \<longleftrightarrow> pred_holds col r p \<or> pred_holds col r q"
| "pred_holds col r (Comparison column op v) \<longleftrightarrow> compare_values (r ! the (col column)) op v"

definition cond_holds :: "(string \<Rightarrow> nat option) \<Rightarrow> predicate option \<Rightarrow> row \<Rightarrow> bool" where
  "cond_holds col cond r = (case cond of None \<Rightarrow> True | Some p \<Rightarrow> pred_holds col r p)"

definition known_columns :: "vtable \<Rightarrow> string set \<Rightarrow> bool" where
  "known_columns t names \<longleftrightarrow> names \<subseteq> col_name ` set (tb_schema t)"

lemma known_columnIndex: "known_columns t names \<Longrightarrow> n \<in> names \<Longrightarrow> Table_columnIndex n t \<noteq> None"
  using Table_columnIndex_None by (auto simp: known_columns_def)

lemma matches_holds:
  "known_columns t (pred_columns p) \<Longrightarrow> matches r t p = Inr (pred_holds (\<lambda>c. Table_columnIndex c t) r p)"
proof (induction p)
  case (Comparison column op v)
  then have "Table_columnIndex column t \<noteq> None" using known_columnIndex by simp
  then show ?case by auto
qed (auto simp: known_columns_def)

lemma selected_holds:
  "known_columns t (cond_columns cond) \<Longrightarrow>
   selected cond t r = Inr (cond_holds (\<lambda>c. Table_columnIndex c t) cond r)"
  by (cases cond) (auto simp: selected_def cond_holds_def cond_columns_def matches_holds)

section \<open>Reads\<close>

text \<open>What a table shows to a read: outside a transaction always, inside if nothing was deleted.\<close>

definition reads_current :: "executor \<Rightarrow> vtable \<Rightarrow> bool" where
  "reads_current s t \<longleftrightarrow> ex_active s = None \<or> Table_versions_current t"

lemma reads_rows:
  assumes "Table_inv t" and "reads_current s t"
  shows "rowsSnapshotForRead s t = Table_rowsSnapshot t" and "rowsByIdForRead s t ids = Table_rowsById ids t"
  using assms Table_reads_current[OF assms(1)]
  by (auto simp: rowsSnapshotForRead_def rowsByIdForRead_def readVersion_def reads_current_def
      split: option.splits)

lemma scan_rows_holds:
  assumes "Table_inv t" and "reads_current s t" and "known_columns t (cond_columns (sel_where q))"
  shows "scan_rows s q t =
    Inr (filter (cond_holds (\<lambda>c. Table_columnIndex c t) (sel_where q)) (Table_rowsSnapshot t))"
  using efilter_total[OF selected_holds[OF assms(3)]] by (simp add: scan_rows_def reads_rows assms)

lemma Table_rowsById_mset:
  assumes "Table_inv t" and "mset ids = mset (positions P (Table_rowsSnapshot t))"
  shows "mset (Table_rowsById ids t) = mset (filter P (Table_rowsSnapshot t))"
proof -
  note rs = Table_inv_store[OF assms(1)]
  let ?rows = "Table_rowsSnapshot t"
  have "Table_rowsById is t = map ((!) ?rows) (filter (\<lambda>i. i < length ?rows) is)" for "is"
    using page_store.rowsById_abs[OF rs] by (simp add: Table_rowsById_def Table_rowsSnapshot_def)
  then have "mset (Table_rowsById ids t) = image_mset ((!) ?rows) (filter_mset (\<lambda>i. i < length ?rows) (mset ids))"
    by simp
  also have "\<dots> = mset (Table_rowsById (positions P ?rows) t)"
    using \<open>\<And>is. Table_rowsById is t = map ((!) ?rows) (filter (\<lambda>i. i < length ?rows) is)\<close>
    by (simp add: assms(2))
  also have "Table_rowsById (positions P ?rows) t = filter P ?rows"
    using page_store.rowsById_positions[OF rs] by (simp add: Table_rowsById_def Table_rowsSnapshot_def)
  finally show ?thesis .
qed

text \<open>The rows a range over an ordered index gives, in the order of the index.\<close>

definition range_rows :: "select_query \<Rightarrow> vtable \<Rightarrow> row list" where
  "range_rows q t =
     (case sel_where q of
        Some (Comparison column op v) \<Rightarrow>
          map ((!) (Table_rowsSnapshot t)) (range_ids op v (the (Table_columnIndex column t)) (Table_rowsSnapshot t))
      | _ \<Rightarrow> [])"

lemma range_ids_less: "i \<in> set (range_ids op v c rows) \<Longrightarrow> i < length rows"
  using positions_less mset_eq_setD[OF mset_range_ids] by blast

text \<open>
  The access path does not change what is found. A hash lookup gives the rows of a scan in the
  same order, a range lookup a permutation of them: by the value in the column, rows of equal
  values in the order of the table.
\<close>

lemma collectRows_scan:
  assumes inv: "Table_inv t" and cur: "reads_current s t"
    and vals: "\<forall>v \<in> where_values (sel_where q). value_ok v"
    and known: "known_columns t (cond_columns (sel_where q))"
  shows "\<exists>rows. collectRows s q t = Inr rows \<and>
    mset rows = mset (filter (cond_holds (\<lambda>c. Table_columnIndex c t) (sel_where q)) (Table_rowsSnapshot t)) \<and>
    (qp_accessPath (planSelect q t) \<noteq> OrderedIndexRange \<longrightarrow>
       rows = filter (cond_holds (\<lambda>c. Table_columnIndex c t) (sel_where q)) (Table_rowsSnapshot t)) \<and>
    (qp_accessPath (planSelect q t) = OrderedIndexRange \<longrightarrow> rows = range_rows q t)"
proof -
  note scan = scan_rows_holds[OF inv cur known]
  consider (hash) column v where "sel_where q = Some (Comparison column Equal v)" "Table_hasIndex column t"
    | (range) column op v where "sel_where q = Some (Comparison column op v)" "op \<noteq> Equal" "Table_hasIndex column t"
    | (full) "qp_accessPath (planSelect q t) = FullScan"
    using plan_path_iff[of q t] access_path.exhaust by metis
  then show ?thesis
  proof cases
    case hash
    then have ok: "value_ok v" using vals by (simp add: where_values_def)
    have path: "qp_accessPath (planSelect q t) = HashIndexLookup" using plan_path_iff(1) hash by blast
    obtain c where c: "Table_columnIndex column t = Some c"
      "Table_indexedLookup column v t =
        Inr (Some (positions (\<lambda>r. Value_eq (r ! c) v) (Table_rowsSnapshot t)))"
      using Table_indexedLookup_rows[OF inv ok hash(2)] by blast
    have "Table_rowsById (positions (\<lambda>r. Value_eq (r ! c) v) (Table_rowsSnapshot t)) t =
        filter (\<lambda>r. Value_eq (r ! c) v) (Table_rowsSnapshot t)"
      using page_store.rowsById_positions[OF Table_inv_store[OF inv]]
      by (simp add: Table_rowsById_def Table_rowsSnapshot_def)
    moreover have "cond_holds (\<lambda>c. Table_columnIndex c t) (sel_where q) = (\<lambda>r. Value_eq (r ! c) v)"
      using hash c by (auto simp: cond_holds_def)
    ultimately show ?thesis
      using path hash c reads_rows[OF inv cur]
      by (simp add: collectRows_def simpleComparison_def Let_def)
  next
    case range
    then have ok: "value_ok v" using vals by (simp add: where_values_def)
    have path: "qp_accessPath (planSelect q t) = OrderedIndexRange" using plan_path_iff(2) range by blast
    obtain c where c: "Table_columnIndex column t = Some c"
      "Table_orderedLookup column op v t = Inr (Some (range_ids op v c (Table_rowsSnapshot t)))"
      using Table_orderedLookup_rows[OF inv ok range(3)] by blast
    have "cond_holds (\<lambda>c. Table_columnIndex c t) (sel_where q) = (\<lambda>r. compare_values (r ! c) op v)"
      using range c by (auto simp: cond_holds_def)
    moreover have "Table_rowsById (range_ids op v c (Table_rowsSnapshot t)) t = range_rows q t"
    proof -
      have "filter (\<lambda>i. i < length (Table_rowsSnapshot t)) (range_ids op v c (Table_rowsSnapshot t)) =
          range_ids op v c (Table_rowsSnapshot t)"
        by (rule filter_True) (auto dest: range_ids_less)
      then show ?thesis
        using page_store.rowsById_abs[OF Table_inv_store[OF inv]] range c(1)
        by (simp add: range_rows_def Table_rowsById_def Table_rowsSnapshot_def)
    qed
    ultimately show ?thesis
      using path range c reads_rows[OF inv cur] Table_rowsById_mset[OF inv mset_range_ids, of op v c]
      by (simp add: collectRows_def simpleComparison_def Let_def)
  next
    case full
    then have "collectRows s q t = scan_rows s q t"
      by (auto simp: collectRows_def Let_def split: option.split)
    with scan full show ?thesis by simp
  qed
qed

section \<open>Limit and order\<close>

text \<open>The first \<open>max n 1\<close> rows: a limit of 0 lets one row through.\<close>

lemma output_loop_take:
  "output_loop projection limit rows out =
     out @ map (\<lambda>r. map (\<lambda>i. r ! i) projection)
       (case limit of None \<Rightarrow> rows | Some n \<Rightarrow> take (max (unat n - length out) 1) rows)"
proof (induction rows arbitrary: out)
  case Nil
  then show ?case by (simp split: option.split)
next
  case (Cons r rows)
  show ?case
  proof (cases limit)
    case None
    with Cons show ?thesis by (simp add: Let_def)
  next
    case (Some n)
    let ?out = "out @ [map (\<lambda>i. r ! i) projection]"
    show ?thesis
    proof (cases "unat n \<le> Suc (length out)")
      case True
      then have "max (unat n - length out) 1 = 1" by simp
      with True Some show ?thesis by simp
    next
      case False
      then have "max (unat n - length out) 1 = Suc (max (unat n - length ?out) 1)" by simp
      then have "take (max (unat n - length out) 1) (r # rows) = r # take (max (unat n - length ?out) 1) rows"
        by (simp only: take_Suc_Cons)
      then have tail: "?out @ map (\<lambda>r. map (\<lambda>i. r ! i) projection) (take (max (unat n - length ?out) 1) rows) =
          out @ map (\<lambda>r. map (\<lambda>i. r ! i) projection) (take (max (unat n - length out) 1) (r # rows))"
        by (simp only: list.map append_assoc append.simps)
      have step: "output_loop projection (Some n) (r # rows) out = output_loop projection (Some n) rows ?out"
        using False by (simp add: Let_def)
      show ?thesis
        unfolding Some option.case
        by (rule trans[OF step trans[OF Cons[of ?out, unfolded Some option.case] tail]])
    qed
  qed
qed

lemma order_less_weak:
  assumes "\<forall>r \<in> set rows. value_ok (r ! i)"
  shows "weak_order (order_less i ascending) (\<lambda>r. r \<in> set rows)"
proof unfold_locales
  fix a b c :: row
  assume ab: "a \<in> set rows" "b \<in> set rows" "c \<in> set rows"
  then have ok: "value_ok (a ! i)" "value_ok (b ! i)" "value_ok (c ! i)" using assms by auto
  show "\<not> order_less i ascending a a" using value_order.irrefl[OF ok(1)] by (simp add: order_less_def)
  show "order_less i ascending a b \<Longrightarrow> order_less i ascending b c \<Longrightarrow> order_less i ascending a c"
    using value_order.trans[OF ok] value_order.trans[OF ok(3,2,1)] by (cases ascending) (simp_all add: order_less_def)
  show "\<not> order_less i ascending a b \<Longrightarrow> \<not> order_less i ascending b c \<Longrightarrow> \<not> order_less i ascending a c"
    using value_order.neg_trans[OF ok] value_order.neg_trans[OF ok(3,2,1)]
    by (cases ascending) (simp_all add: order_less_def)
qed

lemma sort_rows_spec:
  assumes "sort_contract (pf_sort pf)" and "resolve (ob_column ob) = Inr (Some i)"
    and "\<forall>r \<in> set rows. value_ok (r ! i)"
  shows "\<exists>out. sort_rows pf (Some ob) resolve rows = Inr out \<and> mset out = mset rows \<and>
    sorted_wrt (\<lambda>a b. \<not> order_less i (ob_ascending ob) b a) out"
  using assms order_less_weak[OF assms(3)] by (simp add: sort_rows_def sort_contract_def)

section \<open>Joins\<close>

lemma rows_by_key_snoc:
  "rows_by_key c (rows @ [r]) =
   omap_alter Value_less (r ! c) (\<lambda>old. (case old of None \<Rightarrow> [] | Some rs \<Rightarrow> rs) @ [r]) (rows_by_key c rows)"
  by (simp add: rows_by_key_def)

lemma rows_by_key_find:
  assumes "\<forall>r \<in> set rows. value_ok (r ! c)" and k: "value_ok k"
  shows "omap_wf Value_less value_ok (rows_by_key c rows) \<and>
    (case omap_find Value_less k (rows_by_key c rows) of None \<Rightarrow> [] | Some rs \<Rightarrow> rs) =
      filter (\<lambda>r. Value_eq k (r ! c)) rows"
  using assms(1)
proof (induction rows rule: rev_induct)
  case Nil
  then show ?case by (simp add: rows_by_key_def)
next
  case (snoc r rows)
  then have wf: "omap_wf Value_less value_ok (rows_by_key c rows)" and ok: "value_ok (r ! c)"
    and IH: "(case omap_find Value_less k (rows_by_key c rows) of None \<Rightarrow> [] | Some rs \<Rightarrow> rs) =
      filter (\<lambda>r. Value_eq k (r ! c)) rows" by auto
  have same: "omap_find Value_less (r ! c) (rows_by_key c rows) = omap_find Value_less k (rows_by_key c rows)"
    if "Value_eq k (r ! c)"
    using that Value_eq_incomparable[OF k ok] value_order.omap_find_eqv[OF wf ok k] by blast
  show ?case
    using value_order.omap_wf_alter[OF wf ok] value_order.omap_find_alter[OF wf ok k] same IH
      Value_eq_incomparable[OF k ok]
    by (auto simp: rows_by_key_snoc)
qed

definition nested_join :: "nat \<Rightarrow> nat \<Rightarrow> (row \<Rightarrow> bool) \<Rightarrow> row list \<Rightarrow> row list \<Rightarrow> row list" where
  "nested_join lc rc P leftRows rightRows =
     concat (map (\<lambda>l. filter P (map (\<lambda>r. l @ r) (filter (\<lambda>r. Value_eq (l ! lc) (r ! rc)) rightRows))) leftRows)"

lemma joined_matches_holds:
  "(\<forall>c \<in> pred_columns p. \<exists>i. resolveResultColumn columns c = Inr (Some i)) \<Longrightarrow>
   joined_matches columns j p = Inr (pred_holds (\<lambda>c. projr (resolveResultColumn columns c)) j p)"
  by (induction p) fastforce+

lemma join_rows_nested:
  assumes lv: "\<forall>l \<in> set leftRows. value_ok (l ! lc)" and rv: "\<forall>r \<in> set rightRows. value_ok (r ! rc)"
    and known: "\<forall>c \<in> cond_columns cond. \<exists>i. resolveResultColumn columns c = Inr (Some i)"
  shows "join_rows columns cond lc rc leftRows rightRows =
    Inr (nested_join lc rc (cond_holds (\<lambda>c. projr (resolveResultColumn columns c)) cond) leftRows rightRows)"
proof -
  let ?P = "cond_holds (\<lambda>c. projr (resolveResultColumn columns c)) cond"
  let ?m = "rows_by_key rc rightRows"
  have test: "(case cond of None \<Rightarrow> Inr True | Some p \<Rightarrow> joined_matches columns j p) = Inr (?P j)" for j
    using known by (cases cond) (auto simp: cond_holds_def cond_columns_def joined_matches_holds)
  have "(case omap_find Value_less (l ! lc) ?m of None \<Rightarrow> Inr []
      | Some rs \<Rightarrow> efilter (\<lambda>j. case cond of None \<Rightarrow> Inr True | Some p \<Rightarrow> joined_matches columns j p)
          (map (\<lambda>r. l @ r) rs)) =
      Inr (filter ?P (map (\<lambda>r. l @ r) (filter (\<lambda>r. Value_eq (l ! lc) (r ! rc)) rightRows)))"
    if "l \<in> set leftRows" for l
  proof -
    have "(case omap_find Value_less (l ! lc) ?m of None \<Rightarrow> [] | Some rs \<Rightarrow> rs) =
        filter (\<lambda>r. Value_eq (l ! lc) (r ! rc)) rightRows"
      using rows_by_key_find[OF rv] lv that by blast
    then show ?thesis
      using efilter_total[OF test] by (auto simp: test split: option.splits)
  qed
  then show ?thesis
    unfolding join_rows_def nested_join_def Let_def by (simp add: emap_total)
qed

end
