(* ===== verification/Effects.thy ===== *)
theory Effects
  imports Queries
begin

text \<open>
  What the statements that change rows do to a table: UPDATE maps a function over its rows,
  DELETE filters them, INSERT appends to them, and the table invariant is kept throughout. The
  loops of the code go over row ids and test the rows of a snapshot taken before them.
\<close>

lemma selected_known:
  "known_columns t (cond_columns cond) \<Longrightarrow> tb_schema t = schema \<Longrightarrow>
   selected cond t r = Inr (cond_holds (\<lambda>c. find_column c schema) cond r)"
  using selected_holds by (auto simp: Table_columnIndex_def)

section \<open>UPDATE\<close>

definition set_cell :: "(row \<Rightarrow> bool) \<Rightarrow> nat \<Rightarrow> sql_value \<Rightarrow> row \<Rightarrow> row" where
  "set_cell P c v r = (if P r then r[c := v] else r)"

lemma update_loop_rows:
  fixes rows :: "row list"
  assumes "Table_inv t" and "known_columns t (cond_columns cond)"
    and "P = cond_holds (\<lambda>c. find_column c (tb_schema t)) cond"
    and "c < length (tb_schema t)" and "cell_fits (tb_schema t ! c) v" and "value_ok v"
    and "k \<le> length rows" and "Table_rowsSnapshot t = map (set_cell P c v) (take k rows) @ drop k rows"
  shows "\<exists>t'. update_loop cond c v rows [k..<length rows] m t =
      (t', Inr (m + length (filter P (drop k rows)))) \<and> Table_inv t' \<and> same_definitions t t' \<and>
    Table_rowsSnapshot t' = map (set_cell P c v) rows \<and> (Table_versions_current t \<longrightarrow> Table_versions_current t')"
  using assms
proof (induction "length rows - k" arbitrary: k t m)
  case 0
  then show ?case by (simp add: same_definitions_def)
next
  case (Suc n)
  then have k: "k < length rows" and n: "n = length rows - Suc k" by simp_all
  have ids: "[k..<length rows] = k # [Suc k..<length rows]" using k by (simp add: upt_conv_Cons)
  have drop: "drop k rows = rows ! k # drop (Suc k) rows" using k by (simp add: Cons_nth_drop_Suc)
  have len: "length (Table_rowsSnapshot t) = length rows" using k Suc.prems(8) by simp
  have cur: "Table_rowsSnapshot t ! k = rows ! k"
    using k Suc.prems(8) by (simp add: drop nth_append)
  have sel: "selected cond t (rows ! k) = Inr (P (rows ! k))"
    using selected_known[OF Suc.prems(2) refl] Suc.prems(3) by simp
  have next_row: "map (set_cell P c v) (take (Suc k) rows) @ drop (Suc k) rows =
      (map (set_cell P c v) (take k rows) @ drop k rows)[k := set_cell P c v (rows ! k)]"
    using k by (simp add: take_Suc_conv_app_nth list_update_append drop)
  show ?case
  proof (cases "P (rows ! k)")
    case False
    have same: "Table_rowsSnapshot t = map (set_cell P c v) (take (Suc k) rows) @ drop (Suc k) rows"
      unfolding next_row Suc.prems(8) using False k
      by (simp add: set_cell_def list_update_append drop)
    from Suc.hyps(1)[of "Suc k" t m] Suc.hyps(2) Suc.prems(1-6) k same
    show ?thesis using False by (simp add: ids sel drop)
  next
    case True
    obtain t1 where t1: "Table_update k c v t = Inr (True, t1)" "Table_inv t1"
      "Table_rowsSnapshot t1 = (Table_rowsSnapshot t)[k := (rows ! k)[c := v]]" "same_definitions t t1"
      using Table_update_spec[OF Suc.prems(1) _ Suc.prems(4,5,6), of k] k len cur by auto
    then have sch: "tb_schema t1 = tb_schema t" by (simp add: same_definitions_def)
    have known1: "known_columns t1 (cond_columns cond)" using Suc.prems(2) sch by (simp add: known_columns_def)
    have P1: "P = cond_holds (\<lambda>c. find_column c (tb_schema t1)) cond" using Suc.prems(3) sch by simp
    have vs: "Table_versions_current t \<Longrightarrow> Table_versions_current t1"
      using Table_update_versions[OF Suc.prems(1,5,6) _ Suc.prems(4)] t1(1) k len by auto
    have rows1: "Table_rowsSnapshot t1 = map (set_cell P c v) (take (Suc k) rows) @ drop (Suc k) rows"
      unfolding next_row t1(3) Suc.prems(8) using True by (simp add: set_cell_def)
    obtain t' where t': "update_loop cond c v rows [Suc k..<length rows] (m + 1) t1 =
        (t', Inr (m + 1 + length (filter P (drop (Suc k) rows))))" "Table_inv t'" "same_definitions t1 t'"
      "Table_rowsSnapshot t' = map (set_cell P c v) rows" "Table_versions_current t1 \<longrightarrow> Table_versions_current t'"
      using Suc.hyps(1)[OF n t1(2) known1 P1 _ _ Suc.prems(6) _ rows1, of "m + 1"] Suc.prems(4,5) k sch
      by auto
    have "update_loop cond c v rows [k..<length rows] m t = update_loop cond c v rows [Suc k..<length rows] (m + 1) t1"
      by (simp add: ids sel True t1(1))
    moreover have "m + 1 + length (filter P (drop (Suc k) rows)) = m + length (filter P (drop k rows))"
      using True by (simp add: drop)
    ultimately show ?thesis
      using t' vs t1(4) by (intro exI[of _ t']) (simp add: same_definitions_def)
  qed
qed

lemma update_loop_spec:
  assumes "Table_inv t" and "known_columns t (cond_columns cond)"
    and "P = cond_holds (\<lambda>c. find_column c (tb_schema t)) cond"
    and "c < length (tb_schema t)" and "cell_fits (tb_schema t ! c) v" and "value_ok v"
    and "rows = Table_rowsSnapshot t"
  shows "\<exists>t'. update_loop cond c v rows [0..<length rows] 0 t = (t', Inr (length (filter P rows))) \<and>
    Table_inv t' \<and> same_definitions t t' \<and> Table_rowsSnapshot t' = map (set_cell P c v) rows \<and>
    (Table_versions_current t \<longrightarrow> Table_versions_current t')"
proof -
  have "Table_rowsSnapshot t = map (set_cell P c v) (take 0 rows) @ drop 0 rows"
    unfolding assms(7) by simp
  from update_loop_rows[OF assms(1-6) le0 this, of 0] show ?thesis
    unfolding drop_0 add_0 .
qed

text \<open>A value the column does not take is refused at the first selected row; nothing has changed.\<close>

lemma update_loop_invalid:
  assumes "Table_inv t" and "known_columns t (cond_columns cond)"
    and "P = cond_holds (\<lambda>c. find_column c (tb_schema t)) cond"
    and "c < length (tb_schema t)" and "\<not> cell_fits (tb_schema t ! c) v"
    and "\<forall>i \<in> set ids. i < length (Table_rowsSnapshot t)" and "rows = Table_rowsSnapshot t"
  shows "if \<exists>i \<in> set ids. P (rows ! i)
    then \<exists>msg. update_loop cond c v rows ids m t = (t, Inl (InvalidArgument msg))
    else update_loop cond c v rows ids m t = (t, Inr m)"
  using assms(6)
proof (induction ids)
  case Nil
  then show ?case by simp
next
  case (Cons i ids)
  have "selected cond t (rows ! i) = Inr (P (rows ! i))"
    using selected_known[OF assms(2) refl] assms(3) by simp
  with Cons Table_update_invalid[OF assms(1) _ assms(4,5), of i]
  show ?case by (cases "P (rows ! i)") auto
qed

section \<open>DELETE\<close>

lemma delete_loop_rows:
  fixes rows :: "row list"
  assumes "Table_inv t" and "known_columns t (cond_columns cond)"
    and "P = cond_holds (\<lambda>c. find_column c (tb_schema t)) cond"
    and "k \<le> length rows" and "Table_rowsSnapshot t = take k rows @ filter (\<lambda>r. \<not> P r) (drop k rows)"
  shows "\<exists>t'. delete_loop cond rows (rev [0..<k]) m t = (t', Inr (m + length (filter P (take k rows)))) \<and>
    Table_inv t' \<and> same_definitions t t' \<and> Table_rowsSnapshot t' = filter (\<lambda>r. \<not> P r) rows"
  using assms
proof (induction k arbitrary: t m)
  case 0
  then show ?case by (simp add: same_definitions_def)
next
  case (Suc k)
  then have k: "k < length rows" by simp
  have take: "take (Suc k) rows = take k rows @ [rows ! k]" using k by (simp add: take_Suc_conv_app_nth)
  have drop: "drop k rows = rows ! k # drop (Suc k) rows" using k by (simp add: Cons_nth_drop_Suc)
  have sel: "selected cond t (rows ! k) = Inr (P (rows ! k))"
    using selected_known[OF Suc.prems(2) refl] Suc.prems(3) by simp
  show ?case
  proof (cases "P (rows ! k)")
    case False
    with Suc.prems(5) have "Table_rowsSnapshot t = take k rows @ filter (\<lambda>r. \<not> P r) (drop k rows)"
      by (simp add: take drop)
    from Suc.IH[OF Suc.prems(1-3) _ this] False k show ?thesis by (simp add: sel take)
  next
    case True
    have len: "k < length (Table_rowsSnapshot t)" using Suc.prems(5) k by simp
    obtain t1 where t1: "Table_erase k t = Inr (True, t1)" "Table_inv t1" "same_definitions t t1"
      "Table_rowsSnapshot t1 = remove_nth k (Table_rowsSnapshot t)"
      using Table_erase_spec[OF Suc.prems(1), of k] len by auto
    then have sch: "tb_schema t1 = tb_schema t" by (simp add: same_definitions_def)
    have known1: "known_columns t1 (cond_columns cond)" using Suc.prems(2) sch by (simp add: known_columns_def)
    have P1: "P = cond_holds (\<lambda>c. find_column c (tb_schema t1)) cond" using Suc.prems(3) sch by simp
    have rows1: "Table_rowsSnapshot t1 = take k rows @ filter (\<lambda>r. \<not> P r) (drop k rows)"
      unfolding t1(4) Suc.prems(5) take using True k
      using remove_nth_append_length[of "take k rows" "rows ! k" "filter (\<lambda>r. \<not> P r) (drop (Suc k) rows)"]
      by (simp add: drop)
    obtain t' where t': "delete_loop cond rows (rev [0..<k]) (m + 1) t1 =
        (t', Inr (m + 1 + length (filter P (take k rows))))" "Table_inv t'" "same_definitions t1 t'"
      "Table_rowsSnapshot t' = filter (\<lambda>r. \<not> P r) rows"
      using Suc.IH[OF t1(2) known1 P1 _ rows1, of "m + 1"] k by auto
    have "delete_loop cond rows (rev [0..<Suc k]) m t = delete_loop cond rows (rev [0..<k]) (m + 1) t1"
      by (simp add: sel True t1(1))
    moreover have "m + 1 + length (filter P (take k rows)) = m + length (filter P (take (Suc k) rows))"
      using True by (simp add: take)
    ultimately show ?thesis
      using t' t1(3) by (intro exI[of _ t']) (simp add: same_definitions_def)
  qed
qed

lemma delete_loop_spec:
  assumes "Table_inv t" and "known_columns t (cond_columns cond)"
    and "P = cond_holds (\<lambda>c. find_column c (tb_schema t)) cond" and "rows = Table_rowsSnapshot t"
  shows "\<exists>t'. delete_loop cond rows (rev [0..<length rows]) 0 t = (t', Inr (length (filter P rows))) \<and>
    Table_inv t' \<and> same_definitions t t' \<and> Table_rowsSnapshot t' = filter (\<lambda>r. \<not> P r) rows"
proof -
  have "Table_rowsSnapshot t = take (length rows) rows @ filter (\<lambda>r. \<not> P r) (drop (length rows) rows)"
    unfolding assms(4) by simp
  from delete_loop_rows[OF assms(1-3) order_refl this, of 0] show ?thesis
    unfolding take_all[OF order_refl] add_0 .
qed

end
