(* ===== verification/LogText.thy ===== *)
theory LogText
  imports ParserSound
begin

text \<open>
  The text of a statement as the executor logs it, and which statements survive the round trip
  through that text: those a parse can give (\<open>query_ok\<close>) with literals that read back
  (\<open>literals_exact\<close>: a double's six digits in the log need not be the same double).
\<close>

fun statement_text :: "query \<Rightarrow> string option" where
  "statement_text (CreateTable name columns) = Some (createTableSql name columns)"
| "statement_text (DropTable name) = Some (dropTableSql name)"
| "statement_text (RenameTable oldName newName) = Some (renameTableSql oldName newName)"
| "statement_text (Insert table rows) = (case rows of [r] \<Rightarrow> Some (insertSql table r) | _ \<Rightarrow> None)"
| "statement_text (Update command) = Some (updateSql command)"
| "statement_text (Delete table cond) = Some (deleteSql table cond)"
| "statement_text (CreateIndex name table column) = Some (createIndexSql name table column)"
| "statement_text _ = None"

definition literals_exact :: "query \<Rightarrow> bool" where
  "literals_exact q \<longleftrightarrow> (\<forall>v \<in> query_values q. literal_ok v)"

lemmas word_evals = word_text_def char_evals

lemma predicate_wf_ok: "predicate_wf p \<Longrightarrow> \<forall>v \<in> predicate_values p. literal_ok v \<Longrightarrow> predicate_ok p"
  by (induction p) auto

lemma where_wf_ok: "where_wf w \<Longrightarrow> \<forall>v \<in> where_values w. literal_ok v \<Longrightarrow> where_ok w"
  by (auto simp: where_wf_def where_ok_def where_values_def predicate_wf_ok split: option.splits)

lemma parse_statement_text:
  assumes "query_ok q" and "literals_exact q" and "statement_text q = Some sql"
  shows "Parser_parse sql = Inr q"
proof (cases q)
  case (CreateTable name columns)
  with assms show ?thesis using parse_createTableSql by auto
next
  case (Insert table rows)
  with assms(3) obtain r where r: "rows = [r]" "sql = insertSql table r"
    by (auto split: list.splits)
  with Insert assms show ?thesis using parse_insertSql[of table r] by (auto simp: row_wf_def literals_exact_def)
next
  case (Update u)
  with assms show ?thesis using parse_updateSql[of u] where_wf_ok by (auto simp: literals_exact_def)
next
  case (Delete table cond)
  with assms show ?thesis using parse_deleteSql[of table cond] where_wf_ok by (auto simp: literals_exact_def)
qed (use assms parse_dropTableSql parse_renameTableSql parse_createIndexSql in auto)

end
