(* ===== verification/Prepared.thy ===== *)
theory Prepared
  imports Executor LogText
begin

text \<open>
  Prepared statements: what \<open>bindPreparedSql\<close> makes of a template, and when \<open>execute\<close> returns.
\<close>

section \<open>Binding\<close>

lemma ebind_return: "ebind m Inr = m"
  by (cases m) simp_all

lemma bind_text_prefix:
  "CHR ''?'' \<notin> set pre \<Longrightarrow> bind_text (pre @ rest) vs = ebind (bind_text rest vs) (\<lambda>s. Inr (pre @ s))"
  by (induction pre) (auto simp: ebind_assoc ebind_return)

lemma bind_text_mark:
  "bind_text (CHR ''?'' # rest) (v # vs) = ebind (bind_text rest vs) (\<lambda>s. Inr (sqlLiteral v @ s))"
  by simp

text \<open>The number of marks is the number of parameters a template takes.\<close>

lemma bind_text_arity:
  "(\<exists>s. bind_text template vs = Inr s) \<longleftrightarrow> length (filter (\<lambda>c. c = CHR ''?'') template) = length vs"
proof (induction template vs rule: bind_text.induct)
  case (2 c cs vs)
  then show ?case by (cases vs) (auto simp: ebind_eq_Inr)
qed auto

definition insert_template :: "string \<Rightarrow> nat \<Rightarrow> string" where
  "insert_template table n =
     ''INSERT INTO '' @ table @ '' VALUES ('' @ join_with '', '' (replicate n ''?'') @ '');''"

lemma bind_text_marks:
  assumes "CHR ''?'' \<notin> set rest"
  shows "bind_text (join_with '', '' (replicate (length vs) ''?'') @ rest) vs =
    Inr (join_with '', '' (map sqlLiteral vs) @ rest)"
proof (induction vs)
  case Nil
  then show ?case using bind_text_prefix[OF assms, of "[]" "[]"] by simp
next
  case (Cons v vs)
  have comma: "bind_text ('', '' @ t) us = ebind (bind_text t us) (\<lambda>s. Inr ('', '' @ s))" for t us
    by (rule bind_text_prefix) simp
  show ?case
  proof (cases vs)
    case Nil
    then show ?thesis using bind_text_prefix[OF assms, of "[]" "[]"] by simp
  next
    case (Cons w ws)
    with Cons.IH comma[of "join_with '', '' (replicate (length vs) ''?'') @ rest" vs]
    show ?thesis by simp
  qed
qed

lemma word_no_mark: "word_text w \<Longrightarrow> CHR ''?'' \<notin> set w"
  by (auto simp: word_text_def list_all_iff char_evals split: list.splits)

lemma bind_insert_template:
  assumes "word_text table"
  shows "bind_text (insert_template table (length vs)) vs = Inr (insertSql table vs)"
proof -
  have marks: "bind_text (join_with '', '' (replicate (length vs) ''?'') @ '');'') vs =
      Inr (join_with '', '' (map sqlLiteral vs) @ '');'')"
    by (rule bind_text_marks) simp
  have "CHR ''?'' \<notin> set (''INSERT INTO '' @ table @ '' VALUES ('')" using word_no_mark[OF assms] by simp
  from bind_text_prefix[OF this, of "join_with '', '' (replicate (length vs) ''?'') @ '');''" vs] marks
  show ?thesis by (simp add: insert_template_def insertSql_def)
qed

section \<open>When EXECUTE returns\<close>

definition is_execute :: "query \<Rightarrow> bool" where
  "is_execute q = (case q of ExecutePrepared _ _ \<Rightarrow> True | _ \<Rightarrow> False)"

lemma execute_other: "\<not> is_execute q \<Longrightarrow> execute pf q s = Some (executeUnlocked pf q s)"
  by (cases q) (simp_all add: is_execute_def execute.simps)

lemma execute_bound:
  assumes "bindPreparedSql name vs s = Inr sql" and "Parser_parse sql = Inr q"
  shows "execute pf (ExecutePrepared name vs) s = execute pf q s"
  by (subst execute.simps) (simp add: assms)

lemma execute_bind_error:
  assumes "ebind (bindPreparedSql name vs s) Parser_parse = Inl e"
  shows "execute pf (ExecutePrepared name vs) s = Some (s, Inl e)"
  by (subst execute.simps) (simp add: assms)

text \<open>A statement whose text executes itself never returns.\<close>

definition self_executing :: "string \<Rightarrow> sql_value list \<Rightarrow> executor \<Rightarrow> bool" where
  "self_executing name vs s \<longleftrightarrow>
     ebind (bindPreparedSql name vs s) Parser_parse = Inr (ExecutePrepared name vs)"

lemma execute_diverges:
  assumes "self_executing name vs s"
  shows "execute pf (ExecutePrepared name vs) s = None"
proof (rule ccontr)
  assume "execute pf (ExecutePrepared name vs) s \<noteq> None"
  then obtain r where ret: "execute pf (ExecutePrepared name vs) s = Some r" by blast
  have "\<not> (ExecutePrepared name vs = ExecutePrepared name vs \<and> self_executing name vs s)"
  proof (rule execute.raw_induct[where P = "\<lambda>pf q s r. \<not> (q = ExecutePrepared name vs \<and> self_executing name vs s)",
      OF _ ret])
    fix ex pf q s r
    assume IH: "\<And>pf q s r. ex pf q s = Some r \<Longrightarrow> \<not> (q = ExecutePrepared name vs \<and> self_executing name vs s)"
      and eq: "(case q of
        ExecutePrepared name parameters \<Rightarrow>
          (case ebind (bindPreparedSql name parameters s) Parser_parse of
             Inl e \<Rightarrow> Some (s, Inl e)
           | Inr q' \<Rightarrow> ex pf q' s)
      | _ \<Rightarrow> Some (executeUnlocked pf q s)) = Some r"
    show "\<not> (q = ExecutePrepared name vs \<and> self_executing name vs s)"
    proof
      assume self: "q = ExecutePrepared name vs \<and> self_executing name vs s"
      with eq have "ex pf (ExecutePrepared name vs) s = Some r" by (simp add: self_executing_def)
      from IH[OF this] self show False by simp
    qed
  qed
  with assms show False by simp
qed

text \<open>A template that never parses to another EXECUTE always returns.\<close>

definition flat_statement :: "string \<Rightarrow> bool" where
  "flat_statement sql \<longleftrightarrow>
     (\<forall>vs text q. bind_text sql vs = Inr text \<longrightarrow> Parser_parse text = Inr q \<longrightarrow> \<not> is_execute q)"

lemma execute_flat:
  assumes "\<forall>name vs sql. q = ExecutePrepared name vs \<longrightarrow> umap_find (=) name (ex_prepared s) = Some sql \<longrightarrow>
    flat_statement sql"
  shows "\<exists>r. execute pf q s = Some r"
proof (cases "is_execute q")
  case False
  then show ?thesis by (simp add: execute_other)
next
  case True
  then obtain name vs where q: "q = ExecutePrepared name vs" by (auto simp: is_execute_def split: query.splits)
  show ?thesis
  proof (cases "ebind (bindPreparedSql name vs s) Parser_parse")
    case (Inl e)
    then show ?thesis unfolding q by (simp add: execute_bind_error)
  next
    case (Inr q')
    then obtain sql where sql: "bindPreparedSql name vs s = Inr sql" "Parser_parse sql = Inr q'"
      by (auto simp: ebind_eq_Inr)
    from sql(1) obtain template where "umap_find (=) name (ex_prepared s) = Some template"
      "bind_text template vs = Inr sql"
      by (auto simp: bindPreparedSql_def split: option.splits)
    with assms q sql(2) have "\<not> is_execute q'" by (auto simp: flat_statement_def)
    then show ?thesis unfolding q by (simp add: execute_bound[OF sql] execute_other)
  qed
qed

text \<open>A call that returns either threw and changed nothing, or executed one plain statement.\<close>

definition outcome_of :: "platform \<Rightarrow> query \<Rightarrow> executor \<Rightarrow> executor \<times> query_result outcome \<Rightarrow> bool" where
  "outcome_of pf q s r \<longleftrightarrow> (\<exists>e. r = (s, Inl e)) \<or>
     (\<exists>q'. \<not> is_execute q' \<and> executeUnlocked pf q' s = r \<and> (is_execute q \<or> q' = q))"

lemma execute_outcome:
  assumes "execute pf q s = Some r"
  shows "outcome_of pf q s r"
proof (rule execute.raw_induct[where P = outcome_of, OF _ assms])
  fix ex pf q s r
  assume IH: "\<And>pf q s r. ex pf q s = Some r \<Longrightarrow> outcome_of pf q s r"
    and run: "(case q of
      ExecutePrepared name parameters \<Rightarrow>
        case ebind (bindPreparedSql name parameters s) Parser_parse of
        Inl e \<Rightarrow> Some (s, Inl e) | Inr q' \<Rightarrow> ex pf q' s
      | _ \<Rightarrow> Some (executeUnlocked pf q s)) = Some r"
  show "outcome_of pf q s r"
  proof (cases "is_execute q")
    case False
    then show ?thesis using run by (auto simp: is_execute_def outcome_of_def split: query.splits)
  next
    case True
    then obtain name vs where q: "q = ExecutePrepared name vs" by (auto simp: is_execute_def split: query.splits)
    show ?thesis
    proof (cases "ebind (bindPreparedSql name vs s) Parser_parse")
      case (Inl e)
      then show ?thesis using run q by (auto simp: outcome_of_def)
    next
      case (Inr q')
      then have "outcome_of pf q' s r" using run q IH by simp
      then show ?thesis using True by (auto simp: outcome_of_def)
    qed
  qed
qed
end
