(* ===== verification/Mirrors.thy ===== *)
theory Mirrors
  imports Effects Prepared
begin

text \<open>
  Replaying a statement: \<open>mirrors\<close> says that a handler that succeeded does to the database of a
  replaying executor with the same database (\<open>shadow\<close>) exactly what it did to the live one.
\<close>

section \<open>Maps\<close>

lemma omap_alter_same: "omap_find lt k m = Some v \<Longrightarrow> omap_alter lt k (\<lambda>_. v) m = m"
  by (induction m) (auto split: if_splits)

lemma omap_alter_keep:
  "omap_find lt k m = Some v \<Longrightarrow> f (Some v) = v \<Longrightarrow> omap_alter lt k f m = m"
  by (induction m) (auto split: if_splits)

lemma Database_putTable_same: "Database_table name db = Some t \<Longrightarrow> Database_putTable name t db = db"
  by (simp add: Database_putTable_def Database_table_def omap_alter_same)

lemma Database_createTable_taken:
  "Database_createTable name schema db = Inr (False, db') \<Longrightarrow> db' = db"
  by (auto simp: Database_createTable_def Database_table_def ebind_eq_Inr omap_emplace_def omap_alter_keep)

lemma Database_dropTable_unknown: "Database_dropTable name db = (False, db') \<Longrightarrow> db' = db"
  by (auto simp: Database_dropTable_def split: option.splits)

lemma Database_renameTable_no: "Database_renameTable a b db = (db', Inr False) \<Longrightarrow> db' = db"
  by (auto simp: Database_renameTable_def Let_def split: option.splits if_splits sum.splits)

lemma Table_createIndex_no: "Table_createIndex name column t = (False, t') \<Longrightarrow> t' = t"
  by (auto simp: Table_createIndex_def split: option.splits if_splits)

section \<open>Replaying does what was done\<close>

definition shadow :: "executor \<Rightarrow> executor \<Rightarrow> bool" where
  "shadow s r \<longleftrightarrow> ex_database r = ex_database s \<and> ex_replaying r"

definition mirrors :: "'a action \<Rightarrow> bool" where
  "mirrors m \<longleftrightarrow> (\<forall>s r s' x. shadow s r \<longrightarrow> m s = (s', Inr x) \<longrightarrow>
     (\<exists>r'. m r = (r', Inr x) \<and> shadow s' r'))"

lemma mirrorsD:
  "mirrors m \<Longrightarrow> shadow s r \<Longrightarrow> m s = (s', Inr x) \<Longrightarrow> \<exists>r'. m r = (r', Inr x) \<and> shadow s' r'"
  by (auto simp: mirrors_def)

lemma mirrors_bind:
  assumes "mirrors m" and "\<And>x. mirrors (f x)"
  shows "mirrors (act_bind m f)"
  unfolding mirrors_def
proof (intro allI impI)
  fix s r s' x
  assume sh: "shadow s r" and run: "act_bind m f s = (s', Inr x)"
  then obtain s1 y where m: "m s = (s1, Inr y)" and f: "f y s1 = (s', Inr x)"
    by (auto simp: act_bind_def split: prod.splits sum.splits)
  from mirrorsD[OF assms(1) sh m] obtain r1 where r1: "m r = (r1, Inr y)" "shadow s1 r1" by blast
  from mirrorsD[OF assms(2) r1(2) f] r1(1) show "\<exists>r'. act_bind m f r = (r', Inr x) \<and> shadow s' r'"
    by (auto simp: act_bind_def)
qed

lemma mirrors_appendWal: "mirrors (appendWal op payload)"
  by (auto simp: mirrors_def shadow_def appendWal_def split: sum.splits prod.splits if_splits)

lemma mirrors_append_if: "mirrors (append_if b op payload)"
  using mirrors_appendWal by (auto simp: append_if_def mirrors_def)

lemma mirrors_reply: "mirrors (reply b m)"
  by (auto simp: mirrors_def reply_def)

lemma mirrors_logged: "mirrors (act_bind (append_if b op payload) (\<lambda>_. reply c m))"
  by (rule mirrors_bind[OF mirrors_append_if mirrors_reply])

lemma mirrors_with_database: "(\<And>db. mirrors (f db)) \<Longrightarrow> mirrors (with_database f)"
proof -
  assume f: "\<And>db. mirrors (f db)"
  show ?thesis unfolding mirrors_def
  proof (intro allI impI)
    fix s r s' x
    assume sh: "shadow s r" and run: "with_database f s = (s', Inr x)"
    then have db: "ex_database r = ex_database s" by (simp add: shadow_def)
    show "\<exists>r'. with_database f r = (r', Inr x) \<and> shadow s' r'"
      using mirrorsD[OF f sh] run sh db by (cases "ex_database s") (auto simp: with_database_def reply_def)
  qed
qed

lemma mirrors_set: "mirrors m \<Longrightarrow> mirrors (\<lambda>s. m (s\<lparr>ex_database := d\<rparr>))"
proof -
  assume m: "mirrors m"
  have "shadow (s\<lparr>ex_database := d\<rparr>) (r\<lparr>ex_database := d\<rparr>)" if "shadow s r" for s r
    using that by (simp add: shadow_def)
  with mirrorsD[OF m] show ?thesis unfolding mirrors_def by blast
qed

lemma mirrors_case:
  "(\<And>e. mirrors (f e)) \<Longrightarrow> (\<And>x. mirrors (g x)) \<Longrightarrow> mirrors (\<lambda>s. case v of Inl e \<Rightarrow> f e s | Inr x \<Rightarrow> g x s)"
  by (cases v) simp_all

lemma mirrors_throw: "mirrors (\<lambda>s. (s, Inl e))"
  by (auto simp: mirrors_def)

lemma shadow_requireTable: "shadow s r \<Longrightarrow> requireTable name r = requireTable name s"
  by (simp add: shadow_def requireTable_def)

lemma shadow_put: "shadow s r \<Longrightarrow> shadow (put_table name t s) (put_table name t r)"
  by (simp add: shadow_def put_table_def)

lemma mirrors_table:
  assumes "\<And>t s r s' x. shadow s r \<Longrightarrow> f t s = (s', Inr x) \<Longrightarrow> \<exists>r'. f t r = (r', Inr x) \<and> shadow s' r'"
  shows "mirrors (\<lambda>s. case requireTable name s of Inl e \<Rightarrow> (s, Inl e) | Inr t \<Rightarrow> f t s)"
  using assms by (auto simp: mirrors_def shadow_requireTable split: sum.splits)

lemma mirrors_createTable: "mirrors (executeCreateTable name columns)"
  unfolding executeCreateTable_def
  by (intro mirrors_with_database mirrors_case mirrors_throw)
    (auto simp: split_beta intro: mirrors_set mirrors_logged)

lemma mirrors_dropTable: "mirrors (executeDropTable name)"
  unfolding executeDropTable_def
  by (intro mirrors_with_database) (auto simp: split_beta intro: mirrors_set mirrors_logged)

lemma mirrors_renameTable: "mirrors (executeRenameTable a b)"
proof -
  have "mirrors (\<lambda>s. case Database_renameTable a b db of
        (db', Inl e) \<Rightarrow> (s\<lparr>ex_database := Some db'\<rparr>, Inl e)
      | (db', Inr renamed) \<Rightarrow>
         act_bind (append_if renamed WalRenameTable (renameTableSql a b))
           (\<lambda>_. reply renamed (if renamed then ''renamed table '' @ a else ''rename failed''))
           (s\<lparr>ex_database := Some db'\<rparr>))" for db
    by (cases "Database_renameTable a b db"; cases "snd (Database_renameTable a b db)")
      (auto simp: mirrors_set mirrors_logged intro: mirrors_set[OF mirrors_throw])
  then show ?thesis unfolding executeRenameTable_def by (intro mirrors_with_database)
qed

lemma mirrors_createIndex: "mirrors (executeCreateIndex name table column)"
  unfolding executeCreateIndex_def
proof (rule mirrors_table)
  fix t s r s' x
  assume "shadow s r"
    and "(case Table_createIndex name column t of
             (created, t') \<Rightarrow>
               act_bind (append_if created WalCreateIndex (createIndexSql name table column))
                 (\<lambda>_. reply created
                   (if created then ''created index '' @ name else ''index creation failed''))
                 (put_table table t' s)) = (s', Inr x)"
  then show "\<exists>r'. (case Table_createIndex name column t of
             (created, t') \<Rightarrow>
               act_bind (append_if created WalCreateIndex (createIndexSql name table column))
                 (\<lambda>_. reply created
                   (if created then ''created index '' @ name else ''index creation failed''))
                 (put_table table t' r)) = (r', Inr x) \<and> shadow s' r'"
    using mirrorsD[OF mirrors_logged shadow_put] by (cases "Table_createIndex name column t") auto
qed

lemma finish_change_mirrors:
  assumes "shadow s r" and "finish_change table op sql verb result s = (s', Inr x)"
  shows "\<exists>r'. finish_change table op sql verb result r = (r', Inr x) \<and> shadow s' r'"
  using assms mirrorsD[OF mirrors_logged shadow_put[OF assms(1)]]
  by (cases result; cases "snd result") (auto simp: finish_change_def)

lemma mirrors_update: "mirrors (executeUpdate command)"
  unfolding executeUpdate_def
  by (rule mirrors_table) (auto simp: throw_error_def Let_def finish_change_mirrors split: option.splits)

lemma mirrors_delete: "mirrors (executeDelete table cond)"
  unfolding executeDelete_def
  by (rule mirrors_table) (auto simp: Let_def finish_change_mirrors)

end
