(* ===== verification/Logging.thy ===== *)
theory Logging
  imports Mirrors
begin

text \<open>
  What a statement appends to the log: \<open>logs es s s'\<close> says that exactly the records \<open>es\<close> were added
  and nothing else in the directory changed, \<open>logging\<close> that a handler adds its one record when it
  changed the database and none when it did not.
\<close>

section \<open>What a statement appends to the log\<close>

definition entry :: "wal_record \<Rightarrow> wal_operation \<times> string" where
  "entry r = (wr_operation r, wr_payload r)"

definition entries_fit :: "(wal_operation \<times> string) list \<Rightarrow> bool" where
  "entries_fit es \<longleftrightarrow> list_all (\<lambda>(op, payload). wal_op_ok op \<and> length_ok payload) es"

text \<open>
  From \<open>s\<close> to \<open>s'\<close> the records \<open>es\<close> were appended; no other file was created, and none changed.
\<close>

definition logs :: "(wal_operation \<times> string) list \<Rightarrow> executor \<Rightarrow> executor \<Rightarrow> bool" where
  "logs es s s' \<longleftrightarrow>
     (\<forall>k rs. wal_ok k rs (ex_wal s) (ex_disk s) \<longrightarrow> k + length es < 2 ^ 64 \<longrightarrow> entries_fit es \<longrightarrow>
        (\<exists>rs'. wal_ok (k + length es) (rs @ rs') (ex_wal s') (ex_disk s') \<and> map entry rs' = es)) \<and>
     fst ` set (dk_files (ex_disk s')) \<subseteq> insert walFile (fst ` set (dk_files (ex_disk s))) \<and>
     (\<forall>f bs. f \<noteq> walFile \<longrightarrow> disk_read f (ex_disk s) = Some bs \<longrightarrow> disk_read f (ex_disk s') = Some bs)"

lemma logsD:
  "logs es s s' \<Longrightarrow> wal_ok k rs (ex_wal s) (ex_disk s) \<Longrightarrow> k + length es < 2 ^ 64 \<Longrightarrow> entries_fit es \<Longrightarrow>
   \<exists>rs'. wal_ok (k + length es) (rs @ rs') (ex_wal s') (ex_disk s') \<and> map entry rs' = es"
  unfolding logs_def by blast

lemma logs_none: "ex_wal s' = ex_wal s \<Longrightarrow> ex_disk s' = ex_disk s \<Longrightarrow> logs [] s s'"
  by (auto simp: logs_def)

lemma logs_cong:
  "logs es s s' \<Longrightarrow> ex_wal s1 = ex_wal s \<Longrightarrow> ex_disk s1 = ex_disk s \<Longrightarrow> ex_wal s1' = ex_wal s' \<Longrightarrow>
   ex_disk s1' = ex_disk s' \<Longrightarrow> logs es s1 s1'"
  by (simp add: logs_def)

lemma logs_append:
  assumes "logs es s s1" and "logs es' s1 s2"
  shows "logs (es @ es') s s2"
  unfolding logs_def
proof (intro conjI allI impI)
  fix k rs
  assume wal: "wal_ok k rs (ex_wal s) (ex_disk s)" and room: "k + length (es @ es') < 2 ^ 64"
    and fit: "entries_fit (es @ es')"
  then have "k + length es < 2 ^ 64" "entries_fit es" "entries_fit es'" by (simp_all add: entries_fit_def)
  with assms(1) wal obtain rs1 where
    rs1: "wal_ok (k + length es) (rs @ rs1) (ex_wal s1) (ex_disk s1)" "map entry rs1 = es"
    unfolding logs_def by blast
  have "k + length es + length es' < 2 ^ 64" using room by simp
  with assms(2) rs1(1) \<open>entries_fit es'\<close> obtain rs2 where
    rs2: "wal_ok (k + length es + length es') ((rs @ rs1) @ rs2) (ex_wal s2) (ex_disk s2)" "map entry rs2 = es'"
    unfolding logs_def by blast
  with rs1 show "\<exists>rs'. wal_ok (k + length (es @ es')) (rs @ rs') (ex_wal s2) (ex_disk s2) \<and> map entry rs' = es @ es'"
    by (intro exI[of _ "rs1 @ rs2"]) (simp add: add.assoc)
next
  have "fst ` set (dk_files (ex_disk s1)) \<subseteq> insert walFile (fst ` set (dk_files (ex_disk s)))"
    "fst ` set (dk_files (ex_disk s2)) \<subseteq> insert walFile (fst ` set (dk_files (ex_disk s1)))"
    using assms by (simp_all add: logs_def)
  then show "fst ` set (dk_files (ex_disk s2)) \<subseteq> insert walFile (fst ` set (dk_files (ex_disk s)))"
    by (elim order_trans) (simp add: insert_mono)
next
  fix f bs assume f: "f \<noteq> walFile" "disk_read f (ex_disk s) = Some bs"
  have "disk_read f (ex_disk s1) = Some bs" using assms(1) f by (simp add: logs_def)
  then show "disk_read f (ex_disk s2) = Some bs" using assms(2) f(1) by (simp add: logs_def)
qed

lemma append_writes:
  assumes "WriteAheadLog_append op payload w d = ((w', d'), Inr lsn)"
  shows "\<exists>bs. d' = disk_write walFile bs (disk_create_directories d)"
  using assms unfolding WriteAheadLog_append_def Let_def
  by (auto split: sum.splits log_device.splits)

lemma appendWal_logs:
  assumes "\<not> ex_replaying s" and "appendWal op payload s = (s', Inr ())"
  shows "logs [(op, payload)] s s' \<and> ex_database s' = ex_database s \<and> \<not> ex_replaying s'"
proof -
  from assms obtain lsn w d where app: "WriteAheadLog_append op payload (ex_wal s) (ex_disk s) = ((w, d), Inr lsn)"
    and s': "s' = s\<lparr>ex_wal := w, ex_disk := d\<rparr>"
    by (auto simp: appendWal_def split: prod.splits sum.splits)
  obtain bs where d: "d = disk_write walFile bs (disk_create_directories (ex_disk s))"
    using append_writes[OF app] by blast
  then have "dk_files d = AList.update walFile bs (dk_files (ex_disk s))"
    by (simp add: disk_write_def disk_create_directories_def)
  then have "fst ` set (dk_files d) \<subseteq> insert walFile (fst ` set (dk_files (ex_disk s)))"
    using dom_update[of walFile bs "dk_files (ex_disk s)"] by (simp add: dom_map_of_conv_image_fst)
  moreover have "disk_read f d = Some bs" if "f \<noteq> walFile" "disk_read f (ex_disk s) = Some bs" for f bs
    using disk_read_create[OF that(2)] that(1) by (simp add: d)
  moreover have "\<exists>rs'. wal_ok (k + 1) (rs @ rs') w d \<and> map entry rs' = [(op, payload)]"
    if "wal_ok k rs (ex_wal s) (ex_disk s)" "k + 1 < 2 ^ 64" "entries_fit [(op, payload)]" for k rs
    using wal_append_spec[OF that(1) _ _ that(2), of payload op] that(3) app
    by (auto simp: entries_fit_def entry_def intro!: exI[of _ "[\<lparr>wr_lsn = lsn, wr_operation = op, wr_payload = payload\<rparr>]"])
  ultimately show ?thesis using assms(1) s' by (simp add: logs_def)
qed

text \<open>A handler that logs one record when it changed the database.\<close>

definition logging :: "wal_operation \<Rightarrow> string \<Rightarrow> 'a action \<Rightarrow> bool" where
  "logging op sql m \<longleftrightarrow> (\<forall>s s' x. \<not> ex_replaying s \<longrightarrow> m s = (s', Inr x) \<longrightarrow> \<not> ex_replaying s' \<and>
     (logs [] s s' \<and> ex_database s' = ex_database s \<or> logs [(op, sql)] s s'))"

lemma loggingD:
  "logging op sql m \<Longrightarrow> \<not> ex_replaying s \<Longrightarrow> m s = (s', Inr x) \<Longrightarrow> \<not> ex_replaying s' \<and>
     (logs [] s s' \<and> ex_database s' = ex_database s \<or> logs [(op, sql)] s s')"
  unfolding logging_def by fast

lemma logged_change:
  assumes "\<not> ex_replaying s" and "ex_wal s1 = ex_wal s" and "ex_disk s1 = ex_disk s" and "ex_replaying s1 = ex_replaying s"
    and "\<not> b \<Longrightarrow> ex_database s1 = ex_database s"
    and "act_bind (append_if b op sql) (\<lambda>_. reply c msg) s1 = (s', Inr x)"
  shows "\<not> ex_replaying s' \<and> (logs [] s s' \<and> ex_database s' = ex_database s \<or> logs [(op, sql)] s s')"
proof (cases b)
  case False
  then have s': "s' = s1" using assms(6) by (simp add: append_if_def act_bind_def reply_def)
  show ?thesis using assms(1-5) False logs_none[of s1 s] by (simp add: s')
next
  case True
  then have app: "appendWal op sql s1 = (s', Inr ())"
    using assms(6) by (auto simp: append_if_def act_bind_def reply_def split: prod.splits sum.splits)
  have "\<not> ex_replaying s1" using assms(1,4) by simp
  from appendWal_logs[OF this app] have "logs [(op, sql)] s1 s'" "\<not> ex_replaying s'" by simp_all
  then show ?thesis using logs_cong[of "[(op, sql)]" s1 s' s s'] assms(2,3) by simp
qed

lemma logging_with_database:
  "(\<And>db s s' x. ex_database s = Some db \<Longrightarrow> \<not> ex_replaying s \<Longrightarrow> f db s = (s', Inr x) \<Longrightarrow> \<not> ex_replaying s' \<and>
     (logs [] s s' \<and> ex_database s' = ex_database s \<or> logs [(op, sql)] s s')) \<Longrightarrow>
   logging op sql (with_database f)"
  unfolding logging_def with_database_def by (auto simp: reply_def logs_none split: option.splits)

lemma logging_createTable: "logging WalCreateTable (createTableSql name columns) (executeCreateTable name columns)"
  unfolding executeCreateTable_def
proof (rule logging_with_database)
  fix db s s' x
  assume db: "ex_database s = Some db" and live: "\<not> ex_replaying s"
    and run: "(case Database_createTable name columns db of
        Inl e \<Rightarrow> (s, Inl e)
      | Inr (created, db') \<Rightarrow>
          act_bind (append_if created WalCreateTable (createTableSql name columns))
            (\<lambda>_. reply created (if created then ''created table '' @ name else ''table already exists''))
            (s\<lparr>ex_database := Some db'\<rparr>)) = (s', Inr x)"
  then obtain created db' where create: "Database_createTable name columns db = Inr (created, db')"
    by (auto split: sum.splits)
  have same: "\<not> created \<Longrightarrow> db' = db" using create Database_createTable_taken by auto
  show "\<not> ex_replaying s' \<and> (logs [] s s' \<and> ex_database s' = ex_database s \<or>
      logs [(WalCreateTable, createTableSql name columns)] s s')"
    by (rule logged_change[OF live _ _ _ _ run[unfolded create sum.case prod.case]]) (use db same in auto)
qed

lemma logging_dropTable: "logging WalDropTable (dropTableSql name) (executeDropTable name)"
  unfolding executeDropTable_def
proof (rule logging_with_database)
  fix db s s' x
  assume db: "ex_database s = Some db" and live: "\<not> ex_replaying s"
    and run: "(case Database_dropTable name db of
        (dropped, db') \<Rightarrow>
          act_bind (append_if dropped WalDropTable (dropTableSql name))
            (\<lambda>_. reply dropped (if dropped then ''dropped table '' @ name else ''unknown table''))
            (s\<lparr>ex_database := Some db'\<rparr>)) = (s', Inr x)"
  obtain dropped db' where drop: "Database_dropTable name db = (dropped, db')" by fastforce
  have same: "\<not> dropped \<Longrightarrow> db' = db" using drop Database_dropTable_unknown by auto
  show "\<not> ex_replaying s' \<and> (logs [] s s' \<and> ex_database s' = ex_database s \<or>
      logs [(WalDropTable, dropTableSql name)] s s')"
    by (rule logged_change[OF live _ _ _ _ run[unfolded drop prod.case]]) (use db same in auto)
qed

lemma logging_renameTable: "logging WalRenameTable (renameTableSql a b) (executeRenameTable a b)"
  unfolding executeRenameTable_def
proof (rule logging_with_database)
  fix db s s' x
  assume db: "ex_database s = Some db" and live: "\<not> ex_replaying s"
    and run: "(case Database_renameTable a b db of
        (db', Inl e) \<Rightarrow> (s\<lparr>ex_database := Some db'\<rparr>, Inl e)
      | (db', Inr renamed) \<Rightarrow>
          act_bind (append_if renamed WalRenameTable (renameTableSql a b))
            (\<lambda>_. reply renamed (if renamed then ''renamed table '' @ a else ''rename failed''))
            (s\<lparr>ex_database := Some db'\<rparr>)) = (s', Inr x)"
  then obtain db' renamed where ren: "Database_renameTable a b db = (db', Inr renamed)"
    by (auto split: prod.splits sum.splits)
  have same: "\<not> renamed \<Longrightarrow> db' = db" using ren Database_renameTable_no by auto
  show "\<not> ex_replaying s' \<and> (logs [] s s' \<and> ex_database s' = ex_database s \<or>
      logs [(WalRenameTable, renameTableSql a b)] s s')"
    by (rule logged_change[OF live _ _ _ _ run[unfolded ren prod.case sum.case]]) (use db same in auto)
qed

lemma requireTable_put_same:
  "requireTable name s = Inr t \<Longrightarrow> ex_database (put_table name t s) = ex_database s"
  by (auto simp: requireTable_def put_table_def Database_putTable_same split: option.splits)

lemma put_table_frame [simp]:
  "ex_wal (put_table name t s) = ex_wal s" "ex_disk (put_table name t s) = ex_disk s"
  "ex_replaying (put_table name t s) = ex_replaying s"
  by (simp_all add: put_table_def)

lemma logging_createIndex:
  "logging WalCreateIndex (createIndexSql name table column) (executeCreateIndex name table column)"
  unfolding logging_def
proof (intro allI impI)
  fix s s' x
  assume live: "\<not> ex_replaying s" and run: "executeCreateIndex name table column s = (s', Inr x)"
  then obtain t where t: "requireTable table s = Inr t" by (auto simp: executeCreateIndex_def split: sum.splits)
  obtain created t' where create: "Table_createIndex name column t = (created, t')" by fastforce
  have same: "ex_database (put_table table t' s) = ex_database s" if "\<not> created"
    using that create Table_createIndex_no requireTable_put_same[OF t] by auto
  show "\<not> ex_replaying s' \<and> (logs [] s s' \<and> ex_database s' = ex_database s \<or>
      logs [(WalCreateIndex, createIndexSql name table column)] s s')"
    by (rule logged_change[OF live _ _ _ same run[unfolded executeCreateIndex_def t create sum.case prod.case]]) auto
qed

lemma Table_update_False: "Table_update i c v t = Inr (False, t') \<Longrightarrow> t' = t"
  by (auto simp: Table_update_def ebind_eq_Inr Let_def PageRowStore_update_def PageRowStore_size_def
      split: if_splits option.splits prod.splits)

lemma Table_erase_False: "Table_erase i t = Inr (False, t') \<Longrightarrow> t' = t"
  by (auto simp: Table_erase_def ebind_eq_Inr Let_def PageRowStore_erase_def PageRowStore_size_def
      split: if_splits)

lemma update_loop_count:
  "update_loop cond c v snap ids m t = (t', Inr n) \<Longrightarrow> m \<le> n \<and> (n = m \<longrightarrow> t' = t)"
proof (induction ids arbitrary: m t)
  case Nil
  then show ?case by simp
next
  case (Cons i ids)
  from Cons.prems consider (skip) "selected cond t (snap ! i) = Inr False" "update_loop cond c v snap ids m t = (t', Inr n)"
    | (change) b t1 where "Table_update i c v t = Inr (b, t1)"
        "update_loop cond c v snap ids (if b then m + 1 else m) t1 = (t', Inr n)"
    by (auto split: sum.splits bool.splits prod.splits)
  then show ?case
  proof cases
    case skip
    then show ?thesis using Cons.IH[OF skip(2)] by simp
  next
    case change
    then show ?thesis using Cons.IH[OF change(2)] Table_update_False[of i c v t t1] by (cases b) auto
  qed
qed

lemma delete_loop_count:
  "delete_loop cond snap ids m t = (t', Inr n) \<Longrightarrow> m \<le> n \<and> (n = m \<longrightarrow> t' = t)"
proof (induction ids arbitrary: m t)
  case Nil
  then show ?case by simp
next
  case (Cons i ids)
  from Cons.prems consider (skip) "selected cond t (snap ! i) = Inr False" "delete_loop cond snap ids m t = (t', Inr n)"
    | (change) b t1 where "Table_erase i t = Inr (b, t1)"
        "delete_loop cond snap ids (if b then m + 1 else m) t1 = (t', Inr n)"
    by (auto split: sum.splits bool.splits prod.splits)
  then show ?case
  proof cases
    case skip
    then show ?thesis using Cons.IH[OF skip(2)] by simp
  next
    case change
    then show ?thesis using Cons.IH[OF change(2)] Table_erase_False[of i t t1] by (cases b) auto
  qed
qed

lemma logging_finish_change:
  assumes live: "\<not> ex_replaying s" and t: "requireTable table s = Inr t"
    and same: "\<And>t'. result = (t', Inr 0) \<Longrightarrow> t' = t"
    and run: "finish_change table op sql verb result s = (s', Inr x)"
  shows "\<not> ex_replaying s' \<and> (logs [] s s' \<and> ex_database s' = ex_database s \<or> logs [(op, sql)] s s')"
proof -
  obtain t' n where result: "result = (t', Inr n)"
    using run by (auto simp: finish_change_def split: prod.splits sum.splits)
  have "ex_database (put_table table t' s) = ex_database s" if "\<not> n \<noteq> 0"
    using that same[of t'] result requireTable_put_same[OF t] by simp
  from logged_change[OF live _ _ _ this run[unfolded finish_change_def result prod.case sum.case]]
  show ?thesis by simp
qed

lemma logging_update: "logging WalUpdate (updateSql command) (executeUpdate command)"
  unfolding logging_def
proof (intro allI impI)
  fix s s' x
  assume live: "\<not> ex_replaying s" and run: "executeUpdate command s = (s', Inr x)"
  then obtain t target where t: "requireTable (upd_table command) s = Inr t"
    and target: "Table_columnIndex (upd_column command) t = Some target"
    by (auto simp: executeUpdate_def throw_error_def split: sum.splits option.splits)
  show "\<not> ex_replaying s' \<and> (logs [] s s' \<and> ex_database s' = ex_database s \<or>
      logs [(WalUpdate, updateSql command)] s s')"
    by (rule logging_finish_change[OF live t _ run[unfolded executeUpdate_def t sum.case target option.case Let_def]])
      (use update_loop_count in blast)
qed

lemma logging_delete: "logging WalDelete (deleteSql table cond) (executeDelete table cond)"
  unfolding logging_def
proof (intro allI impI)
  fix s s' x
  assume live: "\<not> ex_replaying s" and run: "executeDelete table cond s = (s', Inr x)"
  then obtain t where t: "requireTable table s = Inr t" by (auto simp: executeDelete_def split: sum.splits)
  show "\<not> ex_replaying s' \<and> (logs [] s s' \<and> ex_database s' = ex_database s \<or>
      logs [(WalDelete, deleteSql table cond)] s s')"
    by (rule logging_finish_change[OF live t _ run[unfolded executeDelete_def t sum.case Let_def]])
      (use delete_loop_count in blast)
qed

end
