(* ===== verification/Recovery.thy ===== *)
theory Recovery
  imports Logging
begin

text \<open>
  Crash recovery. A session of statements leaves a log that is a script of what it did: replaying
  the log does to a replaying executor what the session did to the live one (\<open>scripts\<close>). Which
  databases count as the same is the parameter of the locale \<open>replay_shadow\<close>: here equality, and in
  \<open>Likeness\<close> the same content, for an executor that starts from a snapshot.
\<close>

section \<open>Replaying a script\<close>

text \<open>Replaying changes neither the log nor the directory.\<close>

definition same_files :: "executor \<Rightarrow> executor \<Rightarrow> bool" where
  "same_files s s' \<longleftrightarrow> ex_disk s' = ex_disk s \<and> ex_wal s' = ex_wal s"

definition replays :: "platform \<Rightarrow> (wal_operation \<times> string) list \<Rightarrow> executor \<Rightarrow> executor \<Rightarrow> bool" where
  "replays pf es r r' \<longleftrightarrow> (\<forall>rs. map entry rs = es \<longrightarrow> replay pf rs r = (r', Inr ())) \<and> same_files r r'"

lemma replays_none: "replays pf [] r r"
  by (simp add: replays_def same_files_def)

lemma replay_append: "replay pf (rs @ rs') s = act_bind (replay pf rs) (\<lambda>_. replay pf rs') s"
  by (induction rs arbitrary: s)
    (auto simp: act_bind_def split: sum.splits prod.splits if_splits)

lemma replays_append:
  assumes "replays pf es r r1" and "replays pf es' r1 r2"
  shows "replays pf (es @ es') r r2"
  unfolding replays_def
proof (intro conjI allI impI)
  show "same_files r r2" using assms by (simp add: replays_def same_files_def)
  fix rs assume "map entry rs = es @ es'"
  then obtain rs1 rs2 where "rs = rs1 @ rs2" "map entry rs1 = es" "map entry rs2 = es'"
    by (auto simp: map_eq_append_conv)
  with assms show "replay pf rs r = (r2, Inr ())"
    by (simp add: replays_def replay_append act_bind_def)
qed

lemma replays_one:
  assumes "Parser_parse sql = Inr q" and "op \<noteq> WalSaveDatabase" and "op \<noteq> WalCreateDatabase"
    and "executeUnlocked pf q r = (r', Inr x)" and "same_files r r'"
  shows "replays pf [(op, sql)] r r'"
  using assms by (auto simp: replays_def entry_def map_eq_Cons_conv act_bind_def)

lemma replays_create:
  assumes "CHR '' '' \<notin> set name" and "Database_new name = Inr db"
  shows "replays pf [(WalCreateDatabase, name)] r (r\<lparr>ex_database := Some db\<rparr>)"
  using assms by (auto simp: replays_def same_files_def entry_def map_eq_Cons_conv)

text \<open>The statement appended \<open>es\<close>, and replaying \<open>es\<close> gives its database.\<close>

definition scripts ::
  "(executor \<Rightarrow> executor \<Rightarrow> bool) \<Rightarrow> platform \<Rightarrow> (wal_operation \<times> string) list \<Rightarrow> executor \<Rightarrow> executor \<Rightarrow> bool" where
  "scripts sh pf es s s' \<longleftrightarrow> logs es s s' \<and> \<not> ex_replaying s' \<and>
     (\<forall>r. sh s r \<longrightarrow> (\<exists>r'. replays pf es r r' \<and> sh s' r'))"

section \<open>Which records a statement appends\<close>

text \<open>The records a statement appends when it changes the database.\<close>

fun log_entries :: "query \<Rightarrow> (wal_operation \<times> string) list" where
  "log_entries (CreateDatabase name) = [(WalCreateDatabase, name)]"
| "log_entries (CreateTable name columns) = [(WalCreateTable, createTableSql name columns)]"
| "log_entries (DropTable name) = [(WalDropTable, dropTableSql name)]"
| "log_entries (RenameTable a b) = [(WalRenameTable, renameTableSql a b)]"
| "log_entries (Insert table rows) = map (\<lambda>r. (WalInsert, insertSql table r)) rows"
| "log_entries (Update command) = [(WalUpdate, updateSql command)]"
| "log_entries (Delete table cond) = [(WalDelete, deleteSql table cond)]"
| "log_entries (CreateIndex name table column) = [(WalCreateIndex, createIndexSql name table column)]"
| "log_entries _ = []"

text \<open>
  Statements whose effect the log records: what the parser gives, with literals that read back
  from the log, and not SAVE, LOAD, ROLLBACK (which is not logged) or EXECUTE.
\<close>

fun replayable :: "query \<Rightarrow> bool" where
  "replayable SaveDatabase \<longleftrightarrow> False"
| "replayable (LoadDatabase name) \<longleftrightarrow> False"
| "replayable RollbackTransaction \<longleftrightarrow> False"
| "replayable (ExecutePrepared name vs) \<longleftrightarrow> False"
| "replayable q \<longleftrightarrow> query_ok q \<and> literals_exact q"

lemma word_no_space: "word_text w \<Longrightarrow> CHR '' '' \<notin> set w"
  by (auto simp: word_text_def list_all_iff char_evals split: list.splits)

lemma executeUnlocked_logged:
  "executeUnlocked pf (CreateTable name columns) = executeCreateTable name columns"
  "executeUnlocked pf (DropTable name) = executeDropTable name"
  "executeUnlocked pf (RenameTable a b) = executeRenameTable a b"
  "executeUnlocked pf (Update command) = executeUpdate command"
  "executeUnlocked pf (Delete table cond) = executeDelete table cond"
  "executeUnlocked pf (CreateIndex iname table column) = executeCreateIndex iname table column"
  by (rule ext, simp)+

lemma Table_insert_validates: "Table_insert r t = Inr y \<Longrightarrow> Table_validateRow r t = Inr ()"
  by (auto simp: Table_insert_def ebind_eq_Inr)

lemma execute_insert_one:
  assumes "ex_replaying r0" and "requireTable table r0 = Inr t" and "Table_insert r t = Inr (i, t')"
  shows "\<exists>x. executeUnlocked pf (Insert table [r]) r0 = (put_table table t' r0, Inr x)"
  using assms Table_insert_validates[OF assms(3)]
  by (simp add: executeInsert_def act_bind_def appendWal_def reply_def)

text \<open>The statements that log their own text.\<close>

fun logs_itself :: "query \<Rightarrow> bool" where
  "logs_itself (CreateTable name columns) \<longleftrightarrow> True"
| "logs_itself (DropTable name) \<longleftrightarrow> True"
| "logs_itself (RenameTable a b) \<longleftrightarrow> True"
| "logs_itself (Update command) \<longleftrightarrow> True"
| "logs_itself (Delete table cond) \<longleftrightarrow> True"
| "logs_itself (CreateIndex name table column) \<longleftrightarrow> True"
| "logs_itself q \<longleftrightarrow> False"

lemma replaying_append: "ex_replaying r \<Longrightarrow> append_if b op payload r = (r, Inr ())"
  by (simp add: append_if_def appendWal_def)

lemma replaying_same_files:
  assumes "logs_itself q" and "ex_replaying r" and "executeUnlocked pf q r = (r', y)"
  shows "same_files r r'"
  using assms
  by (cases q) (auto simp: executeUnlocked_logged handlers replaying_append reply_def put_table_def same_files_def Let_def
      split: option.splits sum.splits prod.splits)

lemma logs_itself_logging:
  assumes "logs_itself q"
  shows "\<exists>op sql. statement_text q = Some sql \<and> log_entries q = [(op, sql)] \<and>
    logging op sql (executeUnlocked pf q) \<and> op \<noteq> WalSaveDatabase \<and> op \<noteq> WalCreateDatabase"
  using assms logging_createTable logging_dropTable logging_renameTable logging_update logging_delete
    logging_createIndex
  by (cases q) (auto simp: executeUnlocked_logged)

text \<open>
  A client's calls in order: the state after the last one, when every call returned a result and
  none threw.
\<close>

fun session :: "platform \<Rightarrow> query list \<Rightarrow> executor \<Rightarrow> executor option" where
  "session pf [] s = Some s"
| "session pf (q # qs) s =
     (case execute pf q s of
        Some (s', Inr _) \<Rightarrow> session pf qs s'
      | _ \<Rightarrow> None)"

lemma replayable_execute: "replayable q \<Longrightarrow> execute pf q s = Some (executeUnlocked pf q s)"
  by (rule execute_other) (auto simp: is_execute_def split: query.splits)

section \<open>Sessions as scripts\<close>

text \<open>
  The contract of a relation between a live and a replaying executor: it only depends on the
  database of the live one, and what succeeds on the live one succeeds on the replaying one, with
  related states.
\<close>

locale replay_shadow =
  fixes sh :: "executor \<Rightarrow> executor \<Rightarrow> bool"
  assumes sh_replaying: "sh s r \<Longrightarrow> ex_replaying r"
    and sh_cong: "sh s r \<Longrightarrow> ex_database s' = ex_database s \<Longrightarrow> sh s' r"
    and sh_create: "sh s r \<Longrightarrow> Database_new name = Inr db \<Longrightarrow>
      sh (s\<lparr>ex_database := Some db\<rparr>) (r\<lparr>ex_database := Some db\<rparr>)"
    and sh_insert: "sh s r \<Longrightarrow> requireTable table s = Inr t \<Longrightarrow> \<forall>v \<in> set row. value_ok v \<Longrightarrow>
      Table_insert row t = Inr (i, t') \<Longrightarrow>
      \<exists>u u'. requireTable table r = Inr u \<and> Table_insert row u = Inr (i, u') \<and>
        sh (put_table table t' s) (put_table table u' r)"
    and sh_statement: "sh s r \<Longrightarrow> logs_itself q \<Longrightarrow> query_ok q \<Longrightarrow> executeUnlocked pf q s = (s', Inr x) \<Longrightarrow>
      \<exists>r'. executeUnlocked pf q r = (r', Inr x) \<and> sh s' r'"
begin

lemma scripts_none:
  "\<not> ex_replaying s' \<Longrightarrow> logs [] s s' \<Longrightarrow> ex_database s' = ex_database s \<Longrightarrow> scripts sh pf [] s s'"
  unfolding scripts_def using replays_none sh_cong by blast

lemma scripts_append:
  assumes "scripts sh pf es s s1" and "scripts sh pf es' s1 s2"
  shows "scripts sh pf (es @ es') s s2"
  unfolding scripts_def
proof (intro conjI allI impI)
  show "logs (es @ es') s s2" using assms logs_append by (auto simp: scripts_def)
  show "\<not> ex_replaying s2" using assms by (simp add: scripts_def)
  fix r assume "sh s r"
  with assms obtain r1 r2 where "replays pf es r r1" "replays pf es' r1 r2" "sh s2 r2"
    unfolding scripts_def by blast
  then show "\<exists>r'. replays pf (es @ es') r r' \<and> sh s2 r'" using replays_append by blast
qed

lemma logged_scripts:
  assumes "logs_itself q" and "query_ok q" and "literals_exact q" and "\<not> ex_replaying s"
    and "executeUnlocked pf q s = (s', Inr x)"
  shows "scripts sh pf [] s s' \<or> scripts sh pf (log_entries q) s s'"
proof -
  obtain op sql where q: "statement_text q = Some sql" "log_entries q = [(op, sql)]"
    "logging op sql (executeUnlocked pf q)" "op \<noteq> WalSaveDatabase" "op \<noteq> WalCreateDatabase"
    using logs_itself_logging[OF assms(1)] by blast
  from loggingD[OF q(3) assms(4,5)] have live: "\<not> ex_replaying s'"
    and "logs [] s s' \<and> ex_database s' = ex_database s \<or> logs [(op, sql)] s s'" by auto
  then consider "logs [] s s'" "ex_database s' = ex_database s" | "logs [(op, sql)] s s'" by blast
  then show ?thesis
  proof cases
    case 1
    then show ?thesis using scripts_none[OF live] by simp
  next
    case 2
    have parse: "Parser_parse sql = Inr q" by (rule parse_statement_text[OF assms(2,3) q(1)])
    have "\<exists>r'. replays pf [(op, sql)] r r' \<and> sh s' r'" if "sh s r" for r
      using sh_statement[OF that assms(1,2,5)] replays_one[OF parse q(4,5)]
        replaying_same_files[OF assms(1) sh_replaying[OF that]] by blast
    with 2 live q(2) show ?thesis by (simp add: scripts_def)
  qed
qed

lemma scripts_insert_loop:
  assumes "\<not> ex_replaying s" and "\<forall>r \<in> set rows. Parser_parse (insertSql table r) = Inr (Insert table [r])"
    and "\<forall>r \<in> set rows. \<forall>v \<in> set r. value_ok v" and "insert_loop table rows s = (s', Inr ())"
  shows "scripts sh pf (map (\<lambda>r. (WalInsert, insertSql table r)) rows) s s'"
  using assms
proof (induction rows arbitrary: s)
  case Nil
  then show ?case by (auto intro: scripts_none logs_none)
next
  case (Cons r rows)
  from Cons.prems(4) obtain s1 t i t' where app: "appendWal WalInsert (insertSql table r) s = (s1, Inr ())"
    and t: "requireTable table s1 = Inr t" "Table_insert r t = Inr (i, t')"
    and rest: "insert_loop table rows (put_table table t' s1) = (s', Inr ())"
    by (auto simp: act_bind_def ebind_eq_Inr split: prod.splits sum.splits)
  note wal = appendWal_logs[OF Cons.prems(1) app]
  let ?s2 = "put_table table t' s1"
  have vals: "\<forall>v \<in> set r. value_ok v" and parse: "Parser_parse (insertSql table r) = Inr (Insert table [r])"
    using Cons.prems(2,3) by simp_all
  have "\<exists>r'. replays pf [(WalInsert, insertSql table r)] r0 r' \<and> sh ?s2 r'" if "sh s r0" for r0
  proof -
    have "sh s1 r0" using sh_cong[OF that] wal by simp
    from sh_insert[OF this t(1) vals t(2)] obtain u u' where u: "requireTable table r0 = Inr u"
      "Table_insert r u = Inr (i, u')" "sh ?s2 (put_table table u' r0)" by blast
    from execute_insert_one[OF sh_replaying[OF that] u(1,2)] obtain x where
      "executeUnlocked pf (Insert table [r]) r0 = (put_table table u' r0, Inr x)" by blast
    from replays_one[OF parse _ _ this] u(3) show ?thesis by (auto simp: same_files_def put_table_def)
  qed
  moreover have "logs [(WalInsert, insertSql table r)] s ?s2"
    using wal logs_cong[of "[(WalInsert, insertSql table r)]" s s1 s ?s2] by simp
  ultimately have one: "scripts sh pf [(WalInsert, insertSql table r)] s ?s2" using wal by (simp add: scripts_def)
  have "scripts sh pf (map (\<lambda>r. (WalInsert, insertSql table r)) rows) ?s2 s'"
    using Cons.IH[OF _ _ _ rest] Cons.prems(2,3) wal by simp
  from scripts_append[OF one this] show ?case by simp
qed

lemma scripts_create:
  assumes "\<not> ex_replaying s" and "word_text name" and "executeCreateDatabase name s = (s', Inr x)"
  shows "scripts sh pf [(WalCreateDatabase, name)] s s'"
proof -
  obtain s1 db where app: "appendWal WalCreateDatabase name s = (s1, Inr ())"
    and db: "Database_new name = Inr db" and s': "s' = s1\<lparr>ex_database := Some db\<rparr>"
    using assms(3) by (auto simp: executeCreateDatabase_def act_bind_def reply_def split: prod.splits sum.splits)
  note wal = appendWal_logs[OF assms(1) app]
  have "logs [(WalCreateDatabase, name)] s s'"
    using wal logs_cong[of "[(WalCreateDatabase, name)]" s s1 s s'] by (simp add: s')
  moreover have "\<exists>r'. replays pf [(WalCreateDatabase, name)] r r' \<and> sh s' r'" if "sh s r" for r
    using replays_create[OF word_no_space[OF assms(2)] db, of pf r] sh_create[OF that db]
      sh_cong[of "s\<lparr>ex_database := Some db\<rparr>" _ s'] by (auto simp: s')
  ultimately show ?thesis using wal s' by (simp add: scripts_def)
qed

lemma executeSession_same:
  assumes "executeUnlocked pf q s = (s', y)" and "\<not> ex_replaying s"
    and "q \<in> {ListTables, BeginTransaction, CommitTransaction, Exit} \<or> (\<exists>c. q = Select c) \<or>
      (\<exists>n sql. q = PrepareStatement n sql)"
  shows "scripts sh pf [] s s'"
proof (rule scripts_none)
  have same: "ex_database s' = ex_database s \<and> ex_wal s' = ex_wal s \<and> ex_disk s' = ex_disk s \<and>
      ex_replaying s' = ex_replaying s"
    using assms(1,3)
    by (auto simp: executeBegin_def executeCommit_def executePrepare_def with_database_def reply_def Let_def
        split: option.splits if_splits sum.splits prod.splits)
  then show "\<not> ex_replaying s'" "ex_database s' = ex_database s" using assms(2) by simp_all
  show "logs [] s s'" using same by (intro logs_none) simp_all
qed

lemma statement_scripts:
  assumes q: "replayable q" and live: "\<not> ex_replaying s" and run: "executeUnlocked pf q s = (s', Inr x)"
  shows "scripts sh pf [] s s' \<or> scripts sh pf (log_entries q) s s'"
proof (cases "logs_itself q")
  case True
  then have "query_ok q" "literals_exact q" using q by (cases q; simp)+
  from logged_scripts[OF True this live run] show ?thesis .
next
  case False
  show ?thesis
  proof (cases q)
    case (CreateDatabase name)
    then show ?thesis using scripts_create[OF live, of name s' x] q run by simp
  next
    case (Insert table rows)
    have parses: "\<forall>r \<in> set rows. Parser_parse (insertSql table r) = Inr (Insert table [r])"
      using q Insert parse_statement_text[of "Insert table [r]" "insertSql table r" for r]
      by (auto simp: literals_exact_def)
    have vals: "\<forall>r \<in> set rows. \<forall>v \<in> set r. value_ok v" using q Insert by (auto simp: row_wf_def)
    obtain s1 where "insert_loop table rows s = (s', Inr ())"
      using run Insert by (auto simp: executeInsert_def act_bind_def reply_def split: sum.splits prod.splits)
    from scripts_insert_loop[OF live parses vals this] show ?thesis by (simp add: Insert)
  qed (use executeSession_same[OF run live] q False in auto)
qed

lemma session_scripts:
  assumes "list_all replayable qs" and "\<not> ex_replaying s" and "session pf qs s = Some s'"
  shows "\<exists>es. scripts sh pf es s s' \<and> length es \<le> length (concat (map log_entries qs)) \<and>
    set es \<subseteq> set (concat (map log_entries qs))"
  using assms
proof (induction qs arbitrary: s)
  case Nil
  then show ?case by (auto intro: exI[of _ "[]"] scripts_none logs_none)
next
  case (Cons q qs)
  have q: "replayable q" and qs: "list_all replayable qs" using Cons.prems(1) by simp_all
  obtain s1 x where run: "executeUnlocked pf q s = (s1, Inr x)" and rest: "session pf qs s1 = Some s'"
    using Cons.prems(3) by (auto simp: replayable_execute[OF q] split: prod.splits sum.splits)
  obtain es where one: "scripts sh pf es s s1" "es = [] \<or> es = log_entries q"
    using statement_scripts[OF q Cons.prems(2) run] by blast
  then have "\<not> ex_replaying s1" by (simp add: scripts_def)
  from Cons.IH[OF qs this rest] obtain es' where "scripts sh pf es' s1 s'"
    "length es' \<le> length (concat (map log_entries qs))" "set es' \<subseteq> set (concat (map log_entries qs))"
    by blast
  with scripts_append[OF one(1)] one(2) show ?case
    by (intro exI[of _ "es @ es'"]) auto
qed

text \<open>The log a session leaves, as records that replay it.\<close>

lemma session_log:
  assumes qs: "list_all replayable qs" and live: "\<not> ex_replaying s0" and run: "session pf qs s0 = Some s"
    and wal: "wal_ok 1 [] (ex_wal s0) (ex_disk s0)"
    and fit: "entries_fit (concat (map log_entries qs))" and room: "length (concat (map log_entries qs)) + 1 < 2 ^ 64"
  shows "\<exists>rs es. WriteAheadLog_readAll (ex_disk s) = Inr rs \<and> map entry rs = es \<and> logs es s0 s \<and>
    set es \<subseteq> set (concat (map log_entries qs)) \<and> (\<forall>r. sh s0 r \<longrightarrow> (\<exists>r'. replay pf rs r = (r', Inr ()) \<and> sh s r'))"
proof -
  obtain es where es: "scripts sh pf es s0 s" "length es \<le> length (concat (map log_entries qs))"
      "set es \<subseteq> set (concat (map log_entries qs))"
    using session_scripts[OF qs live run] by blast
  have "entries_fit es" using es(3) fit unfolding entries_fit_def list_all_iff by blast
  moreover have "1 + length es < 2 ^ 64" using es(2) room by simp
  ultimately obtain rs where log: "wal_ok (1 + length es) rs (ex_wal s) (ex_disk s)" "map entry rs = es"
    using logsD[of es s0 s 1 "[]"] es(1) wal by (auto simp: scripts_def)
  have read: "WriteAheadLog_readAll (ex_disk s) = Inr rs"
    using log(1) readAll_file_ok by (simp add: wal_ok_def)
  have "\<exists>r'. replay pf rs r = (r', Inr ()) \<and> sh s r'" if "sh s0 r" for r
    using es(1) that log(2) unfolding scripts_def replays_def by blast
  moreover have "logs es s0 s" using es(1) by (simp add: scripts_def)
  ultimately show ?thesis using read log(2) es(3) by blast
qed

end

text \<open>Equality of the databases is such a relation.\<close>

lemma mirrors_logged_statement: "logs_itself q \<Longrightarrow> mirrors (executeUnlocked pf q)"
  by (cases q) (simp_all add: executeUnlocked_logged mirrors_createTable mirrors_dropTable
      mirrors_renameTable mirrors_update mirrors_delete mirrors_createIndex)

interpretation exact: replay_shadow shadow
proof unfold_locales
  fix s r s' table t row i t' q pf x
  assume sh: "shadow s r"
  show "ex_replaying r" using sh by (simp add: shadow_def)
  show "ex_database s' = ex_database s \<Longrightarrow> shadow s' r" using sh by (simp add: shadow_def)
  show "shadow (s\<lparr>ex_database := Some db\<rparr>) (r\<lparr>ex_database := Some db\<rparr>)" for db using sh by (simp add: shadow_def)
  show "requireTable table s = Inr t \<Longrightarrow> Table_insert row t = Inr (i, t') \<Longrightarrow>
      \<exists>u u'. requireTable table r = Inr u \<and> Table_insert row u = Inr (i, u') \<and>
        shadow (put_table table t' s) (put_table table u' r)"
    using shadow_requireTable[OF sh] shadow_put[OF sh] by auto
  show "logs_itself q \<Longrightarrow> executeUnlocked pf q s = (s', Inr x) \<Longrightarrow>
      \<exists>r'. executeUnlocked pf q r = (r', Inr x) \<and> shadow s' r'"
    using mirrorsD[OF mirrors_logged_statement sh] by blast
qed

section \<open>Recovery from the log alone\<close>

text \<open>A directory without a log and without a saved database.\<close>

definition fresh_disk :: "disk \<Rightarrow> bool" where
  "fresh_disk d \<longleftrightarrow> wal_file_ok [] d \<and>
     (\<forall>f \<in> fst ` set (dk_files d). f \<noteq> walFile \<longrightarrow> path_extension f \<noteq> kExtension)"

lemma wal_extension: "path_extension walFile \<noteq> kExtension"
  by (simp add: path_extension_def walFile_def kExtension_def)

lemma no_saved_database:
  assumes "\<forall>f \<in> fst ` set (dk_files d). f \<noteq> walFile \<longrightarrow> path_extension f \<noteq> kExtension"
    and "\<forall>xs. set (order xs) \<subseteq> set xs"
  shows "\<exists>e. StorageManager_loadFirstDatabase ltr order d = Inl e"
proof -
  have "List.find (\<lambda>f. path_extension f = kExtension) (order (map fst (dk_files d))) = None"
    using assms wal_extension by (fastforce simp: find_None_iff)
  then show ?thesis by (simp add: StorageManager_loadFirstDatabase_def)
qed

definition started :: "disk \<Rightarrow> executor" where
  "started d = \<lparr>ex_database = None, ex_snapshot = None, ex_disk = d, ex_wal = WriteAheadLog_new,
     ex_transactions = TransactionManager_new, ex_active = None, ex_prepared = [], ex_replaying = False\<rparr>"

lemma new_executor_unsaved:
  assumes "\<exists>e. StorageManager_loadFirstDatabase (pf_ltr pf) (pf_order pf) d = Inl e"
  shows "QueryExecutor_new pf d = recoverFromWal pf False (started d)"
  using assms by (auto simp: QueryExecutor_new_def recoverFromStorage_def started_def)

lemma new_executor_fresh:
  assumes "fresh_disk d" and "\<forall>xs. set (pf_order pf xs) \<subseteq> set xs"
  shows "QueryExecutor_new pf d = started d"
proof -
  have "WriteAheadLog_readAll d = Inr []" using assms(1) readAll_file_ok by (simp add: fresh_disk_def)
  then show ?thesis
    using new_executor_unsaved no_saved_database[of d "pf_order pf"] assms
    by (simp add: fresh_disk_def recoverFromWal_def started_def)
qed

lemma recovery_replays_session:
  assumes fresh: "fresh_disk d" and order: "\<forall>xs. set (pf_order pf xs) \<subseteq> set xs"
    and qs: "list_all replayable qs" and run: "session pf qs (QueryExecutor_new pf d) = Some s"
    and fit: "entries_fit (concat (map log_entries qs))"
    and room: "length (concat (map log_entries qs)) + 1 < 2 ^ 64"
  shows "ex_database (QueryExecutor_new pf (ex_disk s)) = ex_database s"
proof -
  have run': "session pf qs (started d) = Some s" using run by (simp add: new_executor_fresh[OF fresh order])
  have live: "\<not> ex_replaying (started d)" by (simp add: started_def)
  have wal: "wal_ok 1 [] (ex_wal (started d)) (ex_disk (started d))"
    using fresh by (simp add: wal_ok_def fresh_disk_def started_def WriteAheadLog_new_def)
  obtain rs es where log: "WriteAheadLog_readAll (ex_disk s) = Inr rs" "logs es (started d) s"
    "\<forall>r. shadow (started d) r \<longrightarrow> (\<exists>r'. replay pf rs r = (r', Inr ()) \<and> shadow s r')"
    using exact.session_log[OF qs live run' wal fit room] by blast
  have "\<forall>f \<in> fst ` set (dk_files (ex_disk s)). f \<noteq> walFile \<longrightarrow> path_extension f \<noteq> kExtension"
  proof -
    have "fst ` set (dk_files (ex_disk s)) \<subseteq> insert walFile (fst ` set (dk_files d))"
      using log(2) by (simp add: logs_def started_def)
    with fresh show ?thesis by (force simp: fresh_disk_def)
  qed
  from new_executor_unsaved[OF no_saved_database[OF this order]]
  have again: "QueryExecutor_new pf (ex_disk s) = recoverFromWal pf False (started (ex_disk s))" .
  let ?r = "started (ex_disk s)\<lparr>ex_replaying := True\<rparr>"
  have "shadow (started d) ?r" by (simp add: shadow_def started_def)
  with log(3) obtain r' where "replay pf rs ?r = (r', Inr ())" "shadow s r'" by blast
  then show ?thesis
    by (cases rs) (auto simp: again recoverFromWal_def started_def log(1) records_to_replay_def shadow_def)
qed

end
