(* ===== verification/ExecutorEffects.thy ===== *)
theory ExecutorEffects
  imports Effects Recovery
begin

text \<open>
  What INSERT, UPDATE and DELETE do to the state of the executor: the table is put back with its
  new rows, the log has one more record per row or statement, and nothing else changes (\<open>frame\<close>).
  \<open>can_log\<close> says that the log takes the records: their sizes and numbers fit their fields.
\<close>

section \<open>The log takes the records\<close>

definition can_log :: "(wal_operation \<times> string) list \<Rightarrow> executor \<Rightarrow> bool" where
  "can_log es s \<longleftrightarrow> ex_replaying s \<or>
     (\<exists>k rs. wal_ok k rs (ex_wal s) (ex_disk s) \<and> k + length es < 2 ^ 64 \<and> entries_fit es)"

text \<open>Two states that agree on all but the log and the directory.\<close>

definition frame :: "executor \<Rightarrow> executor \<Rightarrow> bool" where
  "frame s s' \<longleftrightarrow> s' = s\<lparr>ex_wal := ex_wal s', ex_disk := ex_disk s'\<rparr>"

lemma frame_refl [simp]: "frame s s"
  by (simp add: frame_def)

lemma frame_trans: "frame s1 s2 \<Longrightarrow> frame s2 s3 \<Longrightarrow> frame s1 s3"
  unfolding frame_def by (cases s1; cases s2; cases s3) auto

lemma frame_put: "frame s s' \<Longrightarrow> frame (put_table name t s) (put_table name t s')"
  unfolding frame_def put_table_def by (cases s; cases s') auto

lemma frame_simps:
  assumes "frame s s'"
  shows "ex_database s' = ex_database s" "ex_snapshot s' = ex_snapshot s" "ex_active s' = ex_active s"
    "ex_transactions s' = ex_transactions s" "ex_prepared s' = ex_prepared s" "ex_replaying s' = ex_replaying s"
  using assms unfolding frame_def by (cases s; cases s'; simp)+

lemma can_log_cong:
  "can_log es s \<Longrightarrow> ex_replaying s' = ex_replaying s \<Longrightarrow> ex_wal s' = ex_wal s \<Longrightarrow> ex_disk s' = ex_disk s \<Longrightarrow> can_log es s'"
  by (simp add: can_log_def)

lemma can_log_put: "can_log es (put_table name t s) = can_log es s"
  by (simp add: can_log_def)

lemma appendWal_ok:
  assumes "can_log ((op, payload) # es) s"
  shows "\<exists>s'. appendWal op payload s = (s', Inr ()) \<and> frame s s' \<and> can_log es s'"
proof (cases "ex_replaying s")
  case True
  then show ?thesis by (intro exI[of _ s]) (simp add: appendWal_def can_log_def)
next
  case False
  then obtain k rs where ok: "wal_ok k rs (ex_wal s) (ex_disk s)" "k + length ((op, payload) # es) < 2 ^ 64"
    "entries_fit ((op, payload) # es)"
    using assms by (auto simp: can_log_def)
  have fit: "length_ok payload" "wal_op_ok op" "k + 1 < 2 ^ 64" "entries_fit es" "k + 1 + length es < 2 ^ 64"
    using ok(2,3) by (simp_all add: entries_fit_def)
  obtain lsn w d where app: "WriteAheadLog_append op payload (ex_wal s) (ex_disk s) = ((w, d), Inr lsn)"
    and ok': "wal_ok (k + 1) (rs @ [\<lparr>wr_lsn = lsn, wr_operation = op, wr_payload = payload\<rparr>]) w d"
    using wal_append_spec[OF ok(1) fit(1-3)] by blast
  have "can_log es (s\<lparr>ex_wal := w, ex_disk := d\<rparr>)" unfolding can_log_def using ok' fit(4,5) by auto
  then show ?thesis
    by (intro exI[of _ "s\<lparr>ex_wal := w, ex_disk := d\<rparr>"]) (simp add: appendWal_def False app frame_def)
qed

lemma append_if_ok:
  assumes "can_log [(op, payload)] s"
  shows "\<exists>s'. append_if b op payload s = (s', Inr ()) \<and> frame s s'"
  using appendWal_ok[OF assms] by (auto simp: append_if_def)

section \<open>Tables of the state\<close>

lemma requireTable_Inr:
  "requireTable name s = Inr t \<longleftrightarrow> (\<exists>db. ex_database s = Some db \<and> Database_table name db = Some t)"
  by (auto simp: requireTable_def split: option.splits)

lemma requireTable_inv:
  "requireTable name s = Inr t \<Longrightarrow> pred_option Database_inv (ex_database s) \<Longrightarrow> Table_inv t \<and> tb_name t = name"
  using Database_table_inv by (auto simp: requireTable_Inr)

lemma requireTable_put:
  assumes "requireTable name s = Inr t" and "pred_option Database_inv (ex_database s)"
  shows "requireTable n (put_table name t' s) = (if n = name then Inr t' else requireTable n s)"
  using assms by (auto simp: requireTable_Inr) (auto simp: requireTable_def put_table_def Database_table_putTable)

lemma put_table_twice [simp]: "put_table name t (put_table name t' s) = put_table name t s"
proof -
  have "Database_putTable name t (Database_putTable name t' db) = Database_putTable name t db" for db
    using omap_alter_twice[of str_less name "\<lambda>_. t" "\<lambda>_. t'" "db_tables db"] str_order.irrefl
    by (simp add: Database_putTable_def)
  then show ?thesis by (simp add: put_table_def option.map_comp comp_def)
qed

lemma put_table_same: "requireTable name s = Inr t \<Longrightarrow> put_table name t s = s"
  by (auto simp: put_table_def requireTable_Inr Database_putTable_same)

lemma put_table_inv:
  "pred_option Database_inv (ex_database s) \<Longrightarrow> Table_inv t \<Longrightarrow> tb_name t = name \<Longrightarrow>
   pred_option Database_inv (ex_database (put_table name t s))"
  by (cases "ex_database s") (simp_all add: put_table_def Database_putTable_inv)

lemma frame_requireTable: "frame s s' \<Longrightarrow> requireTable n s' = requireTable n s"
  by (simp add: requireTable_def frame_simps)

section \<open>INSERT\<close>

lemma insert_loop_spec:
  assumes "requireTable name s = Inr t" and "pred_option Database_inv (ex_database s)"
    and "\<forall>r \<in> set rows. row_ok (tb_schema t) r"
    and "can_log (map (\<lambda>r. (WalInsert, insertSql name r)) rows) s"
  shows "\<exists>s' t'. insert_loop name rows s = (s', Inr ()) \<and> frame (put_table name t' s) s' \<and>
    Table_inv t' \<and> same_definitions t t' \<and> Table_rowsSnapshot t' = Table_rowsSnapshot t @ rows"
  using assms
proof (induction rows arbitrary: s t)
  case Nil
  then show ?case
    using requireTable_inv[OF Nil(1,2)] by (auto simp: put_table_same same_definitions_def intro!: exI[of _ s] exI[of _ t])
next
  case (Cons r rows)
  obtain s1 where app: "appendWal WalInsert (insertSql name r) s = (s1, Inr ())"
    and s1: "frame s s1" "can_log (map (\<lambda>r. (WalInsert, insertSql name r)) rows) s1"
    using appendWal_ok[of WalInsert "insertSql name r" "map (\<lambda>r. (WalInsert, insertSql name r)) rows" s]
      Cons.prems(4) by auto
  have t: "Table_inv t" "tb_name t = name" using requireTable_inv[OF Cons.prems(1,2)] by auto
  obtain t1 where ins: "Table_insert r t = Inr (length (Table_rowsSnapshot t), t1)"
    and t1: "Table_inv t1" "Table_rowsSnapshot t1 = Table_rowsSnapshot t @ [r]" "same_definitions t t1"
    using Table_insert_spec[OF t(1), of r] Cons.prems(3) by auto
  have req: "requireTable name s1 = Inr t" using Cons.prems(1) frame_requireTable[OF s1(1)] by simp
  have inv1: "pred_option Database_inv (ex_database s1)" using Cons.prems(2) frame_simps(1)[OF s1(1)] by simp
  have sch: "tb_schema t1 = tb_schema t" "tb_name t1 = name" using t1(3) t by (auto simp: same_definitions_def)
  let ?s2 = "put_table name t1 s1"
  have "requireTable name ?s2 = Inr t1" using requireTable_put[OF req inv1] by simp
  moreover have "pred_option Database_inv (ex_database ?s2)" by (rule put_table_inv[OF inv1 t1(1) sch(2)])
  ultimately obtain s' t' where rest: "insert_loop name rows ?s2 = (s', Inr ())" "frame (put_table name t' ?s2) s'"
    "Table_inv t'" "same_definitions t1 t'" "Table_rowsSnapshot t' = Table_rowsSnapshot t1 @ rows"
    using Cons.IH[of ?s2 t1] Cons.prems(3) s1(2) sch(1) by (auto simp: can_log_put)
  have "insert_loop name (r # rows) s = (s', Inr ())"
    using app req ins rest(1) by (simp add: act_bind_def)
  moreover have "frame (put_table name t' s) s'"
    using frame_trans[OF frame_put[OF s1(1)]] rest(2) by simp
  moreover have "same_definitions t t'" using t1(3) rest(4) by (simp add: same_definitions_def)
  ultimately show ?case using rest(3,5) t1(2) by auto
qed

lemma executeInsert_spec:
  assumes "requireTable name s = Inr t" and "pred_option Database_inv (ex_database s)"
    and "\<forall>r \<in> set rows. row_ok (tb_schema t) r"
    and "can_log (map (\<lambda>r. (WalInsert, insertSql name r)) rows) s"
  shows "\<exists>s' t'. executeInsert name rows s =
      (s', Inr (messageResult True (''inserted '' @ nat_text (length rows) @ '' row(s)''))) \<and>
    frame (put_table name t' s) s' \<and> Table_inv t' \<and> same_definitions t t' \<and>
    Table_rowsSnapshot t' = Table_rowsSnapshot t @ rows"
proof -
  have "efold (\<lambda>r _. Table_validateRow r t) rows () = Inr ()"
    using assms(3) validate_rows_Inr[of t rows] by (auto simp: row_ok_def)
  with insert_loop_spec[OF assms] assms(1) show ?thesis
    by (auto simp: executeInsert_def act_bind_def reply_def)
qed

lemma executeInsert_invalid:
  assumes "requireTable name s = Inr t" and "r \<in> set rows" and "\<not> row_fits (tb_schema t) r"
  shows "\<exists>m. executeInsert name rows s = (s, Inl (InvalidArgument m))"
  using validate_rows_Inl[OF assms(2,3)] assms(1) by (auto simp: executeInsert_def)

section \<open>UPDATE and DELETE\<close>

lemma finish_change_spec:
  assumes "can_log [(op, sql)] s"
  shows "\<exists>s'. finish_change name op sql verb (t', Inr changed) s =
      (s', Inr (messageResult True (verb @ nat_text changed @ '' row(s)''))) \<and> frame (put_table name t' s) s'"
  using append_if_ok[of op sql "put_table name t' s" "changed \<noteq> 0"] assms
  by (auto simp: finish_change_def act_bind_def reply_def can_log_put)

lemma executeUpdate_spec:
  assumes t: "requireTable (upd_table u) s = Inr t" and inv: "pred_option Database_inv (ex_database s)"
    and known: "known_columns t (cond_columns (upd_where u))"
    and c: "Table_columnIndex (upd_column u) t = Some c"
    and fit: "cell_fits (tb_schema t ! c) (upd_value u)" "value_ok (upd_value u)"
    and log: "can_log [(WalUpdate, updateSql u)] s"
  shows "\<exists>s' t'. executeUpdate u s =
      (s', Inr (messageResult True (''updated '' @ nat_text (length (filter
         (cond_holds (\<lambda>c. Table_columnIndex c t) (upd_where u)) (Table_rowsSnapshot t))) @ '' row(s)''))) \<and>
    frame (put_table (upd_table u) t' s) s' \<and> Table_inv t' \<and> same_definitions t t' \<and>
    Table_rowsSnapshot t' =
      map (set_cell (cond_holds (\<lambda>c. Table_columnIndex c t) (upd_where u)) c (upd_value u)) (Table_rowsSnapshot t)"
proof -
  let ?P = "cond_holds (\<lambda>c. Table_columnIndex c t) (upd_where u)"
  have t': "Table_inv t" using requireTable_inv[OF t inv] by simp
  have c': "c < length (tb_schema t)" using c find_column_Some by (fastforce simp: Table_columnIndex_def)
  obtain t' where "update_loop (upd_where u) c (upd_value u) (Table_rowsSnapshot t)
      [0..<length (Table_rowsSnapshot t)] 0 t = (t', Inr (length (filter ?P (Table_rowsSnapshot t))))"
    "Table_inv t'" "same_definitions t t'"
    "Table_rowsSnapshot t' = map (set_cell ?P c (upd_value u)) (Table_rowsSnapshot t)"
    using update_loop_spec[OF t' known _ c' fit refl, of ?P] by (auto simp: Table_columnIndex_def)
  moreover note finish_change_spec[OF log, of "upd_table u" "''updated ''" t' "length (filter ?P (Table_rowsSnapshot t))"]
  ultimately show ?thesis by (simp add: executeUpdate_def Let_def t c) blast
qed

lemma executeDelete_spec:
  assumes t: "requireTable name s = Inr t" and inv: "pred_option Database_inv (ex_database s)"
    and known: "known_columns t (cond_columns cond)" and log: "can_log [(WalDelete, deleteSql name cond)] s"
  shows "\<exists>s' t'. executeDelete name cond s =
      (s', Inr (messageResult True (''deleted '' @ nat_text (length (filter
         (cond_holds (\<lambda>c. Table_columnIndex c t) cond) (Table_rowsSnapshot t))) @ '' row(s)''))) \<and>
    frame (put_table name t' s) s' \<and> Table_inv t' \<and> same_definitions t t' \<and>
    Table_rowsSnapshot t' =
      filter (\<lambda>r. \<not> cond_holds (\<lambda>c. Table_columnIndex c t) cond r) (Table_rowsSnapshot t)"
proof -
  let ?P = "cond_holds (\<lambda>c. Table_columnIndex c t) cond"
  have t': "Table_inv t" using requireTable_inv[OF t inv] by simp
  obtain t' where "delete_loop cond (Table_rowsSnapshot t) (rev [0..<length (Table_rowsSnapshot t)]) 0 t =
      (t', Inr (length (filter ?P (Table_rowsSnapshot t))))" "Table_inv t'" "same_definitions t t'"
    "Table_rowsSnapshot t' = filter (\<lambda>r. \<not> ?P r) (Table_rowsSnapshot t)"
    using delete_loop_spec[OF t' known _ refl, of ?P] by (auto simp: Table_columnIndex_def)
  moreover note finish_change_spec[OF log, of name "''deleted ''" t' "length (filter ?P (Table_rowsSnapshot t))"]
  ultimately show ?thesis by (simp add: executeDelete_def Let_def t) blast
qed

section \<open>CREATE\<close>

lemma executeCreateDatabase_spec:
  assumes "can_log ((WalCreateDatabase, name) # es) s" and "name \<noteq> []"
  shows "\<exists>s1 db. executeCreateDatabase name s =
      (s1\<lparr>ex_database := Some db\<rparr>, Inr (messageResult True (''created database '' @ name))) \<and>
    frame s s1 \<and> can_log es (s1\<lparr>ex_database := Some db\<rparr>) \<and> Database_new name = Inr db"
proof -
  obtain s1 where app: "appendWal WalCreateDatabase name s = (s1, Inr ())" "frame s s1" "can_log es s1"
    using appendWal_ok[OF assms(1)] by blast
  obtain db where "Database_new name = Inr db" using assms(2) by (simp add: Database_new_def)
  then show ?thesis
    using app can_log_cong[OF app(3), of "s1\<lparr>ex_database := Some db\<rparr>"]
    by (auto simp: executeCreateDatabase_def act_bind_def reply_def)
qed

lemma executeCreateTable_spec:
  assumes db: "ex_database s = Some db" "Database_inv db" and new: "Database_table name db = None"
    and ok: "name \<noteq> []" "columns \<noteq> []" and log: "can_log ((WalCreateTable, createTableSql name columns) # es) s"
  shows "\<exists>s' db' t. executeCreateTable name columns s = (s', Inr (messageResult True (''created table '' @ name))) \<and>
    Table_new name columns = Inr t \<and> frame (s\<lparr>ex_database := Some db'\<rparr>) s' \<and> Database_inv db' \<and> db_name db' = db_name db \<and>
    (\<forall>n. Database_table n db' = (if n = name then Some t else Database_table n db)) \<and> can_log es s'"
proof -
  obtain db' t where db': "Database_createTable name columns db = Inr (True, db')" "Database_inv db'"
    "db_name db' = db_name db" "Table_new name columns = Inr t" "\<forall>n. Database_table n db' = (if n = name then Some t else Database_table n db)"
    using Database_createTable_spec[OF db(2) ok] new by auto
  have "can_log ((WalCreateTable, createTableSql name columns) # es) (s\<lparr>ex_database := Some db'\<rparr>)"
    using can_log_cong[OF log, of "s\<lparr>ex_database := Some db'\<rparr>"] by simp
  from appendWal_ok[OF this] obtain s' where app: "appendWal WalCreateTable (createTableSql name columns)
      (s\<lparr>ex_database := Some db'\<rparr>) = (s', Inr ())" "frame (s\<lparr>ex_database := Some db'\<rparr>) s'" "can_log es s'" by blast
  then have "executeCreateTable name columns s = (s', Inr (messageResult True (''created table '' @ name)))"
    by (simp add: executeCreateTable_def with_database_def db db' act_bind_def append_if_def reply_def)
  with app db' show ?thesis by blast
qed

end
