(* ===== verification/ExecutorInvariant.thy ===== *)
theory ExecutorInvariant
  imports ExecutorEffects
begin

text \<open>
  The invariant of the executor: its database and its snapshot are well formed, the transaction
  manager knows only ids it handed out, and while there is a snapshot the active transaction is
  open. \<open>k\<close> bounds the next transaction id, which is a 64-bit number that would wrap. Every
  statement keeps the invariant, also when it throws (\<open>sound\<close> for those that do not touch the
  transaction).
\<close>

section \<open>Statements that leave the transaction alone\<close>

definition same_session :: "executor \<Rightarrow> executor \<Rightarrow> bool" where
  "same_session s s' \<longleftrightarrow> ex_snapshot s' = ex_snapshot s \<and> ex_active s' = ex_active s \<and>
     ex_transactions s' = ex_transactions s"

abbreviation db_ok :: "executor \<Rightarrow> bool" where
  "db_ok s \<equiv> pred_option Database_inv (ex_database s)"

definition sound :: "'a action \<Rightarrow> bool" where
  "sound m \<longleftrightarrow> (\<forall>s s' x. db_ok s \<longrightarrow> m s = (s', x) \<longrightarrow> db_ok s' \<and> same_session s s')"

lemma soundD: "sound m \<Longrightarrow> db_ok s \<Longrightarrow> m s = (s', x) \<Longrightarrow> db_ok s' \<and> same_session s s'"
  unfolding sound_def by blast

lemma same_session_refl [simp]: "same_session s s"
  by (simp add: same_session_def)

lemma same_session_trans: "same_session s1 s2 \<Longrightarrow> same_session s2 s3 \<Longrightarrow> same_session s1 s3"
  by (simp add: same_session_def)

lemma same_session_set [simp]: "same_session s (s\<lparr>ex_database := d\<rparr>)" "same_session s (put_table name t s)"
  by (simp_all add: same_session_def put_table_def)

lemma sound_bind:
  assumes "sound m" and "\<And>x. sound (f x)"
  shows "sound (act_bind m f)"
proof (unfold sound_def, intro allI impI)
  fix s s' x assume s: "db_ok s" and run: "act_bind m f s = (s', x)"
  obtain s1 y where m: "m s = (s1, y)" by fastforce
  note s1 = soundD[OF assms(1) s m]
  show "db_ok s' \<and> same_session s s'"
  proof (cases y)
    case (Inl e)
    then show ?thesis using run m s1 by (simp add: act_bind_def)
  next
    case (Inr a)
    then have "f a s1 = (s', x)" using run m by (simp add: act_bind_def)
    then show ?thesis using soundD[OF assms(2)] s1 same_session_trans by blast
  qed
qed

lemma sound_append: "sound (appendWal op payload)" "sound (append_if b op payload)"
  by (auto simp: sound_def appendWal_def append_if_def same_session_def split: if_splits sum.splits prod.splits)

lemma sound_reply: "sound (reply b m)" "sound (throw_error e)" "sound (\<lambda>s. (s, x))"
  by (simp_all add: sound_def reply_def throw_error_def)

lemma sound_logged: "sound (act_bind (append_if b op payload) (\<lambda>_. reply c m))"
  by (intro sound_bind sound_append sound_reply)

lemma sound_set:
  assumes "sound m" and "\<And>s. db_ok s \<Longrightarrow> db_ok (g s)" and "\<And>s. same_session s (g s)"
  shows "sound (\<lambda>s. m (g s))"
  unfolding sound_def using soundD[OF assms(1)] assms(2,3) same_session_trans by blast

lemma sound_from:
  "db_ok s1 \<Longrightarrow> same_session s s1 \<Longrightarrow> sound m \<Longrightarrow> m s1 = (s', x) \<Longrightarrow> db_ok s' \<and> same_session s s'"
  using soundD same_session_trans by blast

lemma sound_with_database:
  assumes "\<And>db s s' x. ex_database s = Some db \<Longrightarrow> Database_inv db \<Longrightarrow> f db s = (s', x) \<Longrightarrow>
    db_ok s' \<and> same_session s s'"
  shows "sound (with_database f)"
  unfolding sound_def with_database_def reply_def using assms by (auto split: option.splits)

section \<open>Each statement\<close>

lemma sound_createDatabase: "sound (executeCreateDatabase name)"
  unfolding executeCreateDatabase_def
  by (intro sound_bind sound_append)
    (auto simp: sound_def reply_def same_session_def Database_new_inv split: sum.splits)

lemma Database_createTable_inv:
  assumes "Database_inv db" and "Database_createTable name columns db = Inr (created, db')"
  shows "Database_inv db'"
proof -
  obtain t where "Table_new name columns = Inr t"
    using assms(2) by (auto simp: Database_createTable_def ebind_eq_Inr)
  then have "name \<noteq> []" "columns \<noteq> []" using Table_new_Inr_iff by blast+
  with Database_createTable_spec[OF assms(1), of name columns] assms(2) show ?thesis by auto
qed

lemma logged_from:
  "act_bind (append_if b op payload) (\<lambda>_. reply c m) s1 = (s', x) \<Longrightarrow> db_ok s1 \<Longrightarrow> same_session s s1 \<Longrightarrow>
   db_ok s' \<and> same_session s s'"
  by (rule sound_from[OF _ _ sound_logged])

lemma sound_createTable: "sound (executeCreateTable name columns)"
  unfolding executeCreateTable_def
proof (rule sound_with_database)
  fix db s s' x
  assume s: "ex_database s = Some db" "Database_inv db"
    and run: "(case Database_createTable name columns db of
       Inl e \<Rightarrow> (s, Inl e)
     | Inr (created, db') \<Rightarrow>
         act_bind (append_if created WalCreateTable (createTableSql name columns))
           (\<lambda>_. reply created (if created then ''created table '' @ name else ''table already exists''))
           (s\<lparr>ex_database := Some db'\<rparr>)) = (s', x)"
  show "db_ok s' \<and> same_session s s'"
  proof (cases "Database_createTable name columns db")
    case (Inl e)
    with run s show ?thesis by auto
  next
    case (Inr y)
    obtain b db' where y: "y = (b, db')" by fastforce
    have ok: "db_ok (s\<lparr>ex_database := Some db'\<rparr>)" using Database_createTable_inv[OF s(2)] Inr y by simp
    show ?thesis using run by (simp add: Inr y) (erule logged_from[OF _ ok same_session_set(1)])
  qed
qed

lemma sound_dropTable: "sound (executeDropTable name)"
  unfolding executeDropTable_def
proof (rule sound_with_database)
  fix db s s' x
  assume s: "Database_inv db"
    and run: "(case Database_dropTable name db of
       (dropped, db') \<Rightarrow>
         act_bind (append_if dropped WalDropTable (dropTableSql name))
           (\<lambda>_. reply dropped (if dropped then ''dropped table '' @ name else ''unknown table''))
           (s\<lparr>ex_database := Some db'\<rparr>)) = (s', x)"
  obtain b db' where d: "Database_dropTable name db = (b, db')" by fastforce
  have ok: "db_ok (s\<lparr>ex_database := Some db'\<rparr>)" using Database_dropTable_spec[OF s d] by simp
  show "db_ok s' \<and> same_session s s'"
    using run by (simp add: d) (erule logged_from[OF _ ok same_session_set(1)])
qed

lemma sound_renameTable: "sound (executeRenameTable a b)"
  unfolding executeRenameTable_def
proof (rule sound_with_database)
  fix db s s' x
  assume "Database_inv db"
  then have "Database_inv (fst (Database_renameTable a b db))" by (rule Database_renameTable_inv)
  moreover assume "(case Database_renameTable a b db of
       (db', Inl e) \<Rightarrow> (s\<lparr>ex_database := Some db'\<rparr>, Inl e)
     | (db', Inr renamed) \<Rightarrow>
         act_bind (append_if renamed WalRenameTable (renameTableSql a b))
           (\<lambda>_. reply renamed (if renamed then ''renamed table '' @ a else ''rename failed''))
           (s\<lparr>ex_database := Some db'\<rparr>)) = (s', x)"
  ultimately show "db_ok s' \<and> same_session s s'"
    using logged_from[of _ _ _ _ _ "s\<lparr>ex_database := Some (fst (Database_renameTable a b db))\<rparr>" s' x s]
    by (cases "Database_renameTable a b db"; cases "snd (Database_renameTable a b db)") auto
qed

lemma sound_createIndex: "sound (executeCreateIndex name table column)"
proof (unfold sound_def executeCreateIndex_def, intro allI impI)
  fix s s' x
  assume s: "db_ok s" and run: "(case requireTable table s of
        Inl e \<Rightarrow> (s, Inl e)
      | Inr t \<Rightarrow>
          (case Table_createIndex name column t of
             (created, t') \<Rightarrow>
               act_bind (append_if created WalCreateIndex (createIndexSql name table column))
                 (\<lambda>_. reply created (if created then ''created index '' @ name else ''index creation failed''))
                 (put_table table t' s))) = (s', x)"
  show "db_ok s' \<and> same_session s s'"
  proof (cases "requireTable table s")
    case (Inl e)
    with run s show ?thesis by simp
  next
    case (Inr t)
    note t = requireTable_inv[OF Inr s]
    obtain b t' where t': "Table_createIndex name column t = (b, t')" "Table_inv t'" "tb_name t' = tb_name t"
      using Table_createIndex_spec[of t name column] t by auto
    then have ok: "db_ok (put_table table t' s)" using put_table_inv[OF s] t by simp
    show ?thesis using run by (simp add: Inr t'(1)) (erule logged_from[OF _ ok same_session_set(2)])
  qed
qed

lemma Table_insert_inv:
  assumes "Table_inv t" and "\<forall>v \<in> set r. value_ok v" and "Table_insert r t = Inr (i, t')"
  shows "Table_inv t' \<and> tb_name t' = tb_name t"
proof -
  have "row_ok (tb_schema t) r"
    using Table_insert_validates[OF assms(3)] assms(2) by (simp add: Table_validateRow_Inr row_ok_def)
  from Table_insert_spec[OF assms(1) this] assms(3) show ?thesis by (auto simp: same_definitions_def)
qed

lemma sound_insert_loop:
  assumes "\<forall>r \<in> set rows. \<forall>v \<in> set r. value_ok v"
  shows "sound (insert_loop table rows)"
  using assms
proof (induction rows)
  case Nil
  then show ?case by (simp add: sound_def)
next
  case (Cons r rows)
  have IH: "sound (insert_loop table rows)" using Cons by simp
  have "sound (\<lambda>s1. case ebind (requireTable table s1) (Table_insert r) of
         Inl e \<Rightarrow> (s1, Inl e)
       | Inr (_, t') \<Rightarrow> insert_loop table rows (put_table table t' s1))"
  proof (unfold sound_def, intro allI impI)
    fix s s' x
    assume s: "db_ok s" and run: "(case ebind (requireTable table s) (Table_insert r) of
         Inl e \<Rightarrow> (s, Inl e)
       | Inr (_, t') \<Rightarrow> insert_loop table rows (put_table table t' s)) = (s', x)"
    show "db_ok s' \<and> same_session s s'"
    proof (cases "ebind (requireTable table s) (Table_insert r)")
      case (Inl e)
      with run s show ?thesis by simp
    next
      case (Inr y)
      then obtain t i t' where t: "requireTable table s = Inr t" "Table_insert r t = Inr (i, t')" "y = (i, t')"
        by (cases y) (auto simp: ebind_eq_Inr)
      have ok: "db_ok (put_table table t' s)"
        using put_table_inv[OF s] Table_insert_inv[OF _ _ t(2)] requireTable_inv[OF t(1) s] Cons.prems by simp
      have "insert_loop table rows (put_table table t' s) = (s', x)" using run Inr t(3) by simp
      from sound_from[OF ok same_session_set(2) IH this] show ?thesis .
    qed
  qed
  from sound_bind[OF sound_append(1)[of WalInsert "insertSql table r"] this]
  show ?case by (simp add: sound_def)
qed

lemma sound_insert:
  assumes "\<forall>r \<in> set rows. \<forall>v \<in> set r. value_ok v"
  shows "sound (executeInsert table rows)"
proof -
  have "sound (act_bind (insert_loop table rows) (\<lambda>_. reply b m))" for b m
    by (intro sound_bind sound_insert_loop[OF assms] sound_reply)
  then show ?thesis by (auto simp: sound_def executeInsert_def split: sum.splits)
qed

lemma Table_update_inv:
  assumes "Table_inv t" and "value_ok v" and "Table_update i c v t = Inr (b, t')"
  shows "Table_inv t' \<and> tb_name t' = tb_name t"
proof (cases "length (Table_rowsSnapshot t) \<le> i \<or> length (tb_schema t) \<le> c")
  case True
  with Table_update_beyond[OF assms(1) True, of v] assms show ?thesis by simp
next
  case False
  then show ?thesis
    using Table_update_spec[OF assms(1), of i c v] Table_update_invalid[OF assms(1), of i c v] assms
    by (cases "cell_fits (tb_schema t ! c) v") (auto simp: same_definitions_def)
qed

lemma update_loop_inv:
  assumes "Table_inv t" and "value_ok v"
  shows "Table_inv (fst (update_loop cond c v snap ids m t)) \<and>
    tb_name (fst (update_loop cond c v snap ids m t)) = tb_name t"
  using assms(1)
proof (induction ids arbitrary: m t)
  case (Cons i ids)
  then show ?case
    using Table_update_inv[OF Cons.prems assms(2)] by (auto split: sum.split bool.split prod.split)
qed simp

lemma delete_loop_inv:
  assumes "Table_inv t"
  shows "Table_inv (fst (delete_loop cond snap ids m t)) \<and>
    tb_name (fst (delete_loop cond snap ids m t)) = tb_name t"
  using assms
proof (induction ids arbitrary: m t)
  case (Cons i ids)
  then show ?case
    using Table_erase_spec[OF Cons.prems, of i] by (auto simp: same_definitions_def split: sum.split bool.split prod.split)
qed simp

lemma sound_finish_change:
  assumes "db_ok s" and "Table_inv (fst result)" and "tb_name (fst result) = table"
    and "finish_change table op sql verb result s = (s', x)"
  shows "db_ok s' \<and> same_session s s'"
proof -
  note ok = put_table_inv[OF assms(1-3)]
  show ?thesis
    using assms(4) ok logged_from[OF _ ok same_session_set(2)]
    by (cases result; cases "snd result") (auto simp: finish_change_def)
qed

lemma sound_update:
  assumes "value_ok (upd_value u)"
  shows "sound (executeUpdate u)"
proof (unfold sound_def, intro allI impI)
  fix s s' x assume s: "db_ok s" and run: "executeUpdate u s = (s', x)"
  show "db_ok s' \<and> same_session s s'"
  proof (cases "requireTable (upd_table u) s")
    case (Inr t)
    note t = requireTable_inv[OF Inr s]
    note loop = update_loop_inv[OF conjunct1[OF t] assms]
    show ?thesis
      using run s t
      by (auto simp: executeUpdate_def Inr Let_def throw_error_def loop split: option.splits
          dest!: sound_finish_change[OF s, rotated 2])
  qed (use run s in \<open>simp add: executeUpdate_def\<close>)
qed

lemma sound_delete: "sound (executeDelete table cond)"
proof (unfold sound_def, intro allI impI)
  fix s s' x assume s: "db_ok s" and run: "executeDelete table cond s = (s', x)"
  show "db_ok s' \<and> same_session s s'"
  proof (cases "requireTable table s")
    case (Inr t)
    note t = requireTable_inv[OF Inr s]
    note loop = delete_loop_inv[OF conjunct1[OF t]]
    show ?thesis
      using run s t
      by (auto simp: executeDelete_def Inr Let_def loop dest!: sound_finish_change[OF s, rotated 2])
  qed (use run s in \<open>simp add: executeDelete_def\<close>)
qed

lemma sound_save: "sound (executeSaveDatabase pf)"
  unfolding executeSaveDatabase_def
proof (rule sound_with_database)
  fix db s s' x
  let ?rest = "\<lambda>_ s. case StorageManager_saveDatabase (pf_save pf) db (ex_disk s) of
         (d, Inl e) \<Rightarrow> (s\<lparr>ex_disk := d\<rparr>, Inl e)
       | (d, Inr _) \<Rightarrow>
           (case WriteAheadLog_reset (ex_wal s) d of
              (w, d') \<Rightarrow> reply True (''saved database '' @ db_name db) (s\<lparr>ex_wal := w, ex_disk := d'\<rparr>))"
  assume "ex_database s = Some db" "Database_inv db"
    and run: "act_bind (appendWal WalSaveDatabase (db_name db)) ?rest s = (s', x)"
  then have "db_ok s" by simp
  moreover have "sound (act_bind (appendWal WalSaveDatabase (db_name db)) ?rest)"
    by (intro sound_bind sound_append)
      (auto simp: sound_def reply_def same_session_def split: prod.splits sum.splits)
  ultimately show "db_ok s' \<and> same_session s s'" using soundD run by blast
qed

text \<open>All but BEGIN, COMMIT, ROLLBACK and LOAD.\<close>

fun session_command :: "query \<Rightarrow> bool" where
  "session_command BeginTransaction \<longleftrightarrow> True"
| "session_command CommitTransaction \<longleftrightarrow> True"
| "session_command RollbackTransaction \<longleftrightarrow> True"
| "session_command (LoadDatabase name) \<longleftrightarrow> True"
| "session_command q \<longleftrightarrow> False"

lemma sound_prepare: "sound (executePrepare name sql)"
  by (auto simp: sound_def executePrepare_def reply_def same_session_def split: sum.splits)

lemma executeUnlocked_plain:
  "executeUnlocked pf (CreateDatabase name) = executeCreateDatabase name"
  "executeUnlocked pf (Insert table rows) = executeInsert table rows"
  "executeUnlocked pf SaveDatabase = executeSaveDatabase pf"
  "executeUnlocked pf (PrepareStatement name sql) = executePrepare name sql"
  "executeUnlocked pf Exit = reply True ''exit''"
  "executeUnlocked pf (ExecutePrepared name vs) =
     throw_error ''prepared execution must not be dispatched while locked''"
  by (rule ext, simp)+

lemma sound_statement:
  assumes "query_ok q" and "\<not> session_command q"
  shows "sound (executeUnlocked pf q)"
proof (cases q)
  case (Insert table rows)
  then have "\<forall>r \<in> set rows. \<forall>v \<in> set r. value_ok v" using assms(1) by (auto simp: row_wf_def)
  from sound_insert[OF this] show ?thesis by (simp add: Insert executeUnlocked_plain)
next
  case (Update u)
  then show ?thesis using sound_update[of u] assms(1) by (simp add: executeUnlocked_logged)
next
  case (Select c)
  then show ?thesis by (simp add: sound_def)
next
  case ListTables
  then show ?thesis by (simp add: sound_def)
qed (use assms(2) in \<open>simp_all add: executeUnlocked_plain executeUnlocked_logged sound_createDatabase
    sound_createTable sound_dropTable sound_renameTable sound_delete sound_createIndex sound_save
    sound_prepare sound_reply\<close>)

section \<open>The transaction of the executor\<close>

definition tm_inv :: "nat \<Rightarrow> transaction_manager \<Rightarrow> bool" where
  "tm_inv k tm \<longleftrightarrow> umap_wf (=) (\<lambda>_. True) (tm_transactions tm) \<and> unat (tm_nextId tm) \<le> k \<and>
     (\<forall>i. TransactionManager_find i tm \<noteq> None \<longrightarrow> i < tm_nextId tm)"

definition in_transaction :: "executor \<Rightarrow> bool" where
  "in_transaction s \<longleftrightarrow> (\<exists>i t. ex_active s = Some i \<and>
     TransactionManager_find i (ex_transactions s) = Some t \<and> tx_state t = Active)"

definition ex_inv :: "nat \<Rightarrow> executor \<Rightarrow> bool" where
  "ex_inv k s \<longleftrightarrow> db_ok s \<and> pred_option Database_inv (ex_snapshot s) \<and> tm_inv k (ex_transactions s) \<and>
     (ex_snapshot s \<noteq> None \<longrightarrow> in_transaction s)"

lemma ex_inv_same_session:
  "ex_inv k s \<Longrightarrow> same_session s s' \<Longrightarrow> db_ok s' \<Longrightarrow> ex_inv k s'"
  by (simp add: ex_inv_def same_session_def in_transaction_def)

lemma tm_inv_mono: "tm_inv k tm \<Longrightarrow> k \<le> m \<Longrightarrow> tm_inv m tm"
  by (auto simp: tm_inv_def)

lemma ex_inv_mono: "ex_inv k s \<Longrightarrow> k \<le> m \<Longrightarrow> ex_inv m s"
  using tm_inv_mono by (auto simp: ex_inv_def)

lemma tm_inv_new: "tm_inv 1 TransactionManager_new"
  by (simp add: tm_inv_def TransactionManager_new_def TransactionManager_find_def)

lemma tm_begin_inv:
  assumes "tm_inv k tm" and "k + 1 < 2 ^ 64" and "TransactionManager_begin tm = (t, tm')"
  shows "tm_inv (k + 1) tm' \<and> TransactionManager_find (tx_id t) tm' = Some t \<and> tx_state t = Active"
proof -
  have wf: "umap_wf (=) (\<lambda>_. True) (tm_transactions tm)" using assms(1) by (simp add: tm_inv_def)
  have t: "t = \<lparr>tx_id = tm_nextId tm, tx_state = Active\<rparr>" and next_: "tm_nextId tm' = tm_nextId tm + 1"
    using assms(3) by (auto simp: TransactionManager_begin_def Let_def)
  have free: "TransactionManager_find (tm_nextId tm) tm = None"
    using assms(1) by (auto simp: tm_inv_def)
  have find: "TransactionManager_find i tm' = (if i = tm_nextId tm then Some t else TransactionManager_find i tm)" for i
    using assms(3) tm_find_alter[OF wf] free
    by (auto simp: TransactionManager_begin_def TransactionManager_find_def Let_def)
  have room: "unat (tm_nextId tm) + 1 < 2 ^ 64" using assms(1,2) by (simp add: tm_inv_def)
  then have succ: "unat (tm_nextId tm + 1) = unat (tm_nextId tm) + 1" by (simp add: unat_add_lem[THEN iffD1])
  have "i < tm_nextId tm'" if "TransactionManager_find i tm' \<noteq> None" for i
  proof (cases "i = tm_nextId tm")
    case False
    then have "i < tm_nextId tm" using that assms(1) find[of i] by (auto simp: tm_inv_def)
    then show ?thesis using succ by (simp add: next_ word_less_nat_alt)
  qed (use succ in \<open>simp add: next_ word_less_nat_alt\<close>)
  moreover have "umap_wf (=) (\<lambda>_. True) (tm_transactions tm')"
    using assms(3) eq_keys.umap_wf_alter[OF wf TrueI] by (auto simp: TransactionManager_begin_def Let_def)
  ultimately show ?thesis using assms(1) succ next_ find[of "tx_id t"] t by (simp add: tm_inv_def)
qed

lemma tm_set_inv:
  assumes "tm_inv k tm" and "TransactionManager_find i tm = Some t"
  shows "tm_inv k (TransactionManager_set st i t tm)"
proof -
  have wf: "umap_wf (=) (\<lambda>_. True) (tm_transactions tm)" using assms(1) by (simp add: tm_inv_def)
  have "TransactionManager_find j (TransactionManager_set st i t tm) \<noteq> None \<Longrightarrow> j < tm_nextId tm" for j
    using tm_find_alter[OF wf, of j i] assms
    by (auto simp: TransactionManager_find_def TransactionManager_set_def tm_inv_def split: if_splits)
  then show ?thesis
    using assms(1) eq_keys.umap_wf_alter[OF wf TrueI] by (auto simp: tm_inv_def TransactionManager_set_def)
qed

lemma executeBegin_idle:
  assumes "ex_inv k s" and "k + 1 < 2 ^ 64" and "ex_snapshot s = None" and "ex_database s = Some db"
  shows "\<exists>s' copy. executeBegin s = (s', Inr (messageResult True ''began transaction'')) \<and> ex_inv (k + 1) s' \<and>
    ex_snapshot s' = Some copy \<and> Database_content copy = Database_content db \<and> ex_database s' = Some db"
proof -
  obtain t tm where b: "TransactionManager_begin (ex_transactions s) = (t, tm)" by fastforce
  have db: "Database_inv db" using assms(1,4) by (simp add: ex_inv_def)
  obtain copy where c: "Database_clone db = Inr copy" "Database_inv copy" "Database_content copy = Database_content db"
    using Database_clone_spec[OF db] by blast
  have "tm_inv (k + 1) tm" "TransactionManager_find (tx_id t) tm = Some t" "tx_state t = Active"
    using tm_begin_inv[OF _ assms(2) b] assms(1) by (simp_all add: ex_inv_def)
  with b c assms(3,4) db show ?thesis
    by (simp add: executeBegin_def with_database_def reply_def ex_inv_def in_transaction_def)
qed

lemma executeBegin_busy: "ex_snapshot s \<noteq> None \<Longrightarrow> \<exists>x. executeBegin s = (s, x)"
  by (auto simp: executeBegin_def with_database_def reply_def split: option.splits)

lemma executeBegin_inv:
  assumes "ex_inv k s" and "k + 1 < 2 ^ 64"
  shows "ex_inv (k + 1) (fst (executeBegin s))"
proof (cases "ex_snapshot s = None \<and> ex_database s \<noteq> None")
  case True
  then show ?thesis using executeBegin_idle[OF assms] by auto
next
  case False
  then have "fst (executeBegin s) = s"
    using executeBegin_busy[of s] by (auto simp: executeBegin_def with_database_def reply_def)
  then show ?thesis using ex_inv_mono[OF assms(1)] by simp
qed

lemma executeCommit_open:
  assumes "ex_inv k s" and "ex_snapshot s \<noteq> None"
  shows "\<exists>s'. executeCommit s = (s', Inr (messageResult True ''committed transaction'')) \<and> ex_inv k s' \<and>
    ex_snapshot s' = None \<and> ex_active s' = None \<and> ex_database s' = ex_database s"
proof -
  obtain i t where t: "ex_active s = Some i" "TransactionManager_find i (ex_transactions s) = Some t" "tx_state t = Active"
    using assms by (auto simp: ex_inv_def in_transaction_def)
  then show ?thesis
    using assms tm_set_inv[of k "ex_transactions s" i t Committed]
    by (simp add: executeCommit_def TransactionManager_commit_def reply_def ex_inv_def)
qed

lemma executeRollback_open:
  assumes "ex_inv k s" and "ex_snapshot s = Some copy"
  shows "\<exists>s'. executeRollback s = (s', Inr (messageResult True ''rolled back transaction'')) \<and> ex_inv k s' \<and>
    ex_snapshot s' = None \<and> ex_active s' = None \<and> ex_database s' = Some copy"
proof -
  obtain i t where t: "ex_active s = Some i" "TransactionManager_find i (ex_transactions s) = Some t" "tx_state t = Active"
    using assms by (auto simp: ex_inv_def in_transaction_def)
  then show ?thesis
    using assms tm_set_inv[of k "ex_transactions s" i t RolledBack]
    by (simp add: executeRollback_def TransactionManager_rollback_def reply_def ex_inv_def)
qed

lemma commands_idle:
  "ex_snapshot s = None \<Longrightarrow> executeCommit s = (s, Inr (messageResult False ''no active transaction''))"
  "ex_snapshot s = None \<Longrightarrow> executeRollback s = (s, Inr (messageResult False ''no active transaction''))"
  by (simp_all add: executeCommit_def executeRollback_def reply_def)

fun loads :: "query \<Rightarrow> bool" where
  "loads (LoadDatabase name) \<longleftrightarrow> True"
| "loads q \<longleftrightarrow> False"

lemma statement_keeps_inv:
  assumes "ex_inv k s" and "k + 1 < 2 ^ 64" and "query_ok q" and "\<not> loads q"
  shows "ex_inv (k + 1) (fst (executeUnlocked pf q s))"
proof (cases "session_command q")
  case False
  have "db_ok s" using assms(1) by (simp add: ex_inv_def)
  note step = soundD[OF sound_statement[OF assms(3) False] this prod.collapse[symmetric]]
  have "ex_inv k (fst (executeUnlocked pf q s))"
    by (rule ex_inv_same_session[OF assms(1) conjunct2[OF step] conjunct1[OF step]])
  then show ?thesis by (rule ex_inv_mono) simp
next
  case True
  then consider "q = BeginTransaction" | "q = CommitTransaction" | "q = RollbackTransaction"
    using assms(4) by (cases q) auto
  then show ?thesis
  proof cases
    case 1
    then show ?thesis using executeBegin_inv[OF assms(1,2)] by simp
  next
    case 2
    then show ?thesis
      using executeCommit_open[OF assms(1)] commands_idle(1)[of s] ex_inv_mono[of k _ "k + 1"] assms(1)
      by (cases "ex_snapshot s = None") auto
  next
    case 3
    then show ?thesis
      using executeRollback_open[OF assms(1)] commands_idle(2)[of s] ex_inv_mono[of k _ "k + 1"] assms(1)
      by (cases "ex_snapshot s") auto
  qed
qed

end
