(* ===== verification/ExecutorSamples.thy ===== *)
theory ExecutorSamples
  imports Samples ExecutorInvariant
begin

text \<open>
  The executors and statements the witnesses run: an executor that was started on an empty
  storage directory, and one whose database is the sample database.
\<close>

definition sample_disk :: disk where
  "sample_disk = \<lparr>dk_exists = True, dk_files = [], dk_log = LogWorks\<rparr>"

definition sample_executor :: executor where
  "sample_executor = (started sample_disk)\<lparr>ex_database := Some sample_database\<rparr>"

lemma fresh_sample_disk: "fresh_disk sample_disk"
  by (simp add: fresh_disk_def wal_file_ok_def sample_disk_def disk_read_def disk_create_directories_def)

lemma sample_executor_simps [simp]:
  "ex_database sample_executor = Some sample_database" "ex_snapshot sample_executor = None"
  "ex_active sample_executor = None" "ex_replaying sample_executor = False"
  "ex_prepared sample_executor = []" "ex_disk sample_executor = sample_disk"
  "ex_wal sample_executor = WriteAheadLog_new" "ex_transactions sample_executor = TransactionManager_new"
  by (simp_all add: sample_executor_def started_def)

lemma sample_requireTable: "requireTable ''people'' sample_executor = Inr sample_indexed"
  by (simp add: requireTable_def sample_database_table)

lemma sample_wal_ok: "wal_ok 1 [] (ex_wal sample_executor) (ex_disk sample_executor)"
  using fresh_sample_disk by (simp add: wal_ok_def fresh_disk_def WriteAheadLog_new_def)

definition sample_update :: update_query where
  "sample_update = \<lparr>upd_table = ''people'', upd_column = ''name'', upd_value = VString ''say \"hi\"'',
     upd_where = Some (Comparison ''id'' Greater (VInt 1))\<rparr>"

lemmas query_evals = word_evals literal_ok_def where_wf_def where_values_def literals_exact_def

lemma sample_update_ok: "query_ok (Update sample_update)" "literals_exact (Update sample_update)"
  by (simp_all add: sample_update_def query_evals)

lemma sample_database_stored: "database_stored sample_database"
proof -
  have "list_all column_stored sample_schema" "list_all (list_all value_stored) sample_rows"
    by (simp_all add: sample_schema_def sample_rows_def column_stored_def value_stored_def length_ok_def
      ColumnType_valid_def)
  then show ?thesis
    using sample_database_facts sample_indexed_facts
    by (simp add: database_stored_def table_stored_def length_ok_def) (simp add: sample_schema_def sample_rows_def)
qed

section \<open>A session\<close>

text \<open>A sort that meets the contract: insertion.\<close>

fun insert_by :: "(row \<Rightarrow> row \<Rightarrow> bool) \<Rightarrow> row \<Rightarrow> row list \<Rightarrow> row list" where
  "insert_by lt r [] = [r]"
| "insert_by lt r (x # xs) = (if lt x r then x # insert_by lt r xs else r # x # xs)"

definition insertion_sort :: "(row \<Rightarrow> row \<Rightarrow> bool) \<Rightarrow> row list \<Rightarrow> row list" where
  "insertion_sort lt rows = foldr (insert_by lt) rows []"

lemma mset_insert_by [simp]: "mset (insert_by lt r xs) = add_mset r (mset xs)"
  by (induction xs) auto

lemma set_insert_by [simp]: "set (insert_by lt r xs) = insert r (set xs)"
  by (induction xs) auto

lemma sorted_insert_by:
  assumes "weak_order lt (\<lambda>r. r \<in> S)" and "r \<in> S" and "set xs \<subseteq> S"
    and "sorted_wrt (\<lambda>a b. \<not> lt b a) xs"
  shows "sorted_wrt (\<lambda>a b. \<not> lt b a) (insert_by lt r xs)"
  using assms(3,4)
proof (induction xs)
  case (Cons x xs)
  note asym = weak_order.asym[OF assms(1)] and neg = weak_order.neg_trans[OF assms(1)]
  have x: "x \<in> S" using Cons.prems(1) by simp
  show ?case
  proof (cases "lt x r")
    case True
    then show ?thesis using Cons asym[OF x assms(2)] by auto
  next
    case False
    then have "\<not> lt y r" if "y \<in> set xs" for y
      using neg[of y x r] that Cons.prems x assms(2) by auto
    then show ?thesis using False Cons.prems by auto
  qed
qed simp

lemma insertion_sort_contract: "sort_contract insertion_sort"
proof -
  have "mset (insertion_sort lt rows) = mset rows" for lt rows
    by (induction rows) (simp_all add: insertion_sort_def)
  moreover have "sorted_wrt (\<lambda>a b. \<not> lt b a) (insertion_sort lt rows) \<and> set (insertion_sort lt rows) = set rows"
    if "weak_order lt (\<lambda>r. r \<in> S)" and "set rows \<subseteq> S" for lt rows S
    using that(2) by (induction rows) (auto simp: insertion_sort_def intro!: sorted_insert_by[OF that(1)])
  ultimately show ?thesis by (auto simp: sort_contract_def)
qed

definition sample_platform :: platform where
  "sample_platform = \<lparr>pf_sort = insertion_sort, pf_order = \<lambda>fs. fs,
     pf_save = \<lparr>se_open_ok = True, se_failure = None, se_rename_ok = True, se_remove_ok = True, se_retry_ok = True\<rparr>,
     pf_ltr = True\<rparr>"

lemma sample_platform_simps:
  "sort_contract (pf_sort sample_platform)"
  "\<forall>xs. set (pf_order sample_platform xs) \<subseteq> set xs" "\<forall>xs. set (pf_order sample_platform xs) = set xs"
  "pf_ltr sample_platform"
  "pf_save sample_platform = \<lparr>se_open_ok = True, se_failure = None, se_rename_ok = True, se_remove_ok = True, se_retry_ok = True\<rparr>"
  by (simp_all add: sample_platform_def insertion_sort_contract)

definition sample_session :: "query list" where
  "sample_session =
     [CreateDatabase ''city'', CreateTable ''people'' sample_schema,
      Insert ''people'' [[VInt 1, VString ''ada''], [VInt 2, VNull]]]"

lemma sample_session_replayable: "list_all replayable sample_session"
  by (simp add: sample_session_def sample_schema_def query_evals column_ok_def row_wf_def ColumnType_valid_def)

lemma length_ok_small: "length xs < 1000 \<Longrightarrow> length_ok xs"
  by (simp add: length_ok_def)

lemma sample_session_entries:
  "concat (map log_entries sample_session) =
     [(WalCreateDatabase, ''city''), (WalCreateTable, createTableSql ''people'' sample_schema),
      (WalInsert, insertSql ''people'' [VInt 1, VString ''ada'']), (WalInsert, insertSql ''people'' [VInt 2, VNull])]"
  by (simp add: sample_session_def)

lemma sample_session_fits: "entries_fit (concat (map log_entries sample_session))"
proof -
  have "length (createTableSql ''people'' sample_schema) < 1000"
    "length (insertSql ''people'' [VInt 1, VString ''ada'']) < 1000"
    "length (insertSql ''people'' [VInt 2, VNull]) < 1000"
    by (code_simp)+
  then show ?thesis by (simp add: sample_session_entries entries_fit_def length_ok_small)
qed

lemma new_sample_executor: "QueryExecutor_new sample_platform sample_disk = started sample_disk"
  by (rule new_executor_fresh[OF fresh_sample_disk sample_platform_simps(2)])

lemma sample_session_runs:
  "\<exists>s t. session pf sample_session (started sample_disk) = Some s \<and> requireTable ''people'' s = Inr t \<and>
     Table_rowsSnapshot t = [[VInt 1, VString ''ada''], [VInt 2, VNull]] \<and> db_ok s"
proof -
  have log: "can_log (concat (map log_entries sample_session)) (started sample_disk)"
    unfolding can_log_def using sample_wal_ok sample_session_fits
    by (intro disjI2 exI[of _ 1] exI[of _ "[]"]) (simp add: sample_session_entries started_def)
  obtain s1 db where s1: "executeCreateDatabase ''city'' (started sample_disk) =
      (s1\<lparr>ex_database := Some db\<rparr>, Inr (messageResult True (''created database city'')))"
    "can_log (tl (concat (map log_entries sample_session))) (s1\<lparr>ex_database := Some db\<rparr>)"
    "Database_new ''city'' = Inr db"
    using executeCreateDatabase_spec[of "''city''" "tl (concat (map log_entries sample_session))" "started sample_disk"] log
    by (auto simp: sample_session_entries)
  have db: "Database_inv db" "Database_table ''people'' db = None"
    using Database_new_inv[OF s1(3)] s1(3) by (auto simp: Database_new_def Database_table_def)
  obtain s2 db2 t where s2: "executeCreateTable ''people'' sample_schema (s1\<lparr>ex_database := Some db\<rparr>) =
      (s2, Inr (messageResult True ''created table people''))" "Table_new ''people'' sample_schema = Inr t"
    "frame (s1\<lparr>ex_database := Some db2\<rparr>) s2" "Database_inv db2" "Database_table ''people'' db2 = Some t"
    "can_log (tl (tl (concat (map log_entries sample_session)))) s2"
    using executeCreateTable_spec[of "s1\<lparr>ex_database := Some db\<rparr>" db "''people''" sample_schema
        "tl (tl (concat (map log_entries sample_session)))"] db s1(2)
    by (auto simp: sample_session_entries sample_schema_def)
  have req: "requireTable ''people'' s2 = Inr t" "db_ok s2"
    using frame_simps(1)[OF s2(3)] s2(4,5) by (simp_all add: requireTable_def)
  have t: "tb_schema t = sample_schema" "Table_rowsSnapshot t = []"
    using Table_new_spec[of "''people''" sample_schema] s2(2) by (auto simp: sample_schema_def)
  let ?rows = "[[VInt 1, VString ''ada''], [VInt 2, VNull]]"
  have rows: "\<forall>r \<in> set ?rows. row_ok (tb_schema t) r"
    by (simp add: t row_ok_def row_fits_def cell_fits_def sample_schema_def)
  obtain s3 t' where s3: "executeInsert ''people'' ?rows s2 =
      (s3, Inr (messageResult True (''inserted '' @ nat_text (length ?rows) @ '' row(s)'')))"
    "frame (put_table ''people'' t' s2) s3" "Table_inv t'" "same_definitions t t'" "Table_rowsSnapshot t' = ?rows"
    using executeInsert_spec[OF req rows] s2(6) t by (auto simp: sample_session_entries)
  have "session pf sample_session (started sample_disk) = Some s3"
    using s1(1) s2(1) s3(1) by (simp add: sample_session_def execute_other is_execute_def)
  moreover have "requireTable ''people'' s3 = Inr t'"
    using frame_requireTable[OF s3(2)] requireTable_put[OF req] by simp
  moreover have "db_ok s3"
    using frame_simps(1)[OF s3(2)] put_table_inv[OF req(2) s3(3)] s3(4) requireTable_inv[OF req]
    by (simp add: same_definitions_def)
  ultimately show ?thesis using s3(5) by blast
qed

end
