(* ===== verification/TextProperties.thy ===== *)
theory TextProperties
  imports ExecutorSamples
begin

text \<open>
  The properties of the language layer: what the tokenizer and the parser accept, that the
  parser reads back the statements the executor writes to its log, and that the values bound to
  a prepared INSERT arrive as the row that is inserted.
\<close>

section \<open>Doubles as text\<close>

text \<open>
  What is printed and read for some doubles: 1.5 and -0.25 read back, 1.2345678, 120000.0 and
  1234567.0 do not.
\<close>

lemmas double_evals = dbl_magnitude_def dbl_negative_def dbl_infinity_def dbl_isnan_def dbl_num_def dbl_den_def
  dbl_significand_def dbl_exponent_def dbl_scale_def dec_digits_def dec_exponent_def dec_len.simps round_div_def
  bin_exponent_def bit_len.simps dbl_round_def Let_def

lemma printed_doubles:
  "dbl_show 0x3FF8000000000000 = ''1.5''" "dbl_show 0xBFD0000000000000 = ''-0.25''"
  "dbl_show 0x3FF3C0CA2A5B1D5D = ''1.23457''" "dbl_show 0x40FD4C0000000000 = ''120000''"
  "dbl_show 0x4132D68700000000 = ''1.23457e+06''"
proof -
  have g: "show_g (150000, 0) = ''1.5''" "show_g (250000, - 1) = ''0.25''" "show_g (123457, 0) = ''1.23457''"
    "show_g (120000, 5) = ''120000''" "show_g (123457, 6) = ''1.23457e+06''"
    by code_simp+
  show "dbl_show 0x3FF8000000000000 = ''1.5''" "dbl_show 0xBFD0000000000000 = ''-0.25''"
  "dbl_show 0x3FF3C0CA2A5B1D5D = ''1.23457''" "dbl_show 0x40FD4C0000000000 = ''120000''"
  "dbl_show 0x4132D68700000000 = ''1.23457e+06''"
    by (simp_all add: dbl_show_def double_evals g)
qed

lemma read_doubles:
  "stod ''1.5'' = Inr 0x3FF8000000000000" "stod ''-0.25'' = Inr 0xBFD0000000000000"
  "stod ''1.23457'' \<noteq> Inr 0x3FF3C0CA2A5B1D5D"
proof -
  have s: "stod ''1.5'' = dbl_round False 15 10" "stod ''-0.25'' = dbl_round True 25 100"
    "stod ''1.23457'' = dbl_round False 123457 100000" by code_simp+
  show "stod ''1.5'' = Inr 0x3FF8000000000000" "stod ''-0.25'' = Inr 0xBFD0000000000000"
  "stod ''1.23457'' \<noteq> Inr 0x3FF3C0CA2A5B1D5D"
    unfolding s by (simp_all add: double_evals)
qed

lemma doubles_read_back:
  "double_reads_back 0x3FF8000000000000" "double_reads_back 0xBFD0000000000000"
  "\<not> double_reads_back 0x3FF3C0CA2A5B1D5D" "\<not> double_reads_back 0x40FD4C0000000000"
  "\<not> double_reads_back 0x4132D68700000000"
  using read_doubles by (simp_all add: double_reads_back_def printed_doubles number_text_def char_evals isNumberPart_def)
section \<open>Round trips\<close>

text \<open>C7: The log can be read back. The text the executor writes to the log for CREATE TABLE, DROP
  TABLE, RENAME TABLE, a one-row INSERT, UPDATE, DELETE and CREATE INDEX parses to the statement
  it was written for, for everything the parser accepts with literals that read back: a double
  literal only when its text of six digits is read as the same double (so 1.5, but not 1.2345678,
  120000.0 or 1234567.0).\<close>

theorem log_text_roundtrip:
  assumes "query_ok q" and "literals_exact q" and "statement_text q = Some sql"
  shows "Parser_parse sql = Inr q"
  by (rule parse_statement_text[OF assms])

theorem log_text_roundtrip_witness:
  "Parser_parse (updateSql sample_update) = Inr (Update sample_update) \<and>
   Parser_parse (insertSql ''people'' [VDouble 0x3FF8000000000000]) =
     Inr (Insert ''people'' [[VDouble 0x3FF8000000000000]])"
proof -
  let ?q = "Insert ''people'' [[VDouble 0x3FF8000000000000]]"
  have "query_ok ?q" by code_simp
  moreover have "literals_exact ?q" by (simp add: literals_exact_def literal_ok_def doubles_read_back)
  ultimately show ?thesis
    using log_text_roundtrip[OF sample_update_ok] log_text_roundtrip[of ?q] by simp
qed

text \<open>C31: What the parser returns is well formed: names are words, lists that must have an element
  have one, and literals are values a column can hold (never NaN).\<close>

theorem parsed_statements_ok:
  assumes "Parser_parse sql = Inr q"
  shows "query_ok q"
  by (rule Parser_parse_ok[OF assms])

theorem parsed_statements_ok_witness:
  "\<exists>q. Parser_parse (updateSql sample_update) = Inr q \<and> query_ok q"
proof -
  have "Parser_parse (updateSql sample_update) = Inr (Update sample_update)"
    by (rule parse_statement_text[OF sample_update_ok]) simp
  with parsed_statements_ok show ?thesis by blast
qed

section \<open>Prepared statements\<close>

text \<open>C22: A prepared INSERT cannot be injected. Executing the template \<open>INSERT INTO t VALUES (?, ..., ?)\<close>,
  with a word as the name t and at least one mark, on as many values, strings with quotes and parentheses included, is inserting the row of exactly
  these values into t. A double is among the values only when its text of six digits is read as the
  same double; the code binds others as their rounded text, 1.2345678 as 1.23457 and 120000.0 as an
  integer.\<close>

theorem prepared_insert_inserts:
  assumes "word_text table" and "vs \<noteq> []" and "\<forall>v \<in> set vs. literal_ok v"
    and "umap_find (=) name (ex_prepared s) = Some (insert_template table (length vs))"
  shows "execute pf (ExecutePrepared name vs) s = Some (executeInsert table [vs] s)"
proof -
  have "bindPreparedSql name vs s = Inr (insertSql table vs)"
    using assms(4) bind_insert_template[OF assms(1), of vs] by (simp add: bindPreparedSql_def)
  then have "execute pf (ExecutePrepared name vs) s = execute pf (Insert table [vs]) s"
    by (rule execute_bound) (rule parse_insertSql[OF assms(1-3)])
  then show ?thesis by (simp add: execute_other is_execute_def)
qed

theorem prepared_insert_inserts_witness:
  "\<forall>pf. execute pf (ExecutePrepared ''add'' [VDouble 0x3FF8000000000000, VString ''x\"); DROP TABLE people; --''])
      (sample_executor\<lparr>ex_prepared := [(''add'', ''INSERT INTO people VALUES (?, ?);'')]\<rparr>) =
    Some (executeInsert ''people'' [[VDouble 0x3FF8000000000000, VString ''x\"); DROP TABLE people; --'']]
      (sample_executor\<lparr>ex_prepared := [(''add'', ''INSERT INTO people VALUES (?, ?);'')]\<rparr>))"
  by (intro allI prepared_insert_inserts)
    (simp_all add: query_evals insert_template_def numeral_2_eq_2 doubles_read_back)

end
