(* ===== verification/SnapshotCut.thy ===== *)
theory SnapshotCut
  imports StorageManager
begin

text \<open>
  A snapshot file cut short, as a crash or a full device leaves it, is never read as a database:
  the readers fail on every proper prefix of what the writers wrote. Each step of a reader is one
  use of \<open>codec_bind_cut\<close>: the cut is inside the part it reads, or in what follows.
\<close>

lemma codec_bind_cut:
  assumes "codec enc dec ok" and "ok x" and "cut_of bs (enc x @ ys)"
    and "\<And>bs'. cut_of bs' ys \<Longrightarrow> fails (f (x, bs'))"
  shows "fails (ebind (dec bs) f)"
proof -
  from assms(3) consider "cut_of bs (enc x)" | bs' where "bs = enc x @ bs'" "cut_of bs' ys"
    by (auto simp: cut_of_append)
  then show ?thesis
  proof cases
    case 1
    then show ?thesis using codec.dec_cut[OF assms(1,2)] fails_bind by blast
  next
    case 2
    then show ?thesis using codec.dec_enc[OF assms(1,2)] assms(4) by simp
  qed
qed

lemma codec_bind_n_cut:
  assumes "codec enc dec ok" and "list_all ok xs" and "n = length xs" and "cut_of bs (concat (map enc xs) @ ys)"
    and "\<And>bs'. cut_of bs' ys \<Longrightarrow> fails (f (xs, bs'))"
  shows "fails (ebind (read_n n dec bs) f)"
proof -
  from assms(4) consider "cut_of bs (concat (map enc xs))"
    | bs' where "bs = concat (map enc xs) @ bs'" "cut_of bs' ys" by (auto simp: cut_of_append)
  then show ?thesis
  proof cases
    case 1
    then show ?thesis using codec.read_n_cut[OF assms(1,2)] fails_bind assms(3) by blast
  next
    case 2
    then show ?thesis using codec.read_n_enc[OF assms(1,2)] assms(3,5) by simp
  qed
qed

lemma index_bind_cut:
  assumes "list_all index_stored defs" and "n = length defs" and "cut_of bs (concat (map writeIndex defs) @ ys)"
    and "\<And>bs'. cut_of bs' ys \<Longrightarrow> fails (f (map (seen_index ltr) defs, bs'))"
  shows "fails (ebind (read_n n (readIndex ltr) bs) f)"
proof -
  note codec = index_definitions_codec[OF assms(1), where ltr = ltr]
  from assms(3) consider "cut_of bs (concat (map writeIndex defs))"
    | bs' where "bs = concat (map writeIndex defs) @ bs'" "cut_of bs' ys" by (auto simp: cut_of_append)
  then show ?thesis
  proof cases
    case 1
    then show ?thesis using codec(2) fails_bind assms(2) by blast
  next
    case 2
    then show ?thesis using codec(1) assms(2,4) by simp
  qed
qed

lemma fails_bind_cases: "(\<And>x. m = Inr x \<Longrightarrow> fails (f x)) \<Longrightarrow> fails (ebind m f)"
  by (cases m) auto

interpretation row_codec: codec "\<lambda>r. concat (map writeValue r)" "read_n n readValue"
  "\<lambda>r. length r = n \<and> list_all value_stored r" for n
proof unfold_locales
  fix r :: row and rest bs
  assume ok: "length r = n \<and> list_all value_stored r"
  then show "read_n n readValue (concat (map writeValue r) @ rest) = Inr (r, rest)"
    by (simp add: read_row_enc)
  show "cut_of bs (concat (map writeValue r)) \<Longrightarrow> fails (read_n n readValue bs)"
    using value_codec.read_n_cut[of r bs] ok by simp
qed

lemma readTable_cut:
  assumes inv: "Table_inv t" and st: "table_stored t" and cut: "cut_of bs (writeTable t)"
  shows "fails (readTable ltr db bs)"
proof -
  note idx = stored_index_definitions[OF inv st] and rows = stored_rows[OF inv st]
  have ok: "length_ok (tb_name t)" "list_all column_stored (tb_schema t)"
    "unat (size64 (tb_schema t)) = length (tb_schema t)"
    "unat (size64 (Table_indexDefinitions t)) = length (Table_indexDefinitions t)"
    "unat (size64 (Table_rowsSnapshot t)) = length (Table_rowsSnapshot t)"
    using st idx by (simp_all add: unat_size64_ok table_stored_def)
  have "cut_of bs (writeTable t @ [])" using cut by simp
  then show ?thesis
    unfolding readTable_def writeTable_def append_assoc
    apply (rule codec_bind_cut[OF string_codec.codec_axioms ok(1)], unfold prod.case)
    apply (erule codec_bind_cut[OF u64_codec.codec_axioms TrueI], unfold prod.case)
    apply (erule codec_bind_n_cut[OF column_codec.codec_axioms ok(2) ok(3)], unfold prod.case)
    apply (rule fails_bind_cases, unfold split_beta)
    apply (simp only: if_split fails_simps simp_thms)
    apply (intro impI)
    apply (erule codec_bind_cut[OF u64_codec.codec_axioms TrueI], unfold fst_conv snd_conv)
    apply (erule index_bind_cut[OF idx[THEN conjunct2] ok(4)], unfold fst_conv snd_conv)
    apply (erule codec_bind_cut[OF u64_codec.codec_axioms TrueI], unfold fst_conv snd_conv ok(3))
    apply (erule codec_bind_n_cut[OF row_codec.codec_axioms rows ok(5)])
    apply simp
    done
qed

lemma readTable_rest:
  assumes inv: "Table_inv t" and st: "table_stored t"
    and "readTable ltr db (writeTable t @ rest) = Inr (db', rest')"
  shows "rest' = rest"
proof -
  note idx = stored_index_definitions[OF inv st] and rows = stored_rows[OF inv st]
  have ok: "length_ok (tb_name t)" "list_all column_stored (tb_schema t)"
    "unat (size64 (tb_schema t)) = length (tb_schema t)"
    "unat (size64 (Table_indexDefinitions t)) = length (Table_indexDefinitions t)"
    "unat (size64 (Table_rowsSnapshot t)) = length (Table_rowsSnapshot t)"
    using st idx by (simp_all add: unat_size64_ok table_stored_def)
  show ?thesis
    using idx assms(3)
    by (auto simp: readTable_def writeTable_def string_codec.dec_enc u64_codec.dec_enc ok
        column_codec.read_n_enc index_definitions_codec(1) read_rows_enc[OF rows] ebind_eq_Inr split: if_splits)
qed

lemma readTables_cut:
  assumes "list_all (\<lambda>t. Table_inv t \<and> table_stored t) ts" and "cut_of bs (concat (map writeTable ts))"
  shows "fails (readTables ltr (length ts) db bs)"
  using assms
proof (induction ts arbitrary: bs db)
  case Nil
  then show ?case by simp
next
  case (Cons t ts)
  then have t: "Table_inv t" "table_stored t" by simp_all
  from Cons.prems(2) consider "cut_of bs (writeTable t)"
    | bs' where "bs = writeTable t @ bs'" "cut_of bs' (concat (map writeTable ts))" by (auto simp: cut_of_append)
  then show ?case
  proof cases
    case 1
    then show ?thesis using fails_bind[OF readTable_cut[OF t]] by simp
  next
    case 2
    have "fails (readTables ltr (length ts) db' rest')"
      if "readTable ltr db bs = Inr (db', rest')" for db' rest'
    proof -
      have "rest' = bs'" using that readTable_rest[OF t] unfolding 2(1) by blast
      then show ?thesis using Cons.IH[OF _ 2(2)] Cons.prems(1) by simp
    qed
    then show ?thesis by (auto intro: fails_bind_cases)
  qed
qed

lemma read_magic_cut: "codec (\<lambda>_. kMagic) (read_bytes db_read_error (length kMagic)) (\<lambda>x. x = kMagic)"
  by unfold_locales (auto simp: read_bytes_enc read_bytes_cut)

lemma readDatabase_cut:
  assumes inv: "Database_inv db" and st: "database_stored db" and cut: "cut_of bs (writeDatabase db)"
  shows "fails (readDatabase ltr bs)"
proof -
  have ok: "length_ok (db_name db)" "unat (size64 (Database_tables db)) = length (Database_tables db)"
    using st by (simp_all add: database_stored_def Database_tables_def unat_size64_ok length_ok_def)
  have tabs: "list_all (\<lambda>t. Table_inv t \<and> table_stored t) (Database_tables db)"
    using inv st by (auto simp: Database_inv_def database_stored_def Database_tables_def list_all_iff)
  show ?thesis
    using cut unfolding readDatabase_def writeDatabase_def
    apply (rule codec_bind_cut[OF read_magic_cut refl], simp)
    apply (erule codec_bind_cut[OF u32_codec.codec_axioms TrueI], simp)
    apply (erule codec_bind_cut[OF string_codec.codec_axioms ok(1)], unfold prod.case)
    apply (rule fails_bind_cases)
    apply (erule codec_bind_cut[OF u64_codec.codec_axioms TrueI], unfold prod.case ok(2))
    apply (rule fails_bind)
    apply (rule readTables_cut[OF tabs])
    apply assumption
    done
qed

end
