(* ===== verification/PersistenceProperties.thy ===== *)
theory PersistenceProperties
  imports SnapshotCut ExecutorSamples
begin

text \<open>
  The properties of persistence: what the write-ahead log gives back, what a torn log and a
  truncated snapshot cause, the round trip of a snapshot, and a save that fails.
\<close>

section \<open>The log\<close>

text \<open>The appends of one process, in order.\<close>

fun wal_appends :: "(wal_operation \<times> string) list \<Rightarrow> wal \<Rightarrow> disk \<Rightarrow> (64 word list \<times> wal \<times> disk) outcome" where
  "wal_appends [] w d = Inr ([], w, d)"
| "wal_appends ((op, payload) # es) w d =
     (case WriteAheadLog_append op payload w d of
        (_, Inl e) \<Rightarrow> Inl e
      | ((w1, d1), Inr lsn) \<Rightarrow>
          ebind (wal_appends es w1 d1) (\<lambda>(lsns, w2, d2). Inr (lsn # lsns, w2, d2)))"

lemma entry_record: "entry \<lparr>wr_lsn = lsn, wr_operation = op, wr_payload = payload\<rparr> = (op, payload)"
  by (simp add: entry_def)

lemma wal_appends_ok:
  assumes "wal_ok k rs w d" and "entries_fit es" and "k + length es < 2 ^ 64"
  shows "\<exists>rs' w' d'. wal_appends es w d = Inr (map wr_lsn rs', w', d') \<and>
    wal_ok (k + length es) (rs @ rs') w' d' \<and> map entry rs' = es"
  using assms
proof (induction es arbitrary: k rs w d)
  case (Cons e es)
  obtain op payload where e: "e = (op, payload)" by (cases e)
  have fits: "wal_op_ok op" "length_ok payload" "entries_fit es"
    using Cons.prems(2) by (simp_all add: e entries_fit_def)
  have "k + 1 < 2 ^ 64" using Cons.prems(3) by simp
  then obtain lsn w1 d1 where app: "WriteAheadLog_append op payload w d = ((w1, d1), Inr lsn)"
    and ok: "wal_ok (k + 1) (rs @ [\<lparr>wr_lsn = lsn, wr_operation = op, wr_payload = payload\<rparr>]) w1 d1"
    using wal_append_spec[OF Cons.prems(1) fits(2,1)] by blast
  have "k + 1 + length es < 2 ^ 64" using Cons.prems(3) by simp
  from Cons.IH[OF ok fits(3) this] obtain rs' w2 d2 where
    rest: "wal_appends es w1 d1 = Inr (map wr_lsn rs', w2, d2)" "map entry rs' = es"
      "wal_ok (k + 1 + length es) ((rs @ [\<lparr>wr_lsn = lsn, wr_operation = op, wr_payload = payload\<rparr>]) @ rs') w2 d2"
    by blast
  show ?case
    by (rule exI[of _ "\<lparr>wr_lsn = lsn, wr_operation = op, wr_payload = payload\<rparr> # rs'"])
      (use app rest in \<open>simp add: e entry_record\<close>)
qed simp

text \<open>C24: What was appended is what is read back. After any list of appends to a well-formed log, by a
  process that may have opened it just now, reading the file gives the old records and then one
  record per append, in order, with the operations and payloads that were appended, and the
  sequence numbers of all of them strictly increase.\<close>

theorem log_keeps_appends:
  assumes "wal_ok k rs w d" and "entries_fit es" and "k + length es < 2 ^ 64"
  shows "\<exists>rs' w' d'. wal_appends es w d = Inr (map wr_lsn rs', w', d') \<and>
    WriteAheadLog_readAll d' = Inr (rs @ rs') \<and> map entry rs' = es \<and>
    sorted_wrt (<) (map wr_lsn (rs @ rs'))"
proof -
  obtain rs' w' d' where app: "wal_appends es w d = Inr (map wr_lsn rs', w', d')" "map entry rs' = es"
    and ok: "wal_ok (k + length es) (rs @ rs') w' d'"
    using wal_appends_ok[OF assms] by blast
  have "WriteAheadLog_readAll d' = Inr (rs @ rs')" "sorted_wrt (<) (map wr_lsn (rs @ rs'))"
    using ok readAll_file_ok unfolding wal_ok_def sorted_wrt_map by blast+
  with app show ?thesis by blast
qed

theorem log_keeps_appends_witness:
  "\<exists>rs w d. wal_appends [(WalCreateDatabase, ''city''), (WalDropTable, ''DROP TABLE a;'')]
      WriteAheadLog_new sample_disk = Inr (map wr_lsn rs, w, d) \<and>
    WriteAheadLog_readAll d = Inr rs \<and>
    map entry rs = [(WalCreateDatabase, ''city''), (WalDropTable, ''DROP TABLE a;'')]"
proof -
  have "wal_ok 1 [] WriteAheadLog_new sample_disk" using sample_wal_ok by simp
  from log_keeps_appends[OF this, of "[(WalCreateDatabase, ''city''), (WalDropTable, ''DROP TABLE a;'')]"]
  show ?thesis by (auto simp: entries_fit_def length_ok_def)
qed

text \<open>C26: A torn record hides the whole log. When a crash left only a part of the last record in the
  file, the log cannot be read, no process that opens it can append to it, and an executor that
  starts has the database that the snapshots give and nothing of the log, whatever the records
  before the torn one hold: the first database that loads, and none when none loads.\<close>

theorem torn_log_is_lost:
  assumes "list_all record_ok rs" and "record_ok r" and "bs \<noteq> []" and "cut_of bs (write_record r)"
    and "disk_read walFile d = Some (wal_bytes rs @ bs)"
  shows "fails (WriteAheadLog_readAll d) \<and> fails (snd (WriteAheadLog_append op payload WriteAheadLog_new d)) \<and>
    ex_database (QueryExecutor_new pf d) =
      (case StorageManager_loadFirstDatabase (pf_ltr pf) (pf_order pf) d of Inl _ \<Rightarrow> None | Inr db \<Rightarrow> Some db)"
proof -
  have torn: "fails (WriteAheadLog_readAll d)"
    using read_records_cut[OF assms(1-4)] assms(5) by (simp add: WriteAheadLog_readAll_def)
  have "disk_read walFile (disk_create_directories d) = disk_read walFile d"
    using disk_read_create[OF assms(5)] assms(5) by simp
  then have "WriteAheadLog_readAll (disk_create_directories d) = WriteAheadLog_readAll d"
    by (simp add: WriteAheadLog_readAll_def)
  with torn have "fails (snd (WriteAheadLog_append op payload WriteAheadLog_new d))"
    by (auto simp: WriteAheadLog_append_def WriteAheadLog_nextLsn_def WriteAheadLog_new_def Let_def fails_def)
  moreover have "recoverFromWal pf loaded s = s" if "ex_disk s = d" for loaded s
    using torn that by (auto simp: recoverFromWal_def fails_def)
  then have "ex_database (QueryExecutor_new pf d) =
      (case StorageManager_loadFirstDatabase (pf_ltr pf) (pf_order pf) d of Inl _ \<Rightarrow> None | Inr db \<Rightarrow> Some db)"
    by (simp add: QueryExecutor_new_def recoverFromStorage_def split: sum.split)
  ultimately show ?thesis using torn by blast
qed

theorem torn_log_is_lost_witness:
  "\<exists>r bs. record_ok r \<and> bs \<noteq> [] \<and> cut_of bs (write_record r) \<and>
    (\<forall>pf. (\<forall>xs. set (pf_order pf xs) \<subseteq> set xs) \<longrightarrow>
      ex_database (QueryExecutor_new pf
        \<lparr>dk_exists = True, dk_files = [(walFile, wal_bytes [r] @ bs)], dk_log = LogWorks\<rparr>) = None)"
proof -
  let ?r = "\<lparr>wr_lsn = 1, wr_operation = WalCreateDatabase, wr_payload = ''city''\<rparr> :: wal_record"
  let ?d = "\<lparr>dk_exists = True, dk_files = [(walFile, wal_bytes [?r] @ take 1 (write_record ?r))], dk_log = LogWorks\<rparr>"
  have ok: "record_ok ?r" by (simp add: record_ok_def length_ok_def)
  have len: "1 < length (write_record ?r)" by code_simp
  have cut: "cut_of (take 1 (write_record ?r)) (write_record ?r)"
    unfolding cut_of_def using len by (intro exI[of _ "drop 1 (write_record ?r)"]) simp
  have "ex_database (QueryExecutor_new pf ?d) = None" if "\<forall>xs. set (pf_order pf xs) \<subseteq> set xs" for pf
  proof -
    have "\<forall>f \<in> fst ` set (dk_files ?d). f \<noteq> walFile \<longrightarrow> path_extension f \<noteq> kExtension" by simp
    from no_saved_database[OF this that] obtain e where
      "StorageManager_loadFirstDatabase (pf_ltr pf) (pf_order pf) ?d = Inl e" by blast
    moreover have "list_all record_ok [?r]" using ok by simp
    from torn_log_is_lost[OF this ok _ cut, of ?d _ _ pf] have "ex_database (QueryExecutor_new pf ?d) =
        (case StorageManager_loadFirstDatabase (pf_ltr pf) (pf_order pf) ?d of Inl _ \<Rightarrow> None | Inr db \<Rightarrow> Some db)"
      using len by (auto simp: disk_read_def)
    ultimately show ?thesis by simp
  qed
  with ok cut len show ?thesis by (intro exI[of _ ?r] exI[of _ "take 1 (write_record ?r)"]) auto
qed

section \<open>Snapshots\<close>

text \<open>C9: A snapshot restores the database. Reading the bytes that were written for a database gives,
  in whichever order the compiler evaluates the two arguments that read an index definition, a
  well-formed database with the name, the tables, their schemas and their rows in order. The
  indexes come back as well, so that the content is the same, when the arguments are evaluated from
  left to right or when no table has an index. (From right to left the names of an index and of
  its column are swapped.)\<close>

theorem snapshot_roundtrip:
  assumes "Database_inv db" and "database_stored db"
  shows "\<exists>db'. readDatabase ltr (writeDatabase db) = Inr db' \<and> Database_inv db' \<and> db_name db' = db_name db \<and>
    map (\<lambda>(n, t). (n, tb_schema t, Table_rowsSnapshot t)) (db_tables db') =
      map (\<lambda>(n, t). (n, tb_schema t, Table_rowsSnapshot t)) (db_tables db) \<and>
    (ltr \<or> (\<forall>(n, t) \<in> set (db_tables db). tb_indexColumns t = []) \<longrightarrow>
       Database_content db' = Database_content db)"
proof -
  obtain db' where db': "readDatabase ltr (writeDatabase db) = Inr db'" "Database_inv db'" "db_name db' = db_name db"
    "list_all2 (\<lambda>(n, t) (n', t'). n' = n \<and> restores ltr t t') (db_tables db) (db_tables db')"
    using readDatabase_writeDatabase[OF assms] by blast
  have "map (\<lambda>(n, t). (n, tb_schema t, Table_rowsSnapshot t)) (db_tables db') =
      map (\<lambda>(n, t). (n, tb_schema t, Table_rowsSnapshot t)) (db_tables db)"
    using db'(4) by (induction rule: list_all2_induct) (auto simp: restores_def)
  with db' restored_content[OF db'(4,3)] show ?thesis by blast
qed

theorem snapshot_roundtrip_witness:
  "(\<exists>db'. readDatabase True (writeDatabase sample_database) = Inr db' \<and>
    Database_content db' =
      (''city'', [(''people'', ''people'', sample_schema, sample_rows, [(''by_id'', 0)])])) \<and>
   (\<exists>db'. readDatabase False (writeDatabase sample_database) = Inr db' \<and>
    map (\<lambda>(n, t). (n, tb_schema t, Table_rowsSnapshot t)) (db_tables db') =
      [(''people'', sample_schema, sample_rows)])"
proof -
  note sample = snapshot_roundtrip[OF conjunct1[OF sample_database_facts] sample_database_stored]
  show ?thesis using sample[of True] sample[of False] sample_database_facts sample_indexed_facts
    by (auto simp: Database_content_def Table_content_def)
qed

text \<open>C27: A truncated snapshot is rejected: reading any proper prefix of the bytes of a database throws,
  in whichever order arguments are evaluated.\<close>

theorem truncated_snapshot_rejected:
  assumes "Database_inv db" and "database_stored db" and "n < length (writeDatabase db)"
  shows "\<exists>e. readDatabase ltr (take n (writeDatabase db)) = Inl e"
proof -
  have "cut_of (take n (writeDatabase db)) (writeDatabase db)"
    unfolding cut_of_def using assms(3) by (intro exI[of _ "drop n (writeDatabase db)"]) simp
  from readDatabase_cut[OF assms(1,2) this] show ?thesis by (simp add: fails_def)
qed

theorem truncated_snapshot_rejected_witness:
  "\<forall>ltr. \<exists>e. readDatabase ltr (take 5 (writeDatabase sample_database)) = Inl e"
proof -
  have "5 < length (writeDatabase sample_database)" by (simp add: writeDatabase_def kMagic_def)
  from truncated_snapshot_rejected[OF _ sample_database_stored this] show ?thesis
    using sample_database_facts by blast
qed

text \<open>C28: A save that fails keeps the old snapshot, and every file but its own temporary one, unless
  the first rename failed, so that the target was removed, and the second failed as well.\<close>

theorem failed_save_keeps_snapshot:
  assumes "StorageManager_saveDatabase env db d = (d', Inl e)" and "disk_read f d = Some bs"
    and "f \<noteq> temporaryPathFor (db_name db)"
    and "f = pathFor (db_name db) \<Longrightarrow> se_rename_ok env \<or> \<not> se_remove_ok env \<or> \<not> se_open_ok env \<or> save_noticed env"
  shows "disk_read f d' = Some bs"
  using saveDatabase_failure[OF assms(1,3)] assms(2,4) disk_read_create by metis

theorem failed_save_keeps_snapshot_witness:
  "disk_read (pathFor ''city'')
     (fst (StorageManager_saveDatabase
        \<lparr>se_open_ok = True, se_failure = Some (7, True), se_rename_ok = True, se_remove_ok = True, se_retry_ok = True\<rparr>
        sample_database \<lparr>dk_exists = True, dk_files = [(pathFor ''city'', [1, 2, 3])], dk_log = LogWorks\<rparr>)) = Some [1, 2, 3]"
proof -
  let ?env = "\<lparr>se_open_ok = True, se_failure = Some (7, True), se_rename_ok = True, se_remove_ok = True, se_retry_ok = True\<rparr>"
  let ?d = "\<lparr>dk_exists = True, dk_files = [(pathFor ''city'', [1, 2, 3 :: byte])], dk_log = LogWorks\<rparr>"
  obtain d' e where run: "StorageManager_saveDatabase ?env sample_database ?d = (d', Inl e)"
    by (simp add: StorageManager_saveDatabase_def save_noticed_def Let_def)
  have "disk_read (pathFor ''city'') d' = Some [1, 2, 3]"
    by (rule failed_save_keeps_snapshot[OF run])
      (simp_all add: disk_read_def pathFor_def temporaryPathFor_def sample_database_facts)
  with run show ?thesis by simp
qed

end
