(* ===== verification/Restart.thy ===== *)
theory Restart
  imports Recovery
begin

text \<open>
  Which files the storage directory has after the operations on it (\<open>names\<close>), and what
  \<open>loadFirstDatabase\<close> finds when only one saved database is there.
\<close>

lemma path_of_name:
  assumes "name \<noteq> []"
  shows "path_extension (pathFor name) = kExtension" "path_stem (pathFor name) = name"
    "path_extension (temporaryPathFor name) \<noteq> kExtension"
proof -
  show ext: "path_extension (pathFor name) = kExtension"
    using assms by (simp add: path_extension_def pathFor_def kExtension_def Suc_le_eq)
  show "path_stem (pathFor name) = name"
    by (simp add: path_stem_def ext) (simp add: pathFor_def)
  show "path_extension (temporaryPathFor name) \<noteq> kExtension"
    by (simp add: path_extension_def temporaryPathFor_def kExtension_def)
qed

definition names :: "disk \<Rightarrow> string set" where
  "names d = set (map fst (dk_files d))"

lemma disk_names:
  "names (disk_write n bs d) = insert n (names d)" "names (disk_remove n d) = names d - {n}"
  "names (disk_create_directories d) = names d"
  unfolding names_def disk_write_def disk_remove_def disk_create_directories_def
  by (auto simp: update_keys delete_keys simp del: set_map)

lemma read_names: "disk_read f d = Some bs \<Longrightarrow> f \<in> names d"
  by (force simp: disk_read_def names_def dest: map_of_SomeD split: if_splits)

lemma rename_names: "names (disk_rename a b d) \<subseteq> insert b (names d)"
  by (auto simp: disk_rename_def disk_names split: option.splits)

lemma save_names:
  assumes "StorageManager_saveDatabase env db d = (d', y)"
  shows "names d' \<subseteq> insert (pathFor (db_name db)) (insert (temporaryPathFor (db_name db)) (names d))"
  using assms
  by (auto simp: StorageManager_saveDatabase_def Let_def disk_names dest!: subsetD[OF rename_names]
      split: if_splits option.splits)

text \<open>With one saved database in the directory, that is the one that is loaded first.\<close>

lemma loadFirst_only:
  assumes "name \<noteq> []" and "disk_read (pathFor name) d = Some bs"
    and "\<forall>f \<in> names d. path_extension f = kExtension \<longrightarrow> f = pathFor name" and "\<forall>xs. set (order xs) = set xs"
  shows "StorageManager_loadFirstDatabase ltr order d = readDatabase ltr bs"
proof -
  have "dk_exists d" using assms(2) by (simp add: disk_read_def split: if_splits)
  moreover have "List.find (\<lambda>f. path_extension f = kExtension) (order (map fst (dk_files d))) = Some (pathFor name)"
  proof (cases "List.find (\<lambda>f. path_extension f = kExtension) (order (map fst (dk_files d)))")
    case None
    then show ?thesis using read_names[OF assms(2)] path_of_name(1)[OF assms(1)] assms(4) by (auto simp: find_None_iff names_def)
  next
    case (Some f)
    then have "f \<in> set (order (map fst (dk_files d)))" "path_extension f = kExtension"
      by (auto simp: find_Some_iff)
    then have "f = pathFor name" using assms(3,4) by (auto simp: names_def)
    with Some show ?thesis by simp
  qed
  ultimately show ?thesis
    using assms(2) path_of_name(2)[OF assms(1)]
    by (simp add: StorageManager_loadFirstDatabase_def StorageManager_loadDatabase_def)
qed

lemma append_names:
  "appendWal op payload s = (s', y) \<Longrightarrow> names (ex_disk s') \<subseteq> insert walFile (names (ex_disk s))"
  unfolding appendWal_def WriteAheadLog_append_def Let_def
  by (auto simp: disk_names split: if_splits sum.splits log_device.splits)

end
