(* ===== verification/Likeness.thy ===== *)
theory Likeness
  imports TableCalls ExecutorInvariant Restart
begin

text \<open>
  Recovery from a snapshot and the log. A database read back from a snapshot has the content of
  the saved one but not its versions, pages or index buckets; \<open>like\<close> relates two executors whose
  databases have the same content. It is the second interpretation of \<open>replay_shadow\<close>: that an
  operation on tables of the same content answers the same and leaves the same content is what
  the refinement of \<open>TableCalls\<close> says of both.
\<close>

section \<open>Ordered maps are determined by their lookups\<close>

lemma omap_find_map: "omap_find lt k (map (\<lambda>(n, t). (n, f t)) m) = map_option f (omap_find lt k m)"
  by (induction m) auto

lemma str_omap_find: "omap_wf str_less (\<lambda>_. True) m \<Longrightarrow> omap_find str_less k m = map_of m k"
  by (rule str_order.omap_find_map_of) simp_all

lemma str_omap_head:
  assumes "omap_wf str_less (\<lambda>_. True) ((k, v) # m)" and "str_less k' k"
  shows "map_of ((k, v) # m) k' = None"
proof -
  have "str_less k' a" if "a \<in> fst ` set m" for a
    using assms that str_less_trans by (auto simp: omap_wf_Cons)
  then have "k' \<notin> fst ` set m" using str_less_irrefl by blast
  moreover have "k' \<noteq> k" using assms(2) str_less_irrefl by blast
  ultimately have "k' \<notin> fst ` set ((k, v) # m)" by simp
  then show ?thesis unfolding map_of_eq_None_iff .
qed

lemma str_omap_eqI:
  assumes "omap_wf str_less (\<lambda>_. True) m" and "omap_wf str_less (\<lambda>_. True) m'"
    and "map_of m = map_of m'"
  shows "m = m'"
  using assms
proof (induction m arbitrary: m')
  case Nil
  then show ?case by (metis map_of_eq_empty_iff)
next
  case (Cons p m)
  obtain k v where p: "p = (k, v)" by fastforce
  obtain k' v' m1 where m': "m' = (k', v') # m1"
    using fun_cong[OF Cons.prems(3), of k] p by (cases m') auto
  have "map_of (p # m) k \<noteq> None" "map_of m' k' \<noteq> None" by (simp_all add: p m')
  then have "\<not> str_less k k'" "\<not> str_less k' k"
    using str_omap_head Cons.prems p m' by metis+
  then have k: "k' = k" using str_less_total by blast
  then have v: "v' = v" using fun_cong[OF Cons.prems(3), of k] by (simp add: p m')
  have "k \<notin> fst ` set m" "k \<notin> fst ` set m1"
    using Cons.prems(1,2) str_less_irrefl by (auto simp: p m' k omap_wf_Cons)
  then have none: "map_of m k = None" "map_of m1 k = None" by (simp_all add: map_of_eq_None_iff)
  have "map_of m x = map_of m1 x" for x
    using fun_cong[OF Cons.prems(3), of x] none by (cases "x = k") (simp_all add: p m' k)
  then have "map_of m = map_of m1" by auto
  moreover have "omap_wf str_less (\<lambda>_. True) m" "omap_wf str_less (\<lambda>_. True) m1"
    using Cons.prems(1,2) by (simp_all add: p m' omap_wf_Cons)
  ultimately have "m = m1" by (intro Cons.IH)
  then show ?case by (simp add: p m' k v)
qed

section \<open>Databases of the same content\<close>

text \<open>What a statement sees of a table; its name is the key it is stored under.\<close>

definition table_view :: "vtable \<Rightarrow> table_state" where
  "table_view t = (tb_schema t, Table_rowsSnapshot t, tb_indexColumns t)"

lemma Database_content_view:
  assumes "Database_inv d"
  shows "Database_content d = (db_name d, map (\<lambda>(n, t). (n, n, table_view t)) (db_tables d))"
  using assms by (auto simp: Database_content_def Table_content_def table_view_def Database_inv_def)

lemma same_content_iff:
  assumes "Database_inv d" and "Database_inv e"
  shows "Database_content d = Database_content e \<longleftrightarrow> db_name d = db_name e \<and>
    (\<forall>n. map_option table_view (Database_table n d) = map_option table_view (Database_table n e))"
proof -
  let ?view = "\<lambda>d. map (\<lambda>(n, t). (n, table_view t)) (db_tables d)"
  have wf: "omap_wf str_less (\<lambda>_. True) (?view d)" if "Database_inv d" for d
    using that by (simp add: Database_inv_def omap_wf_def split_beta comp_def)
  have pair: "map (\<lambda>(n, t). (n, n, table_view t)) (db_tables d) = map (\<lambda>(n, v). (n, n, v)) (?view d)" for d
    by auto
  have "inj (\<lambda>(n :: string, v :: table_state). (n, n, v))" by (auto simp: inj_def)
  then have "Database_content d = Database_content e \<longleftrightarrow> db_name d = db_name e \<and> ?view d = ?view e"
    by (simp add: Database_content_view assms pair inj_map_eq_map del: map_map)
  moreover have "?view d = ?view e \<longleftrightarrow> map_of (?view d) = map_of (?view e)"
    using str_omap_eqI wf assms by metis
  moreover have "map_of (?view d) n = map_option table_view (Database_table n d)" if "Database_inv d" for n d
    using str_omap_find[OF wf[OF that]] by (simp add: Database_table_def omap_find_map flip: str_omap_find[OF wf[OF that]])
  ultimately show ?thesis using assms by (auto simp: fun_eq_iff)
qed

section \<open>Operations on tables of the same content\<close>

text \<open>
  Both tables refine the same abstract table, so an operation answers the same on both and leaves
  the same content.
\<close>

definition alike :: "vtable \<Rightarrow> vtable \<Rightarrow> bool" where
  "alike t u \<longleftrightarrow> Table_inv t \<and> Table_inv u \<and> table_view t = table_view u"

lemma alike_rel: "alike t u \<longleftrightarrow> (\<exists>st. table_rel t st \<and> table_rel u st)"
  by (auto simp: alike_def table_rel_def table_view_def)

lemma alike_call:
  assumes "alike t u" and "table_call_ok c \<and> content_call c" and "Table_call c t = (t', a)"
  shows "\<exists>u'. Table_call c u = (u', a) \<and> alike t' u'"
proof -
  obtain st where st: "table_rel t st" "table_rel u st" using assms(1) alike_rel by blast
  note t = table_refines.step_refines[OF st(1) assms(2)] and u = table_refines.step_refines[OF st(2) assms(2)]
  then have "Table_call c u = (fst (Table_call c u), a)" using assms(3) by (simp add: prod_eq_iff)
  moreover have "table_rel t' (fst (table_spec c st))" using t assms(3) by simp
  with u have "alike t' (fst (Table_call c u))" unfolding alike_rel by blast
  ultimately show ?thesis by blast
qed

lemma table_failure_throws: "table_failure t e = (t', a) \<Longrightarrow> a = TInvalid \<or> (\<exists>e'. a = TError e')"
  by (auto simp: table_failure_def split: exn.splits)

lemma alike_insert:
  assumes "alike t u" and "\<forall>v \<in> set r. value_ok v" and "Table_insert r t = Inr (i, t')"
  shows "\<exists>u'. Table_insert r u = Inr (i, u') \<and> alike t' u'"
  using alike_call[OF assms(1), of "TableInsert r"] assms(2,3)
  by (fastforce dest: table_failure_throws split: sum.splits)

lemma alike_erase:
  assumes "alike t u" and "Table_erase i t = Inr (b, t')"
  shows "\<exists>u'. Table_erase i u = Inr (b, u') \<and> alike t' u'"
  using alike_call[OF assms(1), of "TableErase i"] assms(2)
  by (fastforce dest: table_failure_throws split: sum.splits)

lemma alike_update:
  assumes "alike t u" and "value_ok v" and "Table_update i c v t = Inr (b, t')"
  shows "\<exists>u'. Table_update i c v u = Inr (b, u') \<and> alike t' u'"
  using alike_call[OF assms(1), of "TableUpdate i c v"] assms(2,3)
  by (fastforce dest: table_failure_throws split: sum.splits)

lemma alike_createIndex:
  assumes "alike t u" and "Table_createIndex name column t = (b, t')"
  shows "\<exists>u'. Table_createIndex name column u = (b, u') \<and> alike t' u'"
  using alike_call[OF assms(1), of "TableCreateIndex name column"] assms(2) by (auto split: prod.splits)

section \<open>The loops of UPDATE and DELETE\<close>

lemma matches_schema: "tb_schema t = tb_schema u \<Longrightarrow> matches r t p = matches r u p"
  by (induction p) (simp_all add: Table_columnIndex_def cong: if_cong)

lemma alike_selected: "alike t u \<Longrightarrow> selected cond t r = selected cond u r"
  using matches_schema[of t u r] by (cases cond) (simp_all add: selected_def alike_def table_view_def)

lemma alike_update_loop:
  assumes "alike t u" and "value_ok v" and "update_loop cond c v snap ids m t = (t', Inr k)"
  shows "\<exists>u'. update_loop cond c v snap ids m u = (u', Inr k) \<and> alike t' u'"
  using assms(1,3)
proof (induction ids arbitrary: m t u)
  case (Cons i ids)
  note sel = alike_selected[OF Cons.prems(1), of cond "snap ! i"]
  consider "selected cond t (snap ! i) = Inr False" "update_loop cond c v snap ids m t = (t', Inr k)"
    | b t1 where "selected cond t (snap ! i) = Inr True" "Table_update i c v t = Inr (b, t1)"
      "update_loop cond c v snap ids (if b then m + 1 else m) t1 = (t', Inr k)"
    using Cons.prems(2) by (auto split: sum.splits bool.splits)
  then show ?case
  proof cases
    case 1
    then show ?thesis using Cons.IH[OF Cons.prems(1)] sel by simp
  next
    case 2
    from alike_update[OF Cons.prems(1) assms(2) 2(2)] obtain u1 where
      u1: "Table_update i c v u = Inr (b, u1)" "alike t1 u1" by blast
    from Cons.IH[OF u1(2) 2(3)] 2(1) u1(1) sel show ?thesis by simp
  qed
qed auto

lemma alike_delete_loop:
  assumes "alike t u" and "delete_loop cond snap ids m t = (t', Inr k)"
  shows "\<exists>u'. delete_loop cond snap ids m u = (u', Inr k) \<and> alike t' u'"
  using assms
proof (induction ids arbitrary: m t u)
  case (Cons i ids)
  note sel = alike_selected[OF Cons.prems(1), of cond "snap ! i"]
  consider "selected cond t (snap ! i) = Inr False" "delete_loop cond snap ids m t = (t', Inr k)"
    | b t1 where "selected cond t (snap ! i) = Inr True" "Table_erase i t = Inr (b, t1)"
      "delete_loop cond snap ids (if b then m + 1 else m) t1 = (t', Inr k)"
    using Cons.prems(2) by (auto split: sum.splits bool.splits)
  then show ?case
  proof cases
    case 1
    then show ?thesis using Cons.IH[OF Cons.prems(1)] sel by simp
  next
    case 2
    from alike_erase[OF Cons.prems(1) 2(2)] obtain u1 where
      u1: "Table_erase i u = Inr (b, u1)" "alike t1 u1" by blast
    from Cons.IH[OF u1(2) 2(3)] 2(1) u1(1) sel show ?thesis by simp
  qed
qed auto

section \<open>Executors with databases of the same content\<close>

definition like :: "executor \<Rightarrow> executor \<Rightarrow> bool" where
  "like s r \<longleftrightarrow> ex_replaying r \<and> db_ok s \<and> db_ok r \<and>
     map_option Database_content (ex_database r) = map_option Database_content (ex_database s)"

lemma likeD:
  assumes "like s r" and "ex_database s = Some d"
  obtains e where "ex_database r = Some e" "Database_inv d" "Database_inv e"
    "db_name e = db_name d"
    "\<And>n. map_option table_view (Database_table n e) = map_option table_view (Database_table n d)"
  using assms same_content_iff by (cases "ex_database r") (auto simp: like_def)

lemma like_database:
  assumes "like s r" and "Database_inv d" and "Database_inv e" and "db_name e = db_name d"
    and "\<And>n. map_option table_view (Database_table n e) = map_option table_view (Database_table n d)"
  shows "like (s\<lparr>ex_database := Some d\<rparr>) (r\<lparr>ex_database := Some e\<rparr>)"
  using assms same_content_iff[OF assms(3,2)] by (simp add: like_def)

lemma like_cong: "like s r \<Longrightarrow> ex_database s' = ex_database s \<Longrightarrow> like s' r"
  by (simp add: like_def)

lemma view_known:
  "map_option table_view a = map_option table_view b \<Longrightarrow> b = Some t \<Longrightarrow> \<exists>u. a = Some u \<and> table_view u = table_view t"
  by (cases a) auto

lemma like_table:
  assumes "like s r" and "requireTable name s = Inr t"
  shows "\<exists>u. requireTable name r = Inr u \<and> alike t u"
proof -
  obtain d where d: "ex_database s = Some d" "Database_table name d = Some t"
    using assms(2) by (auto simp: requireTable_Inr)
  from likeD[OF assms(1) d(1)] obtain e where e: "ex_database r = Some e" "Database_inv d" "Database_inv e"
    "map_option table_view (Database_table name e) = map_option table_view (Database_table name d)" by metis
  from view_known[OF e(4) d(2)] obtain u where u: "Database_table name e = Some u" "table_view u = table_view t" by blast
  then have "alike t u" using Database_table_inv e(2,3) d(2) by (auto simp: alike_def)
  with u(1) e(1) show ?thesis by (simp add: requireTable_def)
qed

lemma like_put:
  assumes like: "like s r" and t: "requireTable name s = Inr t" and alike: "alike t' u'"
    and names: "tb_name t' = name" "tb_name u' = name"
  shows "like (put_table name t' s) (put_table name u' r)"
proof -
  obtain d where d: "ex_database s = Some d" using t by (auto simp: requireTable_Inr)
  obtain e where e: "ex_database r = Some e" "Database_inv d" "Database_inv e" "db_name e = db_name d"
    "\<And>n. map_option table_view (Database_table n e) = map_option table_view (Database_table n d)"
    using likeD[OF like d] by blast
  have inv: "Table_inv t'" "Table_inv u'" "table_view u' = table_view t'" using alike by (simp_all add: alike_def)
  have "like (s\<lparr>ex_database := Some (Database_putTable name t' d)\<rparr>)
    (r\<lparr>ex_database := Some (Database_putTable name u' e)\<rparr>)"
  proof (rule like_database[OF like])
    show "Database_inv (Database_putTable name t' d)" "Database_inv (Database_putTable name u' e)"
      using Database_putTable_inv e(2,3) inv names by blast+
    show "db_name (Database_putTable name u' e) = db_name (Database_putTable name t' d)"
      using e(4) by (simp add: Database_putTable_def)
    show "map_option table_view (Database_table n (Database_putTable name u' e)) =
        map_option table_view (Database_table n (Database_putTable name t' d))" for n
      using e(5) inv(3) by (simp add: Database_table_putTable e(2,3))
  qed
  then show ?thesis by (simp add: put_table_def d e(1))
qed

text \<open>The replaying executor does not log, and the live one changes only its log.\<close>

lemma like_logged:
  assumes "like s1 r1" and "act_bind (append_if b op payload) (\<lambda>_. reply c m) s1 = (s', Inr x)"
  shows "act_bind (append_if b op payload) (\<lambda>_. reply c m) r1 = (r1, Inr x) \<and> like s' r1"
proof -
  have r1: "append_if b op payload r1 = (r1, Inr ())"
    using assms(1) by (simp add: append_if_def appendWal_def like_def)
  obtain s2 where s2: "append_if b op payload s1 = (s2, Inr ())" "reply c m s2 = (s', Inr x)"
    using assms(2) by (auto simp: act_bind_def split: prod.splits sum.splits)
  then have "ex_database s' = ex_database s1"
    by (auto simp: append_if_def appendWal_def reply_def split: if_splits sum.splits prod.splits)
  with s2(2) r1 like_cong[OF assms(1)] show ?thesis by (auto simp: act_bind_def reply_def)
qed

section \<open>Each statement\<close>

lemma like_with_database:
  assumes like: "like s r" and run: "with_database f s = (s', Inr x)"
    and step: "\<And>d e. f d s = (s', Inr x) \<Longrightarrow> Database_inv d \<Longrightarrow> Database_inv e \<Longrightarrow>
      db_name e = db_name d \<Longrightarrow>
      (\<And>n. map_option table_view (Database_table n e) = map_option table_view (Database_table n d)) \<Longrightarrow>
      \<exists>r'. f e r = (r', Inr x) \<and> like s' r'"
  shows "\<exists>r'. with_database f r = (r', Inr x) \<and> like s' r'"
proof (cases "ex_database s")
  case None
  then have "ex_database r = None" using like by (simp add: like_def)
  with None run like show ?thesis by (simp add: with_database_def reply_def)
next
  case (Some d)
  from likeD[OF like Some] obtain e where e: "ex_database r = Some e" "Database_inv d" "Database_inv e"
    "db_name e = db_name d"
    "\<And>n. map_option table_view (Database_table n e) = map_option table_view (Database_table n d)" by blast
  have "f d s = (s', Inr x)" using run Some by (simp add: with_database_def)
  from step[OF this e(2-5)] e(1) show ?thesis by (simp add: with_database_def)
qed

lemma view_None:
  "map_option table_view a = map_option table_view b \<Longrightarrow> a = None \<longleftrightarrow> b = None"
  by (cases a; cases b) auto

lemma same_createTable:
  assumes inv: "Database_inv d" "Database_inv e" and name: "db_name e = db_name d"
    and same: "\<And>n. map_option table_view (Database_table n e) = map_option table_view (Database_table n d)"
    and d': "Database_createTable name columns d = Inr (b, d')"
  shows "\<exists>e'. Database_createTable name columns e = Inr (b, e') \<and> Database_inv d' \<and> Database_inv e' \<and>
    db_name e' = db_name d' \<and>
    (\<forall>n. map_option table_view (Database_table n e') = map_option table_view (Database_table n d'))"
proof -
  obtain t where t: "Table_new name columns = Inr t"
    using d' by (auto simp: Database_createTable_def ebind_eq_Inr)
  then have ok: "name \<noteq> []" "columns \<noteq> []" using Table_new_Inr_iff by blast+
  have tables: "\<exists>e'. Database_createTable name columns e = Inr (Database_table name e = None, e') \<and>
      Database_inv e' \<and> db_name e' = db_name e \<and> (\<forall>n. Database_table n e' =
        (if Database_table name e = None \<and> n = name then Some t else Database_table n e))"
    if "Database_inv e" for e
    using Database_createTable_spec[OF that ok] t by (cases "Database_table name e") auto
  obtain e' where e': "Database_createTable name columns e = Inr (Database_table name e = None, e')"
    "Database_inv e'" "db_name e' = db_name e"
    "\<forall>n. Database_table n e' =
      (if Database_table name e = None \<and> n = name then Some t else Database_table n e)"
    using tables[OF inv(2)] by blast
  have "Database_inv d' \<and> db_name d' = db_name d \<and> b = (Database_table name d = None) \<and>
    (\<forall>n. Database_table n d' =
      (if Database_table name d = None \<and> n = name then Some t else Database_table n d))"
    using tables[OF inv(1)] d' by auto
  with e' name same view_None[OF same[of name]] show ?thesis by simp
qed

lemma like_createTable:
  assumes "like s r" and "executeCreateTable name columns s = (s', Inr x)"
  shows "\<exists>r'. executeCreateTable name columns r = (r', Inr x) \<and> like s' r'"
  using assms unfolding executeCreateTable_def
proof (rule like_with_database)
  let ?rest = "\<lambda>created. act_bind (append_if created WalCreateTable (createTableSql name columns))
    (\<lambda>_. reply created (if created then ''created table '' @ name else ''table already exists''))"
  fix d e
  assume run: "(case Database_createTable name columns d of
       Inl e \<Rightarrow> (s, Inl e) | Inr (created, db') \<Rightarrow> ?rest created (s\<lparr>ex_database := Some db'\<rparr>)) = (s', Inr x)"
    and inv: "Database_inv d" "Database_inv e" and name: "db_name e = db_name d"
    and same: "\<And>n. map_option table_view (Database_table n e) = map_option table_view (Database_table n d)"
  obtain b d' where d': "Database_createTable name columns d = Inr (b, d')"
    and rest: "?rest b (s\<lparr>ex_database := Some d'\<rparr>) = (s', Inr x)"
    using run by (auto split: sum.splits)
  obtain e' where e': "Database_createTable name columns e = Inr (b, e')" "Database_inv d'" "Database_inv e'"
      "db_name e' = db_name d'"
      "\<And>n. map_option table_view (Database_table n e') = map_option table_view (Database_table n d')"
    using same_createTable[OF inv name same d'] by blast
  from like_logged[OF like_database[OF assms(1) e'(2-5)] rest] e'(1)
  show "\<exists>r'. (case Database_createTable name columns e of
       Inl e \<Rightarrow> (r, Inl e) | Inr (created, db') \<Rightarrow> ?rest created (r\<lparr>ex_database := Some db'\<rparr>)) = (r', Inr x) \<and>
     like s' r'" by simp
qed

lemma like_dropTable:
  assumes "like s r" and "executeDropTable name s = (s', Inr x)"
  shows "\<exists>r'. executeDropTable name r = (r', Inr x) \<and> like s' r'"
  using assms unfolding executeDropTable_def
proof (rule like_with_database)
  let ?rest = "\<lambda>dropped. act_bind (append_if dropped WalDropTable (dropTableSql name))
    (\<lambda>_. reply dropped (if dropped then ''dropped table '' @ name else ''unknown table''))"
  fix d e
  assume run: "(case Database_dropTable name d of
       (dropped, db') \<Rightarrow> ?rest dropped (s\<lparr>ex_database := Some db'\<rparr>)) = (s', Inr x)"
    and inv: "Database_inv d" "Database_inv e" and name: "db_name e = db_name d"
    and same: "\<And>n. map_option table_view (Database_table n e) = map_option table_view (Database_table n d)"
  obtain b d' where d': "Database_dropTable name d = (b, d')" by fastforce
  obtain c e' where e': "Database_dropTable name e = (c, e')" by fastforce
  note specd = Database_dropTable_spec[OF inv(1) d'] and spece = Database_dropTable_spec[OF inv(2) e']
  have "c = b" using specd spece view_None[OF same[of name]] by simp
  moreover have "like (s\<lparr>ex_database := Some d'\<rparr>) (r\<lparr>ex_database := Some e'\<rparr>)"
    by (rule like_database[OF assms(1)]) (use specd spece name same in simp_all)
  moreover have "?rest b (s\<lparr>ex_database := Some d'\<rparr>) = (s', Inr x)" using run d' by simp
  ultimately show "\<exists>r'. (case Database_dropTable name e of
       (dropped, db') \<Rightarrow> ?rest dropped (r\<lparr>ex_database := Some db'\<rparr>)) = (r', Inr x) \<and> like s' r'"
    using like_logged e' by auto
qed

lemma like_renameTable:
  assumes "like s r" and "b \<noteq> []" and "executeRenameTable a b s = (s', Inr x)"
  shows "\<exists>r'. executeRenameTable a b r = (r', Inr x) \<and> like s' r'"
  using assms(1,3) unfolding executeRenameTable_def
proof (rule like_with_database)
  let ?rest = "\<lambda>renamed. act_bind (append_if renamed WalRenameTable (renameTableSql a b))
    (\<lambda>_. reply renamed (if renamed then ''renamed table '' @ a else ''rename failed''))"
  let ?run = "\<lambda>d s. case Database_renameTable a b d of
       (db', Inl e) \<Rightarrow> (s\<lparr>ex_database := Some db'\<rparr>, Inl e)
     | (db', Inr renamed) \<Rightarrow> ?rest renamed (s\<lparr>ex_database := Some db'\<rparr>)"
  fix d e
  assume run: "?run d s = (s', Inr x)"
    and inv: "Database_inv d" "Database_inv e" and name: "db_name e = db_name d"
    and same: "\<And>n. map_option table_view (Database_table n e) = map_option table_view (Database_table n d)"
  show "\<exists>r'. ?run e r = (r', Inr x) \<and> like s' r'"
  proof (cases "Database_table a d = None \<or> Database_table b d \<noteq> None")
    case True
    then have "Database_table a e = None \<or> Database_table b e \<noteq> None" using view_None[OF same] by simp
    then have e': "Database_renameTable a b e = (e, Inr False)" by (rule Database_renameTable_refused)
    have "?rest False (s\<lparr>ex_database := Some d\<rparr>) = (s', Inr x)"
      using run Database_renameTable_refused[OF True] by simp
    from like_logged[OF like_database[OF assms(1) inv name same] this] e' show ?thesis by simp
  next
    case False
    then obtain t where t: "Database_table a d = Some t" "Database_table b d = None" by auto
    from view_known[OF same t(1)] obtain u where u: "Database_table a e = Some u" "table_view u = table_view t" by blast
    have "Database_table b e = None" using view_None[OF same[of b]] t(2) by simp
    from Database_renameTable_spec[OF inv(2) u(1) this assms(2)] obtain e' u' where
      e': "Database_renameTable a b e = (e', Inr True)" "Database_inv e'" "db_name e' = db_name e"
      "Table_content u' = (b, tb_schema u, Table_rowsSnapshot u, tb_indexColumns u)"
      "\<forall>n. Database_table n e' = (if n = b then Some u' else if n = a then None else Database_table n e)" by blast
    from Database_renameTable_spec[OF inv(1) t assms(2)] obtain d' t' where
      d': "Database_renameTable a b d = (d', Inr True)" "Database_inv d'" "db_name d' = db_name d"
      "Table_content t' = (b, tb_schema t, Table_rowsSnapshot t, tb_indexColumns t)"
      "\<forall>n. Database_table n d' = (if n = b then Some t' else if n = a then None else Database_table n d)" by blast
    have "table_view u' = table_view t'" using u(2) e'(4) d'(4) by (simp add: table_view_def Table_content_def)
    then have "like (s\<lparr>ex_database := Some d'\<rparr>) (r\<lparr>ex_database := Some e'\<rparr>)"
      by (intro like_database[OF assms(1)]) (use d' e' name same in simp_all)
    moreover have "?rest True (s\<lparr>ex_database := Some d'\<rparr>) = (s', Inr x)" using run d'(1) by simp
    ultimately show ?thesis using like_logged e'(1) by auto
  qed
qed

lemma like_createIndex:
  assumes like: "like s r" and run: "executeCreateIndex name table column s = (s', Inr x)"
  shows "\<exists>r'. executeCreateIndex name table column r = (r', Inr x) \<and> like s' r'"
proof -
  let ?rest = "\<lambda>created. act_bind (append_if created WalCreateIndex (createIndexSql name table column))
    (\<lambda>_. reply created (if created then ''created index '' @ name else ''index creation failed''))"
  obtain t where t: "requireTable table s = Inr t"
    using run by (auto simp: executeCreateIndex_def split: sum.splits)
  obtain b t' where t': "Table_createIndex name column t = (b, t')" by fastforce
  from like_table[OF like t] obtain u where u: "requireTable table r = Inr u" "alike t u" by blast
  from alike_createIndex[OF u(2) t'] obtain u' where
    u': "Table_createIndex name column u = (b, u')" "alike t' u'" by blast
  have dbs: "db_ok s" "db_ok r" using like by (simp_all add: like_def)
  have names: "tb_name t' = table" "tb_name u' = table"
    using Table_createIndex_spec[of t name column] Table_createIndex_spec[of u name column] t' u'(1)
      requireTable_inv[OF t dbs(1)] requireTable_inv[OF u(1) dbs(2)] by auto
  have "?rest b (put_table table t' s) = (s', Inr x)" using run by (simp add: executeCreateIndex_def t t')
  from like_logged[OF like_put[OF like t u'(2) names] this] u(1) u'(1) show ?thesis
    by (simp add: executeCreateIndex_def)
qed

lemma like_finish_change:
  assumes like: "like s r" and t: "requireTable table s = Inr t" and alike: "alike t' u'"
    and names: "tb_name t' = table" "tb_name u' = table"
    and run: "finish_change table op sql verb (t', Inr k) s = (s', Inr x)"
  shows "\<exists>r'. finish_change table op sql verb (u', Inr k) r = (r', Inr x) \<and> like s' r'"
  using like_logged[OF like_put[OF like t alike names]] run unfolding finish_change_def by simp

lemma finish_change_Inr:
  "finish_change table op sql verb result s = (s', Inr x) \<Longrightarrow> \<exists>t' k. result = (t', Inr k)"
  by (cases result; cases "snd result") (auto simp: finish_change_def)

lemma like_update:
  assumes like: "like s r" and v: "value_ok (upd_value q)" and run: "executeUpdate q s = (s', Inr x)"
  shows "\<exists>r'. executeUpdate q r = (r', Inr x) \<and> like s' r'"
proof -
  let ?loop = "\<lambda>c rows. update_loop (upd_where q) c (upd_value q) rows [0..<length rows] 0"
  let ?finish = "finish_change (upd_table q) WalUpdate (updateSql q) ''updated ''"
  obtain t c where t: "requireTable (upd_table q) s = Inr t" and c: "Table_columnIndex (upd_column q) t = Some c"
    and fin: "?finish (?loop c (Table_rowsSnapshot t) t) s = (s', Inr x)"
    using run by (auto simp: executeUpdate_def throw_error_def Let_def split: sum.splits option.splits)
  from like_table[OF like t] obtain u where u: "requireTable (upd_table q) r = Inr u" "alike t u" by blast
  have view: "Table_rowsSnapshot u = Table_rowsSnapshot t" "Table_columnIndex (upd_column q) u = Some c"
    using u(2) c by (simp_all add: alike_def table_view_def Table_columnIndex_def)
  from finish_change_Inr[OF fin] obtain t' k where t': "?loop c (Table_rowsSnapshot t) t = (t', Inr k)" by blast
  from alike_update_loop[OF u(2) v t'] obtain u' where
    u': "?loop c (Table_rowsSnapshot t) u = (u', Inr k)" "alike t' u'" by blast
  have dbs: "db_ok s" "db_ok r" using like by (simp_all add: like_def)
  note it = requireTable_inv[OF t dbs(1)] and iu = requireTable_inv[OF u(1) dbs(2)]
  have "tb_name t' = upd_table q" "tb_name u' = upd_table q"
    using update_loop_inv[OF conjunct1[OF it] v] update_loop_inv[OF conjunct1[OF iu] v] it iu t' u'(1)
    by (metis fst_conv)+
  from like_finish_change[OF like t u'(2) this] fin t' u(1) u'(1) view show ?thesis
    by (simp add: executeUpdate_def Let_def)
qed

lemma like_delete:
  assumes like: "like s r" and run: "executeDelete table cond s = (s', Inr x)"
  shows "\<exists>r'. executeDelete table cond r = (r', Inr x) \<and> like s' r'"
proof -
  let ?loop = "\<lambda>rows. delete_loop cond rows (rev [0..<length rows]) 0"
  let ?finish = "finish_change table WalDelete (deleteSql table cond) ''deleted ''"
  obtain t where t: "requireTable table s = Inr t"
    and fin: "?finish (?loop (Table_rowsSnapshot t) t) s = (s', Inr x)"
    using run by (auto simp: executeDelete_def Let_def split: sum.splits)
  from like_table[OF like t] obtain u where u: "requireTable table r = Inr u" "alike t u" by blast
  have view: "Table_rowsSnapshot u = Table_rowsSnapshot t"
    using u(2) by (simp add: alike_def table_view_def)
  from finish_change_Inr[OF fin] obtain t' k where t': "?loop (Table_rowsSnapshot t) t = (t', Inr k)" by blast
  from alike_delete_loop[OF u(2) t'] obtain u' where
    u': "?loop (Table_rowsSnapshot t) u = (u', Inr k)" "alike t' u'" by blast
  have dbs: "db_ok s" "db_ok r" using like by (simp_all add: like_def)
  note it = requireTable_inv[OF t dbs(1)] and iu = requireTable_inv[OF u(1) dbs(2)]
  have "tb_name t' = table" "tb_name u' = table"
    using delete_loop_inv[OF conjunct1[OF it]] delete_loop_inv[OF conjunct1[OF iu]] it iu t' u'(1)
    by (metis fst_conv)+
  from like_finish_change[OF like t u'(2) this] fin t' u(1) u'(1) view show ?thesis
    by (simp add: executeDelete_def Let_def)
qed

lemma like_insert:
  assumes like: "like s r" and t: "requireTable table s = Inr t" and v: "\<forall>v \<in> set row. value_ok v"
    and run: "Table_insert row t = Inr (i, t')"
  shows "\<exists>u u'. requireTable table r = Inr u \<and> Table_insert row u = Inr (i, u') \<and>
    like (put_table table t' s) (put_table table u' r)"
proof -
  from like_table[OF like t] obtain u where u: "requireTable table r = Inr u" "alike t u" by blast
  from alike_insert[OF u(2) v run] obtain u' where u': "Table_insert row u = Inr (i, u')" "alike t' u'" by blast
  have dbs: "db_ok s" "db_ok r" using like by (simp_all add: like_def)
  note it = requireTable_inv[OF t dbs(1)] and iu = requireTable_inv[OF u(1) dbs(2)]
  have "tb_name t' = table" "tb_name u' = table"
    using Table_insert_inv[OF _ v run] Table_insert_inv[OF _ v u'(1)] it iu by auto
  from like_put[OF like t u'(2) this] u(1) u'(1) show ?thesis by blast
qed

lemma word_text_nonempty: "word_text w \<Longrightarrow> w \<noteq> []"
  by (auto simp: word_text_def)

lemma like_statement:
  assumes "like s r" and "logs_itself q" and "query_ok q" and "executeUnlocked pf q s = (s', Inr x)"
  shows "\<exists>r'. executeUnlocked pf q r = (r', Inr x) \<and> like s' r'"
  using assms like_createTable like_dropTable like_renameTable like_createIndex like_update like_delete
  by (cases q) (auto simp: executeUnlocked_logged word_text_nonempty)

interpretation content: replay_shadow like
proof unfold_locales
  show "ex_replaying r" if "like s r" for s r using that by (simp add: like_def)
  show "like (s\<lparr>ex_database := Some db\<rparr>) (r\<lparr>ex_database := Some db\<rparr>)"
    if "like s r" "Database_new name = Inr db" for s r name db
    using that Database_new_inv by (simp add: like_def)
qed (fact like_cong like_insert like_statement)+

end
