(* ===== verification/Refusals.thy ===== *)
theory Refusals
  imports ExecutorInvariant Prepared
begin

text \<open>
  Statements that throw. \<open>runs_as\<close> is the chain of prepared statements that an EXECUTE goes
  through, down to the statement that is dispatched; \<open>execute\<close> returns for these chains and
  otherwise only with an exception of the binding. \<open>refusal_unchanged\<close> says that a statement that
  throws leaves the executor exactly as it was, when the log takes its records; the exceptions are
  SAVE, which leaves its marker, and an UPDATE or DELETE that knows only a part of its condition.
\<close>

section \<open>The statement an EXECUTE runs\<close>

inductive runs_as :: "executor \<Rightarrow> query \<Rightarrow> query \<Rightarrow> bool" for s where
  runs_itself: "\<not> is_execute q \<Longrightarrow> runs_as s q q"
| runs_bound: "bindPreparedSql name vs s = Inr sql \<Longrightarrow> Parser_parse sql = Inr q \<Longrightarrow> runs_as s q q' \<Longrightarrow>
    runs_as s (ExecutePrepared name vs) q'"

lemma is_execute_simps [simp]: "is_execute (ExecutePrepared name vs)"
  by (simp add: is_execute_def)

inductive_cases runs_as_ExecuteE: "runs_as s (ExecutePrepared name vs) q'"

lemma runs_as_plain: "runs_as s q q' \<Longrightarrow> \<not> is_execute q'"
  by (induction rule: runs_as.induct)

lemma runs_as_execute: "runs_as s q q' \<Longrightarrow> execute pf q s = Some (executeUnlocked pf q' s)"
  by (induction rule: runs_as.induct) (simp_all add: execute_other execute_bound)

lemma runs_as_unique: "runs_as s q q1 \<Longrightarrow> runs_as s q q2 \<Longrightarrow> q1 = q2"
proof (induction rule: runs_as.induct)
  case (runs_itself q)
  from runs_itself.prems show ?case by (cases rule: runs_as.cases) (use runs_itself.hyps in auto)
next
  case (runs_bound name vs sql q q')
  from runs_bound.prems show ?case
    by (rule runs_as_ExecuteE) (use runs_bound in auto)
qed

text \<open>What a call that returns has done.\<close>

definition returned :: "platform \<Rightarrow> query \<Rightarrow> executor \<Rightarrow> executor \<times> query_result outcome \<Rightarrow> bool" where
  "returned pf q s r \<longleftrightarrow> (\<exists>e. r = (s, Inl e)) \<or> (\<exists>q'. runs_as s q q' \<and> r = executeUnlocked pf q' s)"

lemma execute_returned:
  assumes "execute pf q s = Some r"
  shows "returned pf q s r"
proof (rule execute.raw_induct[where P = returned, OF _ assms])
  fix ex pf q s r
  assume IH: "\<And>pf q s r. ex pf q s = Some r \<Longrightarrow> returned pf q s r"
    and run: "(case q of
      ExecutePrepared name parameters \<Rightarrow>
        case ebind (bindPreparedSql name parameters s) Parser_parse of
        Inl e \<Rightarrow> Some (s, Inl e) | Inr q' \<Rightarrow> ex pf q' s
      | _ \<Rightarrow> Some (executeUnlocked pf q s)) = Some r"
  show "returned pf q s r"
  proof (cases "is_execute q")
    case False
    then have "r = executeUnlocked pf q s" using run by (auto simp: is_execute_def split: query.splits)
    then show ?thesis using runs_itself[OF False, of s] by (auto simp: returned_def)
  next
    case True
    then obtain name vs where q: "q = ExecutePrepared name vs" by (auto simp: is_execute_def split: query.splits)
    show ?thesis
    proof (cases "ebind (bindPreparedSql name vs s) Parser_parse")
      case (Inl e)
      then have "r = (s, Inl e)" using run q by simp
      then show ?thesis by (simp add: returned_def)
    next
      case (Inr q')
      then have "returned pf q' s r" using run q IH by simp
      then show ?thesis using Inr q runs_bound by (fastforce simp: returned_def ebind_eq_Inr)
    qed
  qed
qed

section \<open>Conditions that are known or fail at once\<close>

fun first_column :: "predicate \<Rightarrow> string" where
  "first_column (PAnd p q) = first_column p"
| "first_column (POr p q) = first_column p"
| "first_column (Comparison column op v) = column"

lemma matches_first_unknown:
  "Table_columnIndex (first_column p) t = None \<Longrightarrow> matches r t p = Inl (RuntimeError ''unknown predicate column'')"
  by (induction p) simp_all

text \<open>Every column of the condition is one of the table, or already the first one is not.\<close>

definition settled :: "vtable \<Rightarrow> predicate option \<Rightarrow> bool" where
  "settled t cond \<longleftrightarrow> known_columns t (cond_columns cond) \<or>
     (\<exists>p. cond = Some p \<and> Table_columnIndex (first_column p) t = None)"

fun condition_settled :: "query \<Rightarrow> executor \<Rightarrow> bool" where
  "condition_settled (Update u) s \<longleftrightarrow>
     (case requireTable (upd_table u) s of Inl _ \<Rightarrow> True | Inr t \<Rightarrow> settled t (upd_where u))"
| "condition_settled (Delete table cond) s \<longleftrightarrow>
     (case requireTable table s of Inl _ \<Rightarrow> True | Inr t \<Rightarrow> settled t cond)"
| "condition_settled q s \<longleftrightarrow> True"

lemma loops_first_unknown:
  assumes "Table_columnIndex (first_column p) t = None"
  shows "fst (update_loop (Some p) c v rows ids n t) = t" and "fst (delete_loop (Some p) rows ids n t) = t"
  using assms by (cases ids; simp add: selected_def matches_first_unknown)+

section \<open>What a statement leaves when it throws\<close>

abbreviation takes_log :: "query \<Rightarrow> executor \<Rightarrow> bool" where
  "takes_log q s \<equiv> can_log (log_entries q) s"

lemma logged_answers:
  assumes "can_log [(op, sql)] s" and "ex_wal s1 = ex_wal s" "ex_disk s1 = ex_disk s" "ex_replaying s1 = ex_replaying s"
  shows "act_bind (append_if b op sql) (\<lambda>_. reply c m) s1 \<noteq> (s', Inl e)"
  using append_if_ok[OF can_log_cong[OF assms(1,4,2,3)], of b] by (auto simp: act_bind_def reply_def)

lemma refused_createDatabase:
  "can_log [(WalCreateDatabase, name)] s \<Longrightarrow> name \<noteq> [] \<Longrightarrow> executeCreateDatabase name s \<noteq> (s', Inl e)"
  using executeCreateDatabase_spec[of name "[]" s] by fastforce

lemma refused_createTable:
  assumes "can_log [(WalCreateTable, createTableSql name columns)] s"
    and "executeCreateTable name columns s = (s', Inl e)"
  shows "s' = s"
  using assms logged_answers[OF assms(1)]
  by (auto simp: executeCreateTable_def with_database_def reply_def split: option.splits sum.splits prod.splits)

lemma refused_dropTable:
  assumes "can_log [(WalDropTable, dropTableSql name)] s"
  shows "executeDropTable name s \<noteq> (s', Inl e)"
  using logged_answers[OF assms]
  by (auto simp: executeDropTable_def with_database_def reply_def split: option.splits prod.splits)

lemma renameTable_answers:
  assumes "Database_inv db" and "newName \<noteq> []"
  shows "\<exists>db' b. Database_renameTable oldName newName db = (db', Inr b)"
proof (cases "Database_table oldName db = None \<or> Database_table newName db \<noteq> None")
  case True
  then show ?thesis using Database_renameTable_refused by blast
next
  case False
  then show ?thesis using Database_renameTable_spec[OF assms(1)] assms(2) by fastforce
qed

lemma refused_renameTable:
  assumes "can_log [(WalRenameTable, renameTableSql a b)] s" and "db_ok s" and "b \<noteq> []"
  shows "executeRenameTable a b s \<noteq> (s', Inl e)"
proof (cases "ex_database s")
  case (Some db)
  obtain db' c where "Database_renameTable a b db = (db', Inr c)"
    using renameTable_answers[OF _ assms(3)] assms(2) Some by fastforce
  then show ?thesis using logged_answers[OF assms(1)] Some
    by (simp add: executeRenameTable_def with_database_def)
qed (simp add: executeRenameTable_def with_database_def reply_def)

lemma refused_createIndex:
  assumes "can_log [(WalCreateIndex, createIndexSql name table column)] s"
    and "executeCreateIndex name table column s = (s', Inl e)"
  shows "s' = s"
  using assms(2) logged_answers[OF assms(1)]
  by (auto simp: executeCreateIndex_def put_table_def split: sum.splits prod.splits)

lemma refused_insert:
  assumes "can_log (map (\<lambda>r. (WalInsert, insertSql table r)) rows) s" and "db_ok s"
    and "\<forall>r \<in> set rows. \<forall>v \<in> set r. value_ok v" and "executeInsert table rows s = (s', Inl e)"
  shows "s' = s"
proof (cases "requireTable table s")
  case (Inl e')
  then show ?thesis using assms(4) by (simp add: executeInsert_def)
next
  case (Inr t)
  show ?thesis
  proof (cases "\<forall>r \<in> set rows. row_fits (tb_schema t) r")
    case True
    then have "\<forall>r \<in> set rows. row_ok (tb_schema t) r" using assms(3) by (simp add: row_ok_def)
    from executeInsert_spec[OF Inr assms(2) this assms(1)] assms(4) show ?thesis by auto
  next
    case False
    then show ?thesis using executeInsert_invalid[OF Inr] assms(4) by fastforce
  qed
qed

text \<open>UPDATE and DELETE put back the table they got, or answer.\<close>

lemma finish_change_refused:
  assumes "can_log [(op, sql)] s" and "finish_change name op sql verb res s = (s', Inl e)"
    and "requireTable name s = Inr t" and "fst res = t"
  shows "s' = s"
proof (cases "snd res")
  case (Inl e')
  then have "res = (t, Inl e')" using assms(4) by (simp add: prod_eq_iff)
  then show ?thesis using assms(2,3) by (simp add: finish_change_def put_table_same)
next
  case (Inr n)
  then have "res = (t, Inr n)" using assms(4) by (simp add: prod_eq_iff)
  then show ?thesis using finish_change_spec[OF assms(1), of name verb t n] assms(2) by auto
qed

lemma refused_update:
  assumes log: "can_log [(WalUpdate, updateSql u)] s" and inv: "db_ok s" and v: "value_ok (upd_value u)"
    and cond: "condition_settled (Update u) s" and run: "executeUpdate u s = (s', Inl e)"
  shows "s' = s"
proof (cases "requireTable (upd_table u) s")
  case (Inl e')
  then show ?thesis using run by (simp add: executeUpdate_def)
next
  case (Inr t)
  then have t: "Table_inv t" using requireTable_inv[OF _ inv] by blast
  show ?thesis
  proof (cases "Table_columnIndex (upd_column u) t")
    case None
    then show ?thesis using run Inr by (simp add: executeUpdate_def throw_error_def)
  next
    case (Some c)
    let ?rows = "Table_rowsSnapshot t"
    let ?loop = "update_loop (upd_where u) c (upd_value u) ?rows [0..<length ?rows] 0 t"
    have fin: "finish_change (upd_table u) WalUpdate (updateSql u) ''updated '' ?loop s = (s', Inl e)"
      using run by (simp add: executeUpdate_def Inr Some Let_def)
    have c: "c < length (tb_schema t)" using Table_columnIndex_Some[OF Some] by simp
    note kept = finish_change_refused[OF log fin Inr]
    from cond Inr have "settled t (upd_where u)" by simp
    then consider (known) "known_columns t (cond_columns (upd_where u))"
      | (first) p where "upd_where u = Some p" "Table_columnIndex (first_column p) t = None"
      by (auto simp: settled_def)
    then show ?thesis
    proof cases
      case first
      then show ?thesis using kept loops_first_unknown(1) by simp
    next
      case known
      show ?thesis
      proof (cases "cell_fits (tb_schema t ! c) (upd_value u)")
        case True
        with executeUpdate_spec[OF Inr inv known Some _ v log] run show ?thesis by auto
      next
        case False
        have "\<forall>i \<in> set [0..<length ?rows]. i < length ?rows" by simp
        from update_loop_invalid[OF t known refl c False this refl, of 0] have "fst ?loop = t"
          by (auto split: if_splits)
        with kept show ?thesis .
      qed
    qed
  qed
qed

lemma refused_delete:
  assumes log: "can_log [(WalDelete, deleteSql table cond)] s" and inv: "db_ok s"
    and cond: "condition_settled (Delete table cond) s" and run: "executeDelete table cond s = (s', Inl e)"
  shows "s' = s"
proof (cases "requireTable table s")
  case (Inl e')
  then show ?thesis using run by (simp add: executeDelete_def)
next
  case (Inr t)
  let ?rows = "Table_rowsSnapshot t"
  let ?loop = "delete_loop cond ?rows (rev [0..<length ?rows]) 0 t"
  have fin: "finish_change table WalDelete (deleteSql table cond) ''deleted '' ?loop s = (s', Inl e)"
    using run by (simp add: executeDelete_def Inr Let_def)
  from cond Inr have "settled t cond" by simp
  then consider (known) "known_columns t (cond_columns cond)"
    | (first) p where "cond = Some p" "Table_columnIndex (first_column p) t = None"
    by (auto simp: settled_def)
  then show ?thesis
  proof cases
    case known
    from executeDelete_spec[OF Inr inv known log] run show ?thesis by auto
  next
    case first
    then have "fst ?loop = t" using loops_first_unknown(2) by simp
    from finish_change_refused[OF log fin Inr this] show ?thesis .
  qed
qed

lemma refused_begin:
  assumes "db_ok s"
  shows "executeBegin s \<noteq> (s', Inl e)"
proof (cases "ex_database s")
  case (Some db)
  then obtain copy where "Database_clone db = Inr copy" using Database_clone_spec[of db] assms by auto
  then show ?thesis using Some
    by (simp add: executeBegin_def with_database_def reply_def split: prod.split)
qed (simp add: executeBegin_def with_database_def reply_def)

text \<open>
  A statement that throws: the parser's statements other than SAVE, in a state whose log takes the
  records the statement would append.
\<close>

lemma refusal_unchanged:
  assumes "query_ok q" and "q \<noteq> SaveDatabase" and "db_ok s" and "takes_log q s" and "condition_settled q s"
    and run: "executeUnlocked pf q s = (s', Inl e)"
  shows "s' = s"
proof (cases q)
  case (CreateDatabase name)
  then have "name \<noteq> []" using assms(1) by (auto simp: word_text_def)
  then show ?thesis using refused_createDatabase assms(4) run CreateDatabase by simp
next
  case (RenameTable a b)
  then have "b \<noteq> []" using assms(1) by (auto simp: word_text_def)
  then show ?thesis using refused_renameTable assms(3,4) run RenameTable by simp
next
  case (CreateTable name columns)
  then show ?thesis using refused_createTable assms(4) run by simp
next
  case (DropTable name)
  then show ?thesis using refused_dropTable assms(4) run by simp
next
  case (Insert table rows)
  then show ?thesis using refused_insert[of table rows s] assms(1,3,4) run by (auto simp: row_wf_def)
next
  case (Update u)
  then show ?thesis using refused_update[of u s] assms(1,3,4,5) run by simp
next
  case (Delete table cond)
  then show ?thesis using refused_delete[of table cond s] assms(3,4,5) run by simp
next
  case (CreateIndex name table column)
  then show ?thesis using refused_createIndex assms(4) run by simp
next
  case BeginTransaction
  then show ?thesis using refused_begin assms(3) run by simp
next
  case (LoadDatabase name)
  then show ?thesis using run by (auto simp: executeLoadDatabase_def reply_def split: option.splits sum.splits)
next
  case CommitTransaction
  then show ?thesis using run by (auto simp: executeCommit_def reply_def split: option.splits sum.splits if_splits)
next
  case RollbackTransaction
  then show ?thesis using run by (auto simp: executeRollback_def reply_def split: option.splits sum.splits)
qed (use run assms(2) in \<open>simp_all add: executePrepare_def reply_def throw_error_def\<close>)

text \<open>What a statement must be for its exception to leave nothing behind.\<close>

definition refusable :: "query \<Rightarrow> executor \<Rightarrow> bool" where
  "refusable q s \<longleftrightarrow> query_ok q \<and> q \<noteq> SaveDatabase \<and> condition_settled q s \<and> takes_log q s"

lemma refused_unchanged:
  assumes "execute pf q s = Some (s', Inl e)" and "\<forall>q'. runs_as s q q' \<longrightarrow> refusable q' s" and "db_ok s"
  shows "s' = s"
proof -
  from execute_returned[OF assms(1)] consider "s' = s"
    | q' where "runs_as s q q'" "executeUnlocked pf q' s = (s', Inl e)"
    by (auto simp: returned_def)
  then show ?thesis
  proof cases
    case 2
    with assms(2) have "refusable q' s" by blast
    then show ?thesis using refusal_unchanged[OF _ _ assms(3) _ _ 2(2)] by (simp add: refusable_def)
  qed
qed

end
