(* ===== verification/Durability.thy ===== *)
theory Durability
  imports Likeness SnapshotCut Refusals ExecutorSamples
begin

text \<open>
  The life of one installation: statements, saves and restarts in any order (\<open>lifetime\<close>). Its
  invariant is \<open>durable\<close>: the directory holds a base, no saved database or exactly one, and a log
  that takes an executor with the content of the base to the content of the running one. A crash
  then loses nothing, since what a new executor computes from the directory is just that.
\<close>

section \<open>The base\<close>

definition contents :: "executor \<Rightarrow> (string \<times> (string \<times> table_content) list) option" where
  "contents s = map_option Database_content (ex_database s)"

text \<open>
  What recovery relies on: the arguments of one call are evaluated from left to right, the
  directory is listed completely, and no write of a snapshot falls short.
\<close>

definition reliable :: "platform \<Rightarrow> bool" where
  "reliable pf \<longleftrightarrow> pf_ltr pf \<and> (\<forall>xs. set (pf_order pf xs) = set xs) \<and> se_failure (pf_save pf) = None"

text \<open>The directory has no saved database, or just this one.\<close>

definition only_saved :: "string \<Rightarrow> disk \<Rightarrow> bool" where
  "only_saved name d \<longleftrightarrow> (\<forall>f \<in> names d. path_extension f = kExtension \<longrightarrow> f = pathFor name)"

definition base_ok :: "database option \<Rightarrow> disk \<Rightarrow> bool" where
  "base_ok base d = (case base of
     None \<Rightarrow> \<forall>f \<in> names d. path_extension f \<noteq> kExtension
   | Some db \<Rightarrow> Database_inv db \<and> database_stored db \<and> only_saved (db_name db) d \<and>
       disk_read (pathFor (db_name db)) d = Some (writeDatabase db))"

lemma path_not_wal: "name \<noteq> [] \<Longrightarrow> pathFor name \<noteq> walFile"
  using path_of_name(1) wal_extension by metis

lemma base_ok_files:
  assumes "base_ok base d" and "\<forall>f \<in> names d'. f \<in> names d \<or> path_extension f \<noteq> kExtension"
    and "\<And>f bs. path_extension f = kExtension \<Longrightarrow> disk_read f d = Some bs \<Longrightarrow> disk_read f d' = Some bs"
  shows "base_ok base d'"
proof (cases base)
  case None
  then show ?thesis using assms(1,2) by (auto simp: base_ok_def)
next
  case (Some db)
  then have "path_extension (pathFor (db_name db)) = kExtension"
    using assms(1) path_of_name(1) by (auto simp: base_ok_def Database_inv_def)
  then show ?thesis using assms Some by (auto simp: base_ok_def only_saved_def)
qed

lemma base_ok_logs:
  assumes "base_ok base (ex_disk s0)" and "logs es s0 s"
  shows "base_ok base (ex_disk s)"
proof (rule base_ok_files[OF assms(1)])
  show "\<forall>f \<in> names (ex_disk s). f \<in> names (ex_disk s0) \<or> path_extension f \<noteq> kExtension"
    using assms(2) wal_extension by (auto simp: logs_def names_def)
  show "disk_read f (ex_disk s) = Some bs" if "path_extension f = kExtension" "disk_read f (ex_disk s0) = Some bs" for f bs
  proof -
    have "f \<noteq> walFile" using that(1) wal_extension by metis
    with assms(2) that(2) show ?thesis unfolding logs_def by blast
  qed
qed

text \<open>What a new executor has before it looks at the log.\<close>

lemma base_loaded:
  assumes "base_ok base d" and "reliable pf"
  shows "\<exists>b. QueryExecutor_new pf d = recoverFromWal pf (b \<noteq> None) ((started d)\<lparr>ex_database := b\<rparr>) \<and>
    pred_option Database_inv b \<and> map_option Database_content b = map_option Database_content base"
proof (cases base)
  case None
  have "\<exists>e. StorageManager_loadFirstDatabase (pf_ltr pf) (pf_order pf) d = Inl e"
    by (rule no_saved_database) (use assms None in \<open>auto simp: base_ok_def names_def reliable_def\<close>)
  from new_executor_unsaved[OF this] None show ?thesis by (intro exI[of _ None]) (simp add: started_def)
next
  case (Some db)
  then have db: "Database_inv db" "database_stored db" "only_saved (db_name db) d"
    "disk_read (pathFor (db_name db)) d = Some (writeDatabase db)"
    using assms(1) by (simp_all add: base_ok_def)
  then have "db_name db \<noteq> []" by (simp add: Database_inv_def)
  from loadFirst_only[OF this db(4)] have load: "StorageManager_loadFirstDatabase (pf_ltr pf) (pf_order pf) d =
      readDatabase (pf_ltr pf) (writeDatabase db)"
    using db(3) assms(2) by (simp add: only_saved_def reliable_def)
  obtain b where "readDatabase True (writeDatabase db) = Inr b" "Database_inv b"
    "Database_content b = Database_content db"
    using readDatabase_content[OF db(1,2)] by blast
  then show ?thesis using load assms(2) Some
    by (intro exI[of _ "Some b"]) (simp add: QueryExecutor_new_def recoverFromStorage_def started_def reliable_def)
qed

section \<open>What recovery replays\<close>

text \<open>No statement logs a save marker, so recovery replays the whole log; after a marker, nothing.\<close>

lemma log_entries_no_save: "WalSaveDatabase \<notin> fst ` set (log_entries q)"
  by (cases q) auto

lemma records_to_replay_all:
  assumes "WalSaveDatabase \<notin> wr_operation ` set rs"
  shows "records_to_replay loaded rs = rs"
proof -
  have none: "wr_operation (rs ! i) \<noteq> WalSaveDatabase" if "i < length rs" for i
    using that assms by (metis image_eqI nth_mem)
  have "fold (\<lambda>i start. if wr_operation (rs ! i) = WalSaveDatabase then i + 1 else start) [0..<length rs] (0 :: nat) =
      fold (\<lambda>i. id) [0..<length rs] 0"
    by (intro fold_cong) (auto simp: none fun_eq_iff)
  also have "\<dots> = 0" by (induction rs) simp_all
  finally show ?thesis by (simp add: records_to_replay_def)
qed

lemma records_to_replay_marked:
  "wr_operation r = WalSaveDatabase \<Longrightarrow> records_to_replay True (rs @ [r]) = []"
  by (simp add: records_to_replay_def)

lemma recoverFromWal_replays:
  assumes "WriteAheadLog_readAll (ex_disk r) = Inr rs" and "\<not> ex_replaying r"
    and "replay pf (records_to_replay loaded rs) (r\<lparr>ex_replaying := True\<rparr>) = (r', Inr ())"
  shows "recoverFromWal pf loaded r = r'\<lparr>ex_replaying := False\<rparr>"
proof (cases "rs = []")
  case True
  then have "r' = r\<lparr>ex_replaying := True\<rparr>" using assms(3) by (simp add: records_to_replay_def split: if_splits)
  then show ?thesis using assms(1,2) True by (simp add: recoverFromWal_def)
qed (use assms in \<open>simp add: recoverFromWal_def\<close>)

lemma wal_ok_mono: "wal_ok k rs w d \<Longrightarrow> k \<le> k' \<Longrightarrow> wal_ok k' rs w d"
  by (fastforce simp: wal_ok_def split: option.splits)

section \<open>The invariant\<close>

definition durable :: "platform \<Rightarrow> nat \<Rightarrow> executor \<Rightarrow> bool" where
  "durable pf k s \<longleftrightarrow> k < 2 ^ 64 \<and> (\<exists>s0 base es. db_ok s0 \<and>
     contents s0 = map_option Database_content base \<and> base_ok base (ex_disk s0) \<and>
     wal_ok 1 [] (ex_wal s0) (ex_disk s0) \<and> scripts like pf es s0 s \<and>
     length es < k \<and> entries_fit es \<and> WalSaveDatabase \<notin> fst ` set es)"

text \<open>Everything the invariant says of the directory alone.\<close>

lemma durableE:
  assumes "durable pf k s"
  obtains rs base where "base_ok base (ex_disk s)" "wal_ok k rs (ex_wal s) (ex_disk s)"
    "WalSaveDatabase \<notin> wr_operation ` set rs" "db_ok s" "\<not> ex_replaying s"
    "\<And>r. ex_replaying r \<Longrightarrow> db_ok r \<Longrightarrow> contents r = map_option Database_content base \<Longrightarrow>
       \<exists>r'. replay pf rs r = (r', Inr ()) \<and> same_files r r' \<and> like s r'"
proof -
  obtain s0 base es where s0: "db_ok s0" "contents s0 = map_option Database_content base" "base_ok base (ex_disk s0)"
    and wal: "wal_ok 1 [] (ex_wal s0) (ex_disk s0)" and run: "scripts like pf es s0 s"
    and es: "length es < k" "k < 2 ^ 64" "entries_fit es" "WalSaveDatabase \<notin> fst ` set es"
    using assms unfolding durable_def by blast
  have logs: "logs es s0 s" and live: "\<not> ex_replaying s"
    and replays: "\<And>r. like s0 r \<Longrightarrow> \<exists>r'. replays pf es r r' \<and> like s r'"
    using run by (simp_all add: scripts_def)
  obtain rs where rs: "wal_ok (1 + length es) rs (ex_wal s) (ex_disk s)" "map entry rs = es"
    using logsD[OF logs wal] es by auto
  have "like s0 (s0\<lparr>ex_replaying := True\<rparr>)" using s0(1) by (simp add: like_def)
  from replays[OF this] have "db_ok s" by (auto simp: like_def)
  moreover have "WalSaveDatabase \<notin> wr_operation ` set rs"
    using es(4) by (auto simp: rs(2)[symmetric] entry_def image_image)
  moreover have "\<exists>r'. replay pf rs r = (r', Inr ()) \<and> same_files r r' \<and> like s r'"
    if "ex_replaying r" "db_ok r" "contents r = map_option Database_content base" for r
  proof -
    have "like s0 r" using that s0(1,2) by (simp add: like_def contents_def)
    then show ?thesis using replays rs(2) unfolding replays_def by blast
  qed
  ultimately show thesis
    using that base_ok_logs[OF s0(3) logs] wal_ok_mono[OF rs(1), of k] es(1) live by auto
qed

section \<open>Every step keeps it\<close>

lemma reliable_order: "reliable pf \<Longrightarrow> \<forall>xs. set (pf_order pf xs) \<subseteq> set xs"
  by (simp add: reliable_def)

lemma durable_based:
  assumes "db_ok s" and "contents s = map_option Database_content base" and "base_ok base (ex_disk s)"
    and "wal_ok 1 [] (ex_wal s) (ex_disk s)" and "\<not> ex_replaying s"
  shows "durable pf 1 s"
  unfolding durable_def
  by (intro conjI exI[of _ s] exI[of _ base] exI[of _ "[]"])
    (use assms in \<open>simp_all add: entries_fit_def content.scripts_none logs_none\<close>)

lemma durable_fresh:
  assumes "fresh_disk d" and "reliable pf"
  shows "durable pf 1 (QueryExecutor_new pf d)"
proof -
  have "base_ok None d"
    using assms(1) wal_extension by (auto simp: base_ok_def fresh_disk_def names_def)
  moreover have "wal_ok 1 [] WriteAheadLog_new d"
    using assms(1) by (simp add: fresh_disk_def wal_ok_def WriteAheadLog_new_def)
  ultimately show ?thesis
    unfolding new_executor_fresh[OF assms(1) reliable_order[OF assms(2)]]
    by (intro durable_based[of _ None]) (simp_all add: started_def contents_def)
qed

lemma durable_statement:
  assumes "durable pf k s" and q: "replayable q" and run: "executeUnlocked pf q s = (s', Inr x)"
    and fit: "entries_fit (log_entries q)" and room: "k + length (log_entries q) < 2 ^ 64"
  shows "durable pf (k + length (log_entries q)) s'"
proof -
  obtain s0 base es where s0: "db_ok s0" "contents s0 = map_option Database_content base" "base_ok base (ex_disk s0)"
    "wal_ok 1 [] (ex_wal s0) (ex_disk s0)" and before: "scripts like pf es s0 s"
    and es: "length es < k" "entries_fit es" "WalSaveDatabase \<notin> fst ` set es"
    using assms(1) unfolding durable_def by blast
  have live: "\<not> ex_replaying s" using before by (simp add: scripts_def)
  obtain es' where es': "scripts like pf es' s s'" "es' = [] \<or> es' = log_entries q"
    using content.statement_scripts[OF q live run] by blast
  have "entries_fit (es @ es')" "WalSaveDatabase \<notin> fst ` set (es @ es')"
    using es es'(2) fit log_entries_no_save by (auto simp: entries_fit_def)
  moreover have "length (es @ es') < k + length (log_entries q)" using es(1) es'(2) by auto
  ultimately show ?thesis
    unfolding durable_def using s0 content.scripts_append[OF before es'(1)] room by blast
qed

lemma wal_ok_forget: "wal_ok k rs w d \<Longrightarrow> wal_ok k rs WriteAheadLog_new d"
  by (simp add: wal_ok_def WriteAheadLog_new_def)

lemma logs_forget:
  assumes "logs es s0 s" and "ex_disk s' = ex_disk s" and "ex_wal s' = WriteAheadLog_new"
  shows "logs es s0 s'"
  unfolding logs_def
proof (intro conjI allI impI)
  fix k rs
  assume "wal_ok k rs (ex_wal s0) (ex_disk s0)" "k + length es < 2 ^ 64" "entries_fit es"
  from logsD[OF assms(1) this] obtain rs' where
    "wal_ok (k + length es) (rs @ rs') (ex_wal s) (ex_disk s)" "map entry rs' = es" by blast
  then show "\<exists>rs'. wal_ok (k + length es) (rs @ rs') (ex_wal s') (ex_disk s') \<and> map entry rs' = es"
    unfolding assms(2,3) using wal_ok_forget by blast
qed (use assms in \<open>simp_all add: logs_def\<close>)

lemma durable_restart:
  assumes s: "durable pf k s" and pf: "reliable pf"
  shows "contents (QueryExecutor_new pf (ex_disk s)) = contents s"
    and "durable pf k (QueryExecutor_new pf (ex_disk s))"
proof -
  obtain rs base where base: "base_ok base (ex_disk s)" and rs: "wal_ok k rs (ex_wal s) (ex_disk s)"
    "WalSaveDatabase \<notin> wr_operation ` set rs"
    and replay: "\<And>r. ex_replaying r \<Longrightarrow> db_ok r \<Longrightarrow> contents r = map_option Database_content base \<Longrightarrow>
       \<exists>r'. replay pf rs r = (r', Inr ()) \<and> same_files r r' \<and> like s r'"
    using durableE[OF s] by metis
  obtain b where b: "QueryExecutor_new pf (ex_disk s) =
      recoverFromWal pf (b \<noteq> None) ((started (ex_disk s))\<lparr>ex_database := b\<rparr>)"
    "pred_option Database_inv b" "map_option Database_content b = map_option Database_content base"
    using base_loaded[OF base pf] by blast
  let ?r = "(started (ex_disk s))\<lparr>ex_database := b\<rparr>"
  obtain r' where r': "replay pf rs (?r\<lparr>ex_replaying := True\<rparr>) = (r', Inr ())"
    "same_files (?r\<lparr>ex_replaying := True\<rparr>) r'" "like s r'"
    using replay[of "?r\<lparr>ex_replaying := True\<rparr>"] b(2,3) by (auto simp: contents_def)
  have read: "WriteAheadLog_readAll (ex_disk s) = Inr rs"
    using rs(1) readAll_file_ok by (simp add: wal_ok_def)
  have new: "QueryExecutor_new pf (ex_disk s) = r'\<lparr>ex_replaying := False\<rparr>"
    unfolding b(1) by (rule recoverFromWal_replays[of _ rs])
      (use read r'(1) in \<open>simp_all add: started_def records_to_replay_all[OF rs(2)]\<close>)
  show same: "contents (QueryExecutor_new pf (ex_disk s)) = contents s"
    using r'(3) by (simp add: new contents_def like_def)
  obtain s0 base' es where s0: "db_ok s0" "contents s0 = map_option Database_content base'" "base_ok base' (ex_disk s0)"
    "wal_ok 1 [] (ex_wal s0) (ex_disk s0)" and before: "scripts like pf es s0 s"
    and es: "length es < k" "k < 2 ^ 64" "entries_fit es" "WalSaveDatabase \<notin> fst ` set es"
    using s unfolding durable_def by blast
  have files: "ex_disk r' = ex_disk s" "ex_wal r' = WriteAheadLog_new"
    using r'(2) by (simp_all add: same_files_def started_def)
  have "scripts like pf es s0 (QueryExecutor_new pf (ex_disk s))"
    unfolding scripts_def
  proof (intro conjI allI impI)
    show "logs es s0 (QueryExecutor_new pf (ex_disk s))"
      by (rule logs_forget[of es s0 s]) (use before in \<open>simp_all add: new files scripts_def\<close>)
    show "\<not> ex_replaying (QueryExecutor_new pf (ex_disk s))" by (simp add: new)
    fix r assume "like s0 r"
    with before have "\<exists>r1. replays pf es r r1 \<and> like s r1" by (simp add: scripts_def)
    then obtain r1 where "replays pf es r r1" "like s r1" by blast
    moreover from this(2) r'(3) have "like (QueryExecutor_new pf (ex_disk s)) r1" by (simp add: like_def new)
    ultimately show "\<exists>r'. replays pf es r r' \<and> like (QueryExecutor_new pf (ex_disk s)) r'" by blast
  qed
  with s0 es show "durable pf k (QueryExecutor_new pf (ex_disk s))" unfolding durable_def by blast
qed

section \<open>Saves\<close>

lemma append_dk_log: "appendWal op payload s = (s', y) \<Longrightarrow> dk_log (ex_disk s') = dk_log (ex_disk s)"
  unfolding appendWal_def WriteAheadLog_append_def Let_def
  by (auto split: if_splits sum.splits log_device.splits)

text \<open>What a SAVE that answers leaves: the bytes it wrote under the name of the database, and an empty log.\<close>

lemma save_outcome:
  assumes db: "ex_database s = Some db" "db_name db \<noteq> []"
    and run: "executeUnlocked pf SaveDatabase s = (s', Inr x)"
    and alone: "only_saved (db_name db) (ex_disk s)" and log: "dk_log (ex_disk s) = LogWorks"
  shows "ex_database s' = Some db" and "ex_replaying s' = ex_replaying s"
    and "wal_ok 1 [] (ex_wal s') (ex_disk s')"
    and "disk_read (pathFor (db_name db)) (ex_disk s') = Some (save_bytes (pf_save pf) db)"
    and "only_saved (db_name db) (ex_disk s')"
proof -
  obtain s1 d2 w d3 where app: "appendWal WalSaveDatabase (db_name db) s = (s1, Inr ())"
    and save: "StorageManager_saveDatabase (pf_save pf) db (ex_disk s1) = (d2, Inr ())"
    and reset: "WriteAheadLog_reset (ex_wal s1) d2 = (w, d3)"
    and s': "s' = s1\<lparr>ex_wal := w, ex_disk := d3\<rparr>"
    using db(1) run
    by (auto simp: executeSaveDatabase_def with_database_def act_bind_def reply_def split: prod.splits sum.splits)
  show "ex_database s' = Some db" "ex_replaying s' = ex_replaying s"
    using app db(1) by (auto simp: s' appendWal_def split: if_splits sum.splits prod.splits)
  have d2: "dk_log d2 = LogWorks"
    using save_dk_log[of "pf_save pf" db "ex_disk s1"] append_dk_log[OF app] save log by simp
  show "wal_ok 1 [] (ex_wal s') (ex_disk s')" using wal_reset_spec[OF reset d2] by (simp add: s')
  have d3: "d3 = disk_write walFile [] (disk_create_directories d2)"
    using reset d2 by (auto simp: WriteAheadLog_reset_def Let_def)
  have "names (ex_disk s') \<subseteq> insert walFile (insert (pathFor (db_name db))
      (insert (temporaryPathFor (db_name db)) (names (ex_disk s))))"
    using save_names[OF save] append_names[OF app] by (auto simp: s' d3 disk_names)
  then show "only_saved (db_name db) (ex_disk s')"
    using alone wal_extension path_of_name(3)[OF db(2)] unfolding only_saved_def by blast
  show "disk_read (pathFor (db_name db)) (ex_disk s') = Some (save_bytes (pf_save pf) db)"
    using disk_read_create[OF saveDatabase_success(1)[OF save]] path_not_wal[OF db(2)] by (simp add: s' d3)
qed

lemma durable_save:
  assumes s: "durable pf k s" and db: "ex_database s = Some db" "database_stored db" "only_saved (db_name db) (ex_disk s)"
    and pf: "reliable pf" and run: "executeUnlocked pf SaveDatabase s = (s', Inr x)"
  shows "durable pf 1 s'"
proof -
  have ok: "db_ok s" "\<not> ex_replaying s" "dk_log (ex_disk s) = LogWorks"
    using durableE[OF s] by (auto simp: wal_ok_def wal_file_ok_def)
  then have inv: "Database_inv db" "db_name db \<noteq> []" using db(1) by (auto simp: Database_inv_def)
  note save = save_outcome[OF db(1) inv(2) run db(3) ok(3)]
  have "base_ok (Some db) (ex_disk s')"
    using save(4,5) inv(1) db(2) pf by (simp add: base_ok_def reliable_def save_bytes_def)
  then show ?thesis using save ok(2) inv(1) by (intro durable_based[of _ "Some db"]) (simp_all add: contents_def)
qed

section \<open>The life of an installation\<close>

text \<open>
  On a fresh directory, in any order: statements that answer, as in a session; statements that
  throw (\<open>refusable\<close>, so not SAVE); saves that answer, of a database that is the only saved one;
  and restarts, as after a crash, of which nothing but the directory survives. Each statement can be
  given as such or by an EXECUTE that runs as it. The number bounds the records in the log.
\<close>

inductive lifetime :: "platform \<Rightarrow> disk \<Rightarrow> nat \<Rightarrow> executor \<Rightarrow> bool" for pf d where
  installed: "lifetime pf d 1 (QueryExecutor_new pf d)"
| answered: "lifetime pf d k s \<Longrightarrow> runs_as s q q' \<Longrightarrow> replayable q' \<Longrightarrow> execute pf q s = Some (s', Inr x) \<Longrightarrow>
    entries_fit (log_entries q') \<Longrightarrow> k + length (log_entries q') < 2 ^ 64 \<Longrightarrow>
    lifetime pf d (k + length (log_entries q')) s'"
| refused: "lifetime pf d k s \<Longrightarrow> \<forall>q'. runs_as s q q' \<longrightarrow> refusable q' s \<Longrightarrow>
    execute pf q s = Some (s', Inl e) \<Longrightarrow> lifetime pf d k s'"
| saved: "lifetime pf d k s \<Longrightarrow> ex_database s = Some db \<Longrightarrow> database_stored db \<Longrightarrow>
    only_saved (db_name db) (ex_disk s) \<Longrightarrow> runs_as s q SaveDatabase \<Longrightarrow> execute pf q s = Some (s', Inr x) \<Longrightarrow>
    lifetime pf d 1 s'"
| restarted: "lifetime pf d k s \<Longrightarrow> lifetime pf d k (QueryExecutor_new pf (ex_disk s))"

text \<open>The steps of the statements themselves.\<close>

lemma answered_itself:
  assumes "lifetime pf d k s" and "replayable q" and "executeUnlocked pf q s = (s', Inr x)"
    and "entries_fit (log_entries q)" and "k + length (log_entries q) < 2 ^ 64"
  shows "lifetime pf d (k + length (log_entries q)) s'"
proof -
  have "\<not> is_execute q" using assms(2) by (cases q) (simp_all add: is_execute_def)
  from answered[OF assms(1) runs_itself[OF this] assms(2) _ assms(4,5)]
  show ?thesis using assms(3) by (simp add: replayable_execute[OF assms(2)])
qed

lemma save_itself: "runs_as s SaveDatabase SaveDatabase"
  by (rule runs_itself) (simp add: is_execute_def)

lemma saved_itself:
  assumes "lifetime pf d k s" and "ex_database s = Some db" and "database_stored db"
    and "only_saved (db_name db) (ex_disk s)" and "executeUnlocked pf SaveDatabase s = (s', Inr x)"
  shows "lifetime pf d 1 s'"
  using saved[OF assms(1-4) save_itself] runs_as_execute[OF save_itself] assms(5) by metis

lemma lifetime_durable:
  assumes "lifetime pf d k s" and "fresh_disk d" and "reliable pf"
  shows "durable pf k s"
  using assms(1)
proof induction
  case installed
  show ?case by (rule durable_fresh[OF assms(2,3)])
next
  case (answered k s q q' s' x)
  then have "executeUnlocked pf q' s = (s', Inr x)" using runs_as_execute[OF answered.hyps(2)] by simp
  then show ?case using durable_statement[OF answered.IH] answered.hyps by auto
next
  case (refused k s q s' e)
  have "db_ok s" using durableE[OF refused.IH] by metis
  from refused_unchanged[OF refused.hyps(3,2) this] refused.IH show ?case by simp
next
  case (saved k s db q s' x)
  then have "executeUnlocked pf SaveDatabase s = (s', Inr x)" using runs_as_execute[OF saved.hyps(5)] by simp
  then show ?case using durable_save[OF saved.IH _ _ _ assms(3)] saved.hyps by auto
next
  case (restarted k s)
  then show ?case using durable_restart(2)[OF _ assms(3)] by blast
qed

text \<open>What a step needs: room in the log, and the files it leaves alone.\<close>

lemma durable_can_log:
  assumes "durable pf k s" and "entries_fit es" and "k + length es < 2 ^ 64"
  shows "can_log es s"
proof -
  obtain rs where "wal_ok k rs (ex_wal s) (ex_disk s)" using durableE[OF assms(1)] by metis
  with assms(2,3) show ?thesis unfolding can_log_def by blast
qed

lemma statement_files:
  assumes "replayable q" and "\<not> ex_replaying s" and "executeUnlocked pf q s = (s', Inr x)"
  shows "names (ex_disk s') \<subseteq> insert walFile (names (ex_disk s))"
    and "f \<noteq> walFile \<Longrightarrow> disk_read f (ex_disk s) = Some bs \<Longrightarrow> disk_read f (ex_disk s') = Some bs"
proof -
  obtain es where "logs es s s'"
    using content.statement_scripts[OF assms] by (auto simp: scripts_def)
  then show "names (ex_disk s') \<subseteq> insert walFile (names (ex_disk s))"
    and "f \<noteq> walFile \<Longrightarrow> disk_read f (ex_disk s) = Some bs \<Longrightarrow> disk_read f (ex_disk s') = Some bs"
    by (simp_all add: logs_def names_def)
qed

lemma durable_session:
  assumes "durable pf k s" and "list_all replayable qs" and "session pf qs s = Some s'"
    and "entries_fit (concat (map log_entries qs))" and "k + length (concat (map log_entries qs)) < 2 ^ 64"
  shows "durable pf (k + length (concat (map log_entries qs))) s'"
  using assms
proof (induction qs arbitrary: k s)
  case (Cons q qs)
  have q: "replayable q" using Cons.prems(2) by simp
  obtain s1 x where run: "executeUnlocked pf q s = (s1, Inr x)" and rest: "session pf qs s1 = Some s'"
    using Cons.prems(3) by (auto simp: replayable_execute[OF q] split: prod.splits sum.splits)
  have fit: "entries_fit (log_entries q)" "entries_fit (concat (map log_entries qs))"
    using Cons.prems(4) by (simp_all add: entries_fit_def)
  have "durable pf (k + length (log_entries q)) s1"
    by (rule durable_statement[OF Cons.prems(1) q run fit(1)]) (use Cons.prems(5) in simp)
  from Cons.IH[OF this _ rest fit(2)] Cons.prems(2,5) show ?case by (simp add: add.assoc)
qed simp

text \<open>No statement of a session touches a snapshot.\<close>

lemma session_files:
  assumes "durable pf k s" and "list_all replayable qs" and "session pf qs s = Some s'"
    and "f \<noteq> walFile" and "disk_read f (ex_disk s) = Some bs"
  shows "disk_read f (ex_disk s') = Some bs"
proof -
  have "\<not> ex_replaying s" using durableE[OF assms(1)] by metis
  from this assms(2,3,5) show ?thesis
  proof (induction qs arbitrary: s)
    case (Cons q qs)
    have q: "replayable q" using Cons.prems(2) by simp
    obtain s1 x where run: "executeUnlocked pf q s = (s1, Inr x)" and rest: "session pf qs s1 = Some s'"
      using Cons.prems(3) by (auto simp: replayable_execute[OF q] split: prod.splits sum.splits)
    have "\<not> ex_replaying s1"
      using content.statement_scripts[OF q Cons.prems(1) run] by (auto simp: scripts_def)
    moreover have "disk_read f (ex_disk s1) = Some bs"
      by (rule statement_files(2)[OF q Cons.prems(1) run assms(4) Cons.prems(4)])
    ultimately show ?case using Cons.IH Cons.prems(2) rest by simp
  qed simp
qed

text \<open>LOAD reads back what was saved. It changes neither the snapshot nor the log.\<close>

lemma load_saved:
  assumes db: "Database_inv db" "database_stored db" "disk_read (pathFor (db_name db)) (ex_disk s) = Some (writeDatabase db)"
    and pf: "pf_ltr pf"
  shows "\<exists>db'. executeUnlocked pf (LoadDatabase (Some (db_name db))) s =
      (s\<lparr>ex_database := Some db', ex_snapshot := None\<rparr>, Inr (messageResult True (''loaded database '' @ db_name db))) \<and>
    Database_content db' = Database_content db"
proof -
  obtain db' where db': "readDatabase True (writeDatabase db) = Inr db'" "Database_content db' = Database_content db"
    using readDatabase_content[OF db(1,2)] by blast
  moreover have "db_name db' = db_name db" using db'(2) by (simp add: Database_content_def)
  ultimately show ?thesis using db(3) pf
    by (intro exI[of _ db']) (simp add: executeLoadDatabase_def StorageManager_loadDatabase_def reply_def)
qed

text \<open>A save, a session, and a load of what was saved.\<close>

lemma load_outcome:
  assumes s: "durable pf k s" and db: "ex_database s = Some db" "database_stored db" "only_saved (db_name db) (ex_disk s)"
    and pf: "reliable pf" and save: "executeUnlocked pf SaveDatabase s = (s0, Inr r)"
    and qs: "list_all replayable qs" "session pf qs s0 = Some s1" "entries_fit (concat (map log_entries qs))"
      "length (concat (map log_entries qs)) + 1 < 2 ^ 64"
  shows "\<exists>s2. executeUnlocked pf (LoadDatabase (Some (db_name db))) s1 =
      (s2, Inr (messageResult True (''loaded database '' @ db_name db))) \<and>
    contents s2 = contents s \<and> ex_snapshot s2 = None \<and>
    contents (QueryExecutor_new pf (ex_disk s2)) = contents s1"
proof -
  have ok: "Database_inv db" "dk_log (ex_disk s) = LogWorks"
    using durableE[OF s] db(1) by (auto simp: wal_ok_def wal_file_ok_def)
  then have name: "db_name db \<noteq> []" by (simp add: Database_inv_def)
  have start: "durable pf 1 s0" by (rule durable_save[OF s db pf save])
  have "disk_read (pathFor (db_name db)) (ex_disk s0) = Some (writeDatabase db)"
    using save_outcome(4)[OF db(1) name save db(3) ok(2)] pf by (simp add: reliable_def save_bytes_def)
  from session_files[OF start qs(1,2) path_not_wal[OF name] this]
  have "disk_read (pathFor (db_name db)) (ex_disk s1) = Some (writeDatabase db)" .
  from load_saved[OF ok(1) db(2) this, of pf] pf obtain db' where
    load: "executeUnlocked pf (LoadDatabase (Some (db_name db))) s1 =
      (s1\<lparr>ex_database := Some db', ex_snapshot := None\<rparr>, Inr (messageResult True (''loaded database '' @ db_name db)))"
      "Database_content db' = Database_content db"
    by (auto simp: reliable_def)
  have "durable pf (1 + length (concat (map log_entries qs))) s1"
    by (rule durable_session[OF start qs(1-3)]) (use qs(4) in simp)
  from durable_restart(1)[OF this pf] have "contents (QueryExecutor_new pf (ex_disk s1)) = contents s1" .
  then show ?thesis using load db(1) by (simp add: contents_def)
qed

text \<open>A save in any state, then a session and a crash.\<close>

lemma checkpoint_recovery:
  assumes db: "ex_database s = Some db" "Database_inv db" "database_stored db" "\<not> ex_replaying s"
      "only_saved (db_name db) (ex_disk s)" "dk_log (ex_disk s) = LogWorks"
    and pf: "reliable pf" and save: "executeUnlocked pf SaveDatabase s = (s0, Inr r)"
    and qs: "list_all replayable qs" "session pf qs s0 = Some s'" "entries_fit (concat (map log_entries qs))"
      "length (concat (map log_entries qs)) + 1 < 2 ^ 64"
  shows "contents (QueryExecutor_new pf (ex_disk s')) = contents s'"
proof -
  have "db_name db \<noteq> []" using db(2) by (simp add: Database_inv_def)
  note out = save_outcome[OF db(1) this save db(5,6)]
  have "base_ok (Some db) (ex_disk s0)"
    using out db pf by (simp add: base_ok_def reliable_def save_bytes_def)
  then have "durable pf 1 s0"
    using out db by (intro durable_based[of _ "Some db"]) (simp_all add: contents_def)
  from durable_session[OF this qs(1-3)] qs(4) have "durable pf (1 + length (concat (map log_entries qs))) s'" by simp
  from durable_restart(1)[OF this pf] show ?thesis .
qed

section \<open>Saves that fall short\<close>

lemma early_failure:
  assumes "StorageManager_saveDatabase env db d = (d', Inl e)" and "\<not> se_open_ok env \<or> save_noticed env"
  shows "names d' \<subseteq> insert (temporaryPathFor (db_name db)) (names d)"
    and "f \<noteq> temporaryPathFor (db_name db) \<Longrightarrow> disk_read f d' = disk_read f (disk_create_directories d)"
    and "dk_log d' = dk_log d"
  using assms saveDatabase_failure[OF assms(1)] save_dk_log[of env db d]
  by (auto simp: StorageManager_saveDatabase_def Let_def disk_names split: if_splits)

text \<open>The snapshot in the directory is the base.\<close>

lemma base_is_snapshot:
  assumes "base_ok base d" and "Database_inv db" and "database_stored db"
    and "disk_read (pathFor (db_name db)) d = Some (writeDatabase db)"
  shows "map_option Database_content base = Some (Database_content db)"
proof -
  have name: "db_name db \<noteq> []" using assms(2) by (simp add: Database_inv_def)
  have held: "pathFor (db_name db) \<in> names d" using read_names[OF assms(4)] .
  then obtain db' where base: "base = Some db'" using assms(1) path_of_name(1)[OF name] by (cases base) (auto simp: base_ok_def)
  then have db': "Database_inv db'" "database_stored db'" "only_saved (db_name db') d"
    "disk_read (pathFor (db_name db')) d = Some (writeDatabase db')" using assms(1) by (simp_all add: base_ok_def)
  have "pathFor (db_name db) = pathFor (db_name db')"
    using db'(3) held path_of_name(1)[OF name] by (simp add: only_saved_def)
  then have "writeDatabase db' = writeDatabase db" using db'(4) assms(4) by simp
  then show ?thesis
    using base readDatabase_content[OF db'(1,2)] readDatabase_content[OF assms(2,3)] by auto
qed

text \<open>
  A save first appends a marker to the log. When it then fails, the log starts with the marker for
  the next recovery, but the snapshot is still the old one.
\<close>

lemma failed_save_outcome:
  assumes s: "durable pf k s" and pf: "reliable pf"
    and db: "Database_inv db" "database_stored db" "disk_read (pathFor (db_name db)) (ex_disk s) = Some (writeDatabase db)"
    and cur: "ex_database s = Some cur" "length_ok (db_name cur)" "k + 1 < 2 ^ 64"
    and run: "executeUnlocked (pf\<lparr>pf_save := env\<rparr>) SaveDatabase s = (s', Inl e)"
    and env: "\<not> se_open_ok env \<or> save_noticed env"
  shows "contents s' = contents s \<and> contents (QueryExecutor_new pf (ex_disk s')) = Some (Database_content db)"
proof -
  obtain rs base where base: "base_ok base (ex_disk s)" and wal: "wal_ok k rs (ex_wal s) (ex_disk s)"
    and live: "\<not> ex_replaying s"
    using durableE[OF s] by metis
  obtain lsn w d1 where app: "WriteAheadLog_append WalSaveDatabase (db_name cur) (ex_wal s) (ex_disk s) = ((w, d1), Inr lsn)"
    and marked: "wal_ok (k + 1) (rs @ [\<lparr>wr_lsn = lsn, wr_operation = WalSaveDatabase, wr_payload = db_name cur\<rparr>]) w d1"
    using wal_append_spec[OF wal cur(2) _ cur(3), of WalSaveDatabase] by auto
  let ?s1 = "s\<lparr>ex_wal := w, ex_disk := d1\<rparr>"
  have app': "appendWal WalSaveDatabase (db_name cur) s = (?s1, Inr ())" by (simp add: appendWal_def live app)
  obtain d2 where save: "StorageManager_saveDatabase env cur d1 = (d2, Inl e)" and s': "s' = ?s1\<lparr>ex_disk := d2\<rparr>"
    using run by (auto simp: executeSaveDatabase_def with_database_def cur(1) act_bind_def app' reply_def
        split: prod.splits sum.splits)
  note fail = early_failure[OF save env]
  have name: "db_name cur \<noteq> []" using durableE[OF s] cur(1) by (force simp: Database_inv_def)
  have "logs [(WalSaveDatabase, db_name cur)] s ?s1" using appendWal_logs[OF live app'] by simp
  from base_ok_logs[OF base this] have "base_ok base d1" by simp
  then have "base_ok base (ex_disk s')"
  proof (rule base_ok_files)
    show "\<forall>f \<in> names (ex_disk s'). f \<in> names d1 \<or> path_extension f \<noteq> kExtension"
      using fail(1) path_of_name(3)[OF name] by (auto simp: s')
    show "disk_read f (ex_disk s') = Some bs" if "path_extension f = kExtension" "disk_read f d1 = Some bs" for f bs
      using that fail(2)[of f] path_of_name(3)[OF name] disk_read_create[OF that(2)] by (fastforce simp: s')
  qed
  from base_loaded[OF this pf] obtain b where b: "QueryExecutor_new pf (ex_disk s') =
      recoverFromWal pf (b \<noteq> None) ((started (ex_disk s'))\<lparr>ex_database := b\<rparr>)"
    "map_option Database_content b = map_option Database_content base" by blast
  then have content: "map_option Database_content b = Some (Database_content db)"
    using base_is_snapshot[OF base db] by simp
  have "walFile \<noteq> temporaryPathFor (db_name cur)"
    by (simp add: walFile_def temporaryPathFor_def kExtension_def)
  then have "WriteAheadLog_readAll (ex_disk s') =
      Inr (rs @ [\<lparr>wr_lsn = lsn, wr_operation = WalSaveDatabase, wr_payload = db_name cur\<rparr>])"
    using fail(2)[of walFile] marked readAll_file_ok wal_file_ok_create[of _ d1]
    by (simp add: s' wal_ok_def WriteAheadLog_readAll_def)
  then have "recoverFromWal pf True ((started (ex_disk s'))\<lparr>ex_database := b\<rparr>) = (started (ex_disk s'))\<lparr>ex_database := b\<rparr>"
    by (subst recoverFromWal_replays) (auto simp: started_def records_to_replay_marked)
  moreover have "b \<noteq> None" using content by auto
  ultimately show ?thesis using b(1) content cur(1) by (simp add: contents_def s')
qed

text \<open>A save whose last bytes are lost unnoticed.\<close>

lemma silent_save_outcome:
  assumes db: "ex_database s = Some db" "Database_inv db" "database_stored db" "only_saved (db_name db) (ex_disk s)"
    and env: "se_failure (pf_save pf) = Some (n, False)" "n < length (writeDatabase db)"
    and pf: "\<forall>xs. set (pf_order pf' xs) = set xs" and log: "dk_log (ex_disk s) = LogWorks"
    and run: "executeUnlocked pf SaveDatabase s = (s', Inr x)"
  shows "ex_database s' = Some db \<and> ex_database (QueryExecutor_new pf' (ex_disk s')) = None"
proof -
  have name: "db_name db \<noteq> []" using db(2) by (simp add: Database_inv_def)
  note save = save_outcome[OF db(1) name run db(4) log]
  have "cut_of (take n (writeDatabase db)) (writeDatabase db)"
    unfolding cut_of_def using env(2) by (intro exI[of _ "drop n (writeDatabase db)"]) simp
  from readDatabase_cut[OF db(2,3) this] have "\<exists>e. StorageManager_loadFirstDatabase (pf_ltr pf') (pf_order pf') (ex_disk s') = Inl e"
    using loadFirst_only[OF name save(4) _ pf] save(5) env(1)
    by (auto simp: save_bytes_def only_saved_def fails_def)
  note new_executor_unsaved[OF this]
  moreover have "WriteAheadLog_readAll (ex_disk s') = Inr []" using save(3) readAll_file_ok by (simp add: wal_ok_def)
  ultimately have "QueryExecutor_new pf' (ex_disk s') = started (ex_disk s')" by (simp add: recoverFromWal_def started_def)
  then show ?thesis using save(1) by (simp add: started_def)
qed

end
