(* ===== verification/DurabilityProperties.thy ===== *)
theory DurabilityProperties
  imports Durability
begin

text \<open>
  The properties of recovery: that an executor started after a crash has the database of the one
  before it, in every life of an installation, and what can be lost nevertheless.
\<close>

section \<open>A log alone\<close>

text \<open>C2: Recovery from the log. On a directory without a log and a saved database, a session of
  statements of the parser that each returned a result, none of them SAVE, LOAD, ROLLBACK or EXECUTE
  and none with a double literal but those that their text of six digits reads back to, leaves a
  log from which an executor that is started on the same directory, as after a crash, rebuilds
  exactly the database that the session ended with, rows, versions and indexes included. (What such
  sessions leave out is in C1, C30, C35 and C37.)\<close>

theorem crash_recovery:
  assumes "fresh_disk d" and "\<forall>xs. set (pf_order pf xs) \<subseteq> set xs"
    and "list_all replayable qs" and "session pf qs (QueryExecutor_new pf d) = Some s"
    and "entries_fit (concat (map log_entries qs))"
    and "length (concat (map log_entries qs)) + 1 < 2 ^ 64"
  shows "ex_database (QueryExecutor_new pf (ex_disk s)) = ex_database s"
  by (rule recovery_replays_session[OF assms])

theorem crash_recovery_witness:
  "\<exists>s db. session sample_platform sample_session (QueryExecutor_new sample_platform sample_disk) = Some s \<and>
    ex_database s = Some db \<and> ex_database (QueryExecutor_new sample_platform (ex_disk s)) = Some db"
proof -
  obtain s t where s: "session sample_platform sample_session (started sample_disk) = Some s"
    "requireTable ''people'' s = Inr t"
    using sample_session_runs by blast
  have "length (concat (map log_entries sample_session)) + 1 < 2 ^ 64" by (simp add: sample_session_entries)
  from crash_recovery[OF fresh_sample_disk sample_platform_simps(2) sample_session_replayable _
      sample_session_fits this, of s] s(1)
  have "ex_database (QueryExecutor_new sample_platform (ex_disk s)) = ex_database s"
    by (simp add: new_sample_executor)
  with s show ?thesis by (auto simp: new_sample_executor requireTable_Inr)
qed

text \<open>C37: ROLLBACK does not reach the log. When a session as in C2 is followed by a ROLLBACK, the executor
  goes back to the snapshot that BEGIN took, but an executor that is started on the directory
  afterwards has the database from before the ROLLBACK.\<close>

theorem rollback_is_not_durable:
  assumes "fresh_disk d" and "\<forall>xs. set (pf_order pf xs) \<subseteq> set xs"
    and "list_all replayable qs" and "session pf qs (QueryExecutor_new pf d) = Some s"
    and "entries_fit (concat (map log_entries qs))"
    and "length (concat (map log_entries qs)) + 1 < 2 ^ 64"
    and "executeUnlocked pf RollbackTransaction s = (s', Inr (messageResult True ''rolled back transaction''))"
  shows "ex_database s' = ex_snapshot s \<and> ex_database (QueryExecutor_new pf (ex_disk s')) = ex_database s"
proof -
  have "ex_disk s' = ex_disk s" "ex_database s' = ex_snapshot s"
    using assms(7) by (auto simp: executeRollback_def reply_def messageResult_def split: option.splits sum.splits)
  then show ?thesis using recovery_replays_session[OF assms(1-6)] by simp
qed

lemma sample_rollback_runs:
  fixes qs defines "qs \<equiv> [CreateDatabase ''city'', BeginTransaction, CreateTable ''people'' sample_schema]"
  shows "\<exists>s s' t. session sample_platform qs (started sample_disk) = Some s \<and> requireTable ''people'' s = Inr t \<and>
    executeUnlocked sample_platform RollbackTransaction s =
      (s', Inr (messageResult True ''rolled back transaction'')) \<and>
    requireTable ''people'' s' = Inl (RuntimeError ''unknown table'')"
proof -
  let ?es = "[(WalCreateDatabase, ''city''), (WalCreateTable, createTableSql ''people'' sample_schema)]"
  have log: "can_log ?es (started sample_disk)"
    unfolding can_log_def using sample_wal_ok sample_session_fits
    by (intro disjI2 exI[of _ 1] exI[of _ "[]"]) (simp add: sample_session_entries entries_fit_def started_def)
  obtain s1 db where s1: "executeCreateDatabase ''city'' (started sample_disk) =
      (s1\<lparr>ex_database := Some db\<rparr>, Inr (messageResult True (''created database city'')))"
    "can_log (tl ?es) (s1\<lparr>ex_database := Some db\<rparr>)" "Database_new ''city'' = Inr db" "frame (started sample_disk) s1"
    using executeCreateDatabase_spec[of "''city''" "tl ?es" "started sample_disk"] log by auto
  have db: "Database_inv db" "Database_table ''people'' db = None" "Database_clone db = Inr db"
    using Database_new_inv[OF s1(3)] s1(3)
    by (auto simp: Database_new_def Database_table_def Database_clone_def Database_tables_def)
  note f1 = frame_simps[OF s1(4)]
  define t where "t = fst (TransactionManager_begin TransactionManager_new)"
  define tm where "tm = snd (TransactionManager_begin TransactionManager_new)"
  define s2 where "s2 = s1\<lparr>ex_database := Some db, ex_transactions := tm, ex_active := Some (tx_id t), ex_snapshot := Some db\<rparr>"
  have begin_: "executeBegin (s1\<lparr>ex_database := Some db\<rparr>) = (s2, Inr (messageResult True ''began transaction''))"
    using f1 by (simp add: executeBegin_def with_database_def reply_def db s2_def t_def tm_def started_def split: prod.split)
  have log2: "can_log [(WalCreateTable, createTableSql ''people'' sample_schema)] s2"
    using can_log_cong[OF s1(2)] by (simp add: s2_def)
  have s2: "ex_database s2 = Some db" by (simp add: s2_def)
  have ne: "''people'' \<noteq> []" "sample_schema \<noteq> []" by (simp_all add: sample_schema_def)
  obtain s3 db2 t2 where s3: "executeCreateTable ''people'' sample_schema s2 =
      (s3, Inr (messageResult True (''created table '' @ ''people'')))"
    "\<forall>n. Database_table n db2 = (if n = ''people'' then Some t2 else Database_table n db)"
    "frame (s2\<lparr>ex_database := Some db2\<rparr>) s3"
    using executeCreateTable_spec[OF s2 db(1,2) ne log2] by blast
  note f3 = frame_simps[OF s3(3)]
  have find: "TransactionManager_find (tx_id t) tm = Some t \<and> tx_state t = Active"
    using tm_begin_inv[OF tm_inv_new, of t tm] by (simp add: t_def tm_def)
  have run: "session sample_platform qs (started sample_disk) = Some s3"
    using s1(1) begin_ s3(1) by (simp add: qs_def execute_other is_execute_def)
  have req: "requireTable ''people'' s3 = Inr t2" using f3(1) s3(2) by (simp add: requireTable_def)
  have roll: "\<exists>tm'. TransactionManager_rollback (tx_id t) tm = Inr tm'"
    using find by (simp add: TransactionManager_rollback_def)
  show ?thesis
    using run req roll f3 db(2)
    by (auto simp: executeRollback_def reply_def s2_def requireTable_def)
qed

theorem rollback_is_not_durable_witness:
  "\<exists>s s' t. session sample_platform [CreateDatabase ''city'', BeginTransaction, CreateTable ''people'' sample_schema]
      (QueryExecutor_new sample_platform sample_disk) = Some s \<and>
    executeUnlocked sample_platform RollbackTransaction s =
      (s', Inr (messageResult True ''rolled back transaction'')) \<and>
    requireTable ''people'' s' = Inl (RuntimeError ''unknown table'') \<and>
    requireTable ''people'' (QueryExecutor_new sample_platform (ex_disk s')) = Inr t"
proof -
  let ?qs = "[CreateDatabase ''city'', BeginTransaction, CreateTable ''people'' sample_schema]"
  obtain s s' t where run: "session sample_platform ?qs (started sample_disk) = Some s"
    "requireTable ''people'' s = Inr t"
    "executeUnlocked sample_platform RollbackTransaction s =
      (s', Inr (messageResult True ''rolled back transaction''))"
    "requireTable ''people'' s' = Inl (RuntimeError ''unknown table'')"
    using sample_rollback_runs by blast
  have "list_all replayable ?qs" using sample_session_replayable by (simp add: sample_session_def literals_exact_def)
  moreover have "entries_fit (concat (map log_entries ?qs))"
    using sample_session_fits by (simp add: sample_session_entries entries_fit_def)
  moreover have "length (concat (map log_entries ?qs)) + 1 < 2 ^ 64" by simp
  ultimately have "ex_database (QueryExecutor_new sample_platform (ex_disk s')) = ex_database s"
    using rollback_is_not_durable[OF fresh_sample_disk sample_platform_simps(2), of ?qs s s'] run(1,3)
    by (simp add: new_sample_executor)
  with run show ?thesis by (auto simp: new_sample_executor requireTable_def)
qed

section \<open>Snapshots and logs\<close>

text \<open>C1: A crash loses nothing of these installations. On a fresh directory, after any sequence of
  statements that answered, statements that threw, saves that answered and restarts, an executor
  that is started on the directory has the content of the one that was running, whether it is read
  back from the snapshot, replayed from the log, or both. A statement is given as such or by EXECUTE.
  Those that answered are those of C2: without ROLLBACK and LOAD, which the log does not know (C35,
  C37), and with double literals only when their text of six digits reads back to them, since that
  is what the log holds. Those that threw are those of C23; a SAVE that throws is not among them
  (C29). A save is of a database that is the only saved one in the directory. The platform is one
  that evaluates the arguments that read an index definition from left to right (C9), lists the
  directory completely, and writes the whole snapshot (C30).\<close>

theorem installation_durable:
  assumes "lifetime pf d k s" and "fresh_disk d" and "reliable pf"
  shows "contents (QueryExecutor_new pf (ex_disk s)) = contents s"
  by (rule durable_restart(1)[OF lifetime_durable[OF assms] assms(3)])

lemma reliable_sample: "reliable sample_platform"
  by (simp add: reliable_def sample_platform_simps)

text \<open>A database is created and saved, and gets a table after that.\<close>

lemma sample_steps:
  "\<exists>s1 db s3 r s4 db' t. lifetime sample_platform sample_disk 2 s1 \<and> ex_database s1 = Some db \<and>
    Database_inv db \<and> database_stored db \<and> db_name db = ''city'' \<and> db_tables db = [] \<and> only_saved (db_name db) (ex_disk s1) \<and>
    executeUnlocked sample_platform SaveDatabase s1 = (s3, Inr r) \<and>
    executeUnlocked sample_platform (CreateTable ''people'' sample_schema) s3 =
      (s4, Inr (messageResult True (''created table '' @ ''people''))) \<and>
    lifetime sample_platform sample_disk 2 s4 \<and> ex_database s4 = Some db' \<and> db_name db' = ''city'' \<and>
    requireTable ''people'' s4 = Inr t \<and> disk_read (pathFor (db_name db)) (ex_disk s4) = Some (writeDatabase db)"
proof -
  let ?sql = "createTableSql ''people'' sample_schema"
  note start = installed[of sample_platform sample_disk]
  note durable = lifetime_durable[OF _ fresh_sample_disk reliable_sample]
  have fits: "entries_fit [(WalCreateDatabase, ''city'')]" "entries_fit [(WalSaveDatabase, ''city'')]"
    "entries_fit [(WalCreateTable, ?sql)]"
    using sample_session_fits by (simp_all add: entries_fit_def length_ok_def sample_session_entries)
  obtain s1 db where s1: "executeCreateDatabase ''city'' (QueryExecutor_new sample_platform sample_disk) =
      (s1, Inr (messageResult True (''created database '' @ ''city'')))" "ex_database s1 = Some db" "Database_new ''city'' = Inr db"
    using executeCreateDatabase_spec[OF durable_can_log[OF durable[OF start] fits(1)]] by auto
  have db: "Database_inv db" "db_name db = ''city''" "db_tables db = []"
    using Database_new_inv[OF s1(3)] s1(3) by (auto simp: Database_new_def)
  let ?q1 = "CreateDatabase ''city''" and ?q2 = "CreateTable ''people'' sample_schema"
  have q: "replayable ?q1" "replayable ?q2" using sample_session_replayable by (simp_all add: sample_session_def)
  have run1: "executeUnlocked sample_platform ?q1 (started sample_disk) = (s1, Inr (messageResult True (''created database '' @ ''city'')))"
    using s1(1) by (simp add: new_sample_executor)
  have "lifetime sample_platform sample_disk (1 + length (log_entries ?q1)) s1"
    by (rule answered_itself[OF start q(1)]) (use run1 fits(1) in \<open>simp_all add: new_sample_executor\<close>)
  then have life1: "lifetime sample_platform sample_disk 2 s1" by (simp add: numeral_2_eq_2)
  have stored: "database_stored db" by (simp add: database_stored_def db length_ok_def)
  obtain s2 where app: "appendWal WalSaveDatabase ''city'' s1 = (s2, Inr ())"
    using appendWal_ok[OF durable_can_log[OF durable[OF life1] fits(2)]] by auto
  obtain s3 r where save: "executeUnlocked sample_platform SaveDatabase s1 = (s3, Inr r)"
    using app db(2) s1(2)
    by (auto simp: executeSaveDatabase_def with_database_def act_bind_def reply_def sample_platform_simps
        saveDatabase_ok_env case_prod_beta)
  have "names (ex_disk s1) \<subseteq> {walFile}"
    using statement_files(1)[OF q(1) _ run1] by (simp add: started_def sample_disk_def names_def)
  then have alone: "only_saved (db_name db) (ex_disk s1)" using wal_extension by (auto simp: only_saved_def)
  have life3: "lifetime sample_platform sample_disk 1 s3"
    by (rule saved_itself[OF life1 s1(2) stored alone save])
  have "dk_log (ex_disk s1) = LogWorks"
    using durableE[OF durable[OF life1]] by (auto simp: wal_ok_def wal_file_ok_def)
  note out = save_outcome[OF s1(2) _ save alone this, unfolded db(2), simplified]
  have ne: "''people'' \<noteq> []" "sample_schema \<noteq> []" and free: "Database_table ''people'' db = None"
    by (simp_all add: sample_schema_def Database_table_def db)
  obtain s4 db' t where s4: "executeCreateTable ''people'' sample_schema s3 =
      (s4, Inr (messageResult True (''created table '' @ ''people'')))"
    "frame (s3\<lparr>ex_database := Some db'\<rparr>) s4" "Database_table ''people'' db' = Some t" "db_name db' = db_name db"
    using executeCreateTable_spec[OF out(1) db(1) free ne durable_can_log[OF durable[OF life3] fits(3)]] by auto
  have run4: "executeUnlocked sample_platform ?q2 s3 = (s4, Inr (messageResult True (''created table '' @ ''people'')))"
    using s4(1) by simp
  have "lifetime sample_platform sample_disk (1 + length (log_entries ?q2)) s4"
    by (rule answered_itself[OF life3 q(2) run4]) (use fits(3) in simp_all)
  then have life4: "lifetime sample_platform sample_disk 2 s4" by (simp add: numeral_2_eq_2)
  have "\<not> ex_replaying s3" using durableE[OF durable[OF life3]] by metis
  from statement_files(2)[OF q(2) this run4] have snapshot: "disk_read (pathFor (db_name db)) (ex_disk s4) = Some (writeDatabase db)"
    using out(4) path_not_wal[of "''city''"] db(2) by (simp add: save_bytes_def sample_platform_simps)
  have cur: "ex_database s4 = Some db'" "db_name db' = ''city''"
    using frame_simps(1)[OF s4(2)] s4(4) db(2) by simp_all
  then have "requireTable ''people'' s4 = Inr t" using s4(3) by (simp add: requireTable_def)
  then show ?thesis
    by (intro exI[of _ s1] exI[of _ db] exI[of _ s3] exI[of _ r] exI[of _ s4] exI[of _ db'] exI[of _ t] conjI)
      (rule life1 s1(2) db stored alone save run4 life4 cur snapshot | assumption)+
qed

lemma sample_life:
  "\<exists>k s cur db t. lifetime sample_platform sample_disk k s \<and> k < 1000 \<and> ex_database s = Some cur \<and>
    db_name cur = ''city'' \<and> requireTable ''people'' s = Inr t \<and> Database_inv db \<and> database_stored db \<and>
    db_name db = ''city'' \<and> db_tables db = [] \<and> disk_read (pathFor (db_name db)) (ex_disk s) = Some (writeDatabase db)"
proof -
  obtain s1 db s3 r s4 db' t where "lifetime sample_platform sample_disk 2 s4" "ex_database s4 = Some db'"
    "db_name db' = ''city''" "requireTable ''people'' s4 = Inr t" "Database_inv db" "database_stored db"
    "db_name db = ''city''" "db_tables db = []" "disk_read (pathFor (db_name db)) (ex_disk s4) = Some (writeDatabase db)"
    using sample_steps by blast
  then show ?thesis
    by (intro exI[of _ 2] exI[of _ s4] exI[of _ db'] exI[of _ db] exI[of _ t]) simp
qed

theorem installation_durable_witness:
  "\<exists>k s t. lifetime sample_platform sample_disk k s \<and> requireTable ''people'' s = Inr t \<and>
    contents (QueryExecutor_new sample_platform (ex_disk s)) = contents s"
proof -
  obtain k s t where life: "lifetime sample_platform sample_disk k s" "requireTable ''people'' s = Inr t"
    using sample_life by blast
  from installation_durable[OF life(1) fresh_sample_disk reliable_sample] life show ?thesis by blast
qed

text \<open>C29: A failed SAVE loses everything since the last one. In such a life, when the directory has a
  snapshot and a SAVE then fails before it replaces it, the answer is an exception and the executor
  goes on with its database; but the marker in the log makes recovery skip every record before
  it, so that an executor started on the directory has the content of the old snapshot.\<close>

theorem failed_save_hides_log:
  assumes "lifetime pf d k s" and "fresh_disk d" and "reliable pf"
    and "Database_inv db" and "database_stored db"
    and "disk_read (pathFor (db_name db)) (ex_disk s) = Some (writeDatabase db)"
    and "ex_database s = Some cur" and "length_ok (db_name cur)" and "k + 1 < 2 ^ 64"
    and "executeUnlocked (pf\<lparr>pf_save := env\<rparr>) SaveDatabase s = (s', Inl e)"
    and "\<not> se_open_ok env \<or> save_noticed env"
  shows "contents s' = contents s \<and> contents (QueryExecutor_new pf (ex_disk s')) = Some (Database_content db)"
  by (rule failed_save_outcome[OF lifetime_durable[OF assms(1-3)] assms(3-11)])

theorem failed_save_hides_log_witness:
  "\<exists>k s s' e t. lifetime sample_platform sample_disk k s \<and>
    executeUnlocked (sample_platform\<lparr>pf_save := (pf_save sample_platform)\<lparr>se_open_ok := False\<rparr>\<rparr>) SaveDatabase s = (s', Inl e) \<and>
    requireTable ''people'' s' = Inr t \<and>
    contents (QueryExecutor_new sample_platform (ex_disk s')) = Some (''city'', [])"
proof -
  let ?pf = "sample_platform\<lparr>pf_save := (pf_save sample_platform)\<lparr>se_open_ok := False\<rparr>\<rparr>"
  obtain k s cur db t where life: "lifetime sample_platform sample_disk k s" "k < 1000" "ex_database s = Some cur"
    "db_name cur = ''city''" "requireTable ''people'' s = Inr t" "Database_inv db" "database_stored db"
    "db_name db = ''city''" "db_tables db = []" "disk_read (pathFor (db_name db)) (ex_disk s) = Some (writeDatabase db)"
    using sample_life by blast
  have "entries_fit [(WalSaveDatabase, ''city'')]" by (simp add: entries_fit_def length_ok_def)
  from durable_can_log[OF lifetime_durable[OF life(1) fresh_sample_disk reliable_sample] this] life(2)
  have "can_log [(WalSaveDatabase, ''city'')] s" by simp
  from appendWal_ok[OF this] obtain s1 where app: "appendWal WalSaveDatabase ''city'' s = (s1, Inr ())" "frame s s1"
    by blast
  obtain s' e where run: "executeUnlocked ?pf SaveDatabase s = (s', Inl e)" "ex_database s' = Some cur"
    using app(1) life(3,4) frame_simps(1)[OF app(2)]
    by (auto simp: executeSaveDatabase_def with_database_def act_bind_def StorageManager_saveDatabase_def Let_def)
  have "requireTable ''people'' s' = Inr t" using life(3,5) run(2) by (simp add: requireTable_def)
  moreover have "length_ok (db_name cur)" by (simp add: life(4) length_ok_def)
  then have "contents (QueryExecutor_new sample_platform (ex_disk s')) = Some (Database_content db)"
    using failed_save_hides_log[OF life(1) fresh_sample_disk reliable_sample life(6,7,10,3) _ _ run(1)] life(2) by simp
  ultimately show ?thesis using life(1,8,9) run(1) by (auto simp: Database_content_def)
qed

text \<open>C35: LOAD goes back to the last save, and only until the next restart. In a life as in C1, when a
  SAVE of the database, the only saved one of the directory, answers and a session of the statements of
  C2 follows (each answers; no SAVE, LOAD, ROLLBACK or EXECUTE, no double literal that its text does
  not read back to), LOAD with the name of the database succeeds, gives the content that was saved and
  ends the transaction's snapshot. The log keeps the statements since the save, though: an executor
  that is started on the directory after the LOAD has the content from before it.\<close>

theorem load_returns_saved:
  assumes "lifetime pf d k s" and "fresh_disk d" and "reliable pf"
    and "ex_database s = Some db" and "database_stored db" and "only_saved (db_name db) (ex_disk s)"
    and "executeUnlocked pf SaveDatabase s = (s0, Inr r)"
    and "list_all replayable qs" and "session pf qs s0 = Some s1"
    and "entries_fit (concat (map log_entries qs))" and "length (concat (map log_entries qs)) + 1 < 2 ^ 64"
  shows "\<exists>s2. executeUnlocked pf (LoadDatabase (Some (db_name db))) s1 =
      (s2, Inr (messageResult True (''loaded database '' @ db_name db))) \<and>
    contents s2 = contents s \<and> ex_snapshot s2 = None \<and>
    contents (QueryExecutor_new pf (ex_disk s2)) = contents s1"
  by (rule load_outcome[OF lifetime_durable[OF assms(1-3)] assms(4-6,3,7-11)])

theorem load_returns_saved_witness:
  "\<exists>s1 t s2. requireTable ''people'' s1 = Inr t \<and>
    executeUnlocked sample_platform (LoadDatabase (Some ''city'')) s1 =
      (s2, Inr (messageResult True (''loaded database '' @ ''city''))) \<and>
    contents s2 = Some (''city'', []) \<and>
    contents (QueryExecutor_new sample_platform (ex_disk s2)) = contents s1"
proof -
  let ?q = "CreateTable ''people'' sample_schema"
  obtain s db s0 r s1 t where life: "lifetime sample_platform sample_disk 2 s" "ex_database s = Some db"
    "database_stored db" "only_saved (db_name db) (ex_disk s)"
    and run: "executeUnlocked sample_platform SaveDatabase s = (s0, Inr r)"
    "executeUnlocked sample_platform ?q s0 = (s1, Inr (messageResult True (''created table '' @ ''people'')))"
    and facts: "requireTable ''people'' s1 = Inr t" "db_name db = ''city''" "db_tables db = []"
    using sample_steps by blast
  have q: "list_all replayable [?q]" using sample_session_replayable by (simp add: sample_session_def)
  then have session: "session sample_platform [?q] s0 = Some s1"
    using run(2) by (simp add: replayable_execute)
  have fits: "entries_fit (concat (map log_entries [?q]))"
    using sample_session_fits by (simp add: sample_session_entries entries_fit_def)
  have size: "length (concat (map log_entries [?q])) + 1 < 2 ^ 64" by simp
  from load_returns_saved[OF life(1) fresh_sample_disk reliable_sample life(2-4) run(1) q session fits size]
  show ?thesis using facts life(2) by (auto simp: contents_def Database_content_def)
qed

text \<open>C30: A SAVE that falls short unnoticed loses everything. When the last bytes of the snapshot do not
  reach the file and only the destructor of the stream learns of it, SAVE answers that it saved the
  database, publishes the cut file over the old one and empties the log; when the database is the
  only saved one of the directory, an executor started on it has no database.\<close>

theorem silent_save_loses_database:
  assumes "ex_database s = Some db" and "Database_inv db" and "database_stored db"
    and "only_saved (db_name db) (ex_disk s)"
    and "se_failure (pf_save pf) = Some (n, False)" and "n < length (writeDatabase db)"
    and "\<forall>xs. set (pf_order pf' xs) = set xs" and "dk_log (ex_disk s) = LogWorks"
    and "executeUnlocked pf SaveDatabase s = (s', Inr x)"
  shows "ex_database s' = Some db \<and> ex_database (QueryExecutor_new pf' (ex_disk s')) = None"
  by (rule silent_save_outcome[OF assms])

theorem silent_save_loses_database_witness:
  "\<exists>s'. executeUnlocked (sample_platform\<lparr>pf_save := (pf_save sample_platform)\<lparr>se_failure := Some (5, False)\<rparr>\<rparr>)
      SaveDatabase sample_executor = (s', Inr (messageResult True ''saved database city'')) \<and>
    ex_database (QueryExecutor_new sample_platform (ex_disk s')) = None"
proof -
  let ?pf = "sample_platform\<lparr>pf_save := (pf_save sample_platform)\<lparr>se_failure := Some (5, False)\<rparr>\<rparr>"
  have "can_log [(WalSaveDatabase, ''city'')] sample_executor"
    unfolding can_log_def using sample_wal_ok
    by (intro disjI2 exI[of _ 1] exI[of _ "[]"]) (simp add: entries_fit_def length_ok_def)
  then obtain s1 where "appendWal WalSaveDatabase ''city'' sample_executor = (s1, Inr ())"
    using appendWal_ok by blast
  then obtain s' where run: "executeUnlocked ?pf SaveDatabase sample_executor = (s', Inr (messageResult True ''saved database city''))"
    using sample_database_facts
    by (auto simp: executeSaveDatabase_def with_database_def act_bind_def reply_def sample_platform_simps
        StorageManager_saveDatabase_def save_noticed_def Let_def case_prod_beta)
  have "5 < length (writeDatabase sample_database)" by (simp add: writeDatabase_def kMagic_def)
  from silent_save_loses_database[OF _ _ sample_database_stored _ _ this _ _ run, of sample_platform]
  have "ex_database (QueryExecutor_new sample_platform (ex_disk s')) = None"
    using sample_database_facts sample_platform_simps(3,4)
    by (simp add: only_saved_def sample_disk_def names_def)
  with run show ?thesis by blast
qed

end
