(* ===== verification/QueryProperties.thy ===== *)
theory QueryProperties
  imports ExecutorSamples Refusals
begin

text \<open>
  The properties of statements over tables: what SELECT answers with and without an index, an
  order or a join, and what INSERT, UPDATE and DELETE leave in the table.
\<close>

section \<open>SELECT\<close>

text \<open>What LIMIT leaves: one row at least, since the limit is tested after a row is pushed.\<close>

definition limited :: "64 word option \<Rightarrow> 'a list \<Rightarrow> 'a list" where
  "limited limit rows = (case limit of None \<Rightarrow> rows | Some n \<Rightarrow> take (max (unat n) 1) rows)"

definition answer :: "nat list \<Rightarrow> string list \<Rightarrow> 64 word option \<Rightarrow> row list \<Rightarrow> query_result" where
  "answer projection columns limit rows =
     \<lparr>qr_success = True, qr_message = ''selected rows'', qr_columns = columns,
      qr_rows = map (\<lambda>r. map (\<lambda>i. r ! i) projection) (limited limit rows)\<rparr>"

lemma select_result_answer: "select_result projection columns limit rows = answer projection columns limit rows"
  by (simp add: select_result_def answer_def output_loop_take limited_def split: option.split)

text \<open>The rows of a table that satisfy the condition of a query.\<close>

definition matching :: "select_query \<Rightarrow> vtable \<Rightarrow> row list" where
  "matching q t = filter (cond_holds (\<lambda>c. Table_columnIndex c t) (sel_where q)) (Table_rowsSnapshot t)"

text \<open>
  A query over known columns of a table that the state has, read when what is read is current: while
  no transaction is active, or as long as the version store shows the rows of the table
  (\<open>Table_versions_current\<close>), which it does until a row is erased.
\<close>

definition query_on :: "executor \<Rightarrow> select_query \<Rightarrow> vtable \<Rightarrow> bool" where
  "query_on s q t \<longleftrightarrow> db_ok s \<and> requireTable (sel_table q) s = Inr t \<and> sel_join q = None \<and>
     reads_current s t \<and> (\<forall>v \<in> where_values (sel_where q). value_ok v) \<and>
     known_columns t (cond_columns (sel_where q))"

lemma query_on_inv: "query_on s q t \<Longrightarrow> Table_inv t"
  unfolding query_on_def using requireTable_inv by blast

lemma query_on_collect:
  assumes "query_on s q t"
  shows "\<exists>rows. collectRows s q t = Inr rows \<and> mset rows = mset (matching q t) \<and>
    (qp_accessPath (planSelect q t) \<noteq> OrderedIndexRange \<longrightarrow> rows = matching q t) \<and>
    (qp_accessPath (planSelect q t) = OrderedIndexRange \<longrightarrow> rows = range_rows q t)"
proof -
  note inv = query_on_inv[OF assms]
  show ?thesis using collectRows_scan[OF inv, of s q] assms by (simp add: query_on_def matching_def)
qed

text \<open>C6: An index never changes what SELECT answers. Whatever access path the planner takes, the
  answer has the projection of exactly the rows that satisfy the condition, each as often as the
  table has it, cut at the limit (of at least one row); in the order of the table unless the path is a
  range over an ordered index, which lists them by their value in the column, equal values in the
  order of the table. It is a SELECT without JOIN and ORDER BY whose columns the table has, with no
  NaN in its condition, while no transaction is active (\<open>activeTransaction_\<close> is not set; a LOAD inside
  a transaction leaves it set), or while the version store shows the rows of the table. Once a row of
  the table was erased it may no longer do that, and a SELECT inside a transaction may then answer
  other rows.\<close>

theorem select_answers_matching_rows:
  assumes "query_on s q t" and "resolveProjection q t = Inr (projection, columns)" and "sel_orderBy q = None"
  shows "\<exists>rows. executeUnlocked pf (Select q) s = (s, Inr (answer projection columns (sel_limit q) rows)) \<and>
    mset rows = mset (matching q t) \<and>
    (qp_accessPath (planSelect q t) \<noteq> OrderedIndexRange \<longrightarrow> rows = matching q t) \<and>
    (qp_accessPath (planSelect q t) = OrderedIndexRange \<longrightarrow> rows = range_rows q t)"
  using query_on_collect[OF assms(1)] assms
  by (auto simp: query_on_def executeSelect_def sort_rows_def select_result_answer)

definition sample_select :: select_query where
  "sample_select = \<lparr>sel_table = ''people'', sel_join = None, sel_columns = [''name''],
     sel_where = Some (Comparison ''id'' Equal (VInt 2)), sel_orderBy = None, sel_limit = None\<rparr>"

lemma sample_query_on: "query_on sample_executor sample_select sample_indexed"
  using sample_requireTable sample_database_facts sample_indexed_facts
  by (simp add: query_on_def sample_select_def reads_current_def where_values_def known_columns_def
      cond_columns_def sample_schema_def)

lemma sample_resolve: "resolveProjection sample_select sample_indexed = Inr ([1], [''name''])"
  using sample_indexed_facts sample_columns by (simp add: resolveProjection_def sample_select_def Table_columnIndex_def)

lemma sample_matching: "matching sample_select sample_indexed = [[VInt 2, VNull], [VInt 2, VString ''bob'']]"
  using sample_indexed_facts sample_columns
  by (simp add: matching_def sample_select_def cond_holds_def Table_columnIndex_def sample_rows_def)

theorem select_answers_matching_rows_witness:
  "\<exists>rows. executeUnlocked sample_platform (Select sample_select) sample_executor =
      (sample_executor, Inr (answer [1] [''name''] None rows)) \<and>
    mset rows = {#[VInt 2, VNull], [VInt 2, VString ''bob'']#}"
  using select_answers_matching_rows[OF sample_query_on sample_resolve, of sample_platform]
  by (auto simp: sample_matching) (auto simp: sample_select_def)

lemma column_value_ok:
  assumes "Table_inv t" and "r \<in> set (Table_rowsSnapshot t)" and "i < length (tb_schema t)"
  shows "value_ok (r ! i)"
proof -
  have "row_ok (tb_schema t) r" by (rule Table_inv_row_ok[OF assms(1,2)])
  with assms(3) row_ok_length[OF this] show ?thesis by (simp add: row_ok_def)
qed

text \<open>C13: ORDER BY sorts. With an order by a column of the table, a SELECT as in C6 answers with exactly
  the rows that satisfy the condition, in an order in which no row comes after one it should precede
  by the column and direction asked for, cut at the limit; the sort is only assumed to meet its
  standard contract. As there, no transaction is active, or the version store shows the rows of the
  table.\<close>

theorem select_orders_rows:
  assumes "query_on s q t" and "resolveProjection q t = Inr (projection, columns)" and "sel_orderBy q = Some ob"
    and "Table_columnIndex (ob_column ob) t = Some i" and "sort_contract (pf_sort pf)"
  shows "\<exists>rows. executeUnlocked pf (Select q) s = (s, Inr (answer projection columns (sel_limit q) rows)) \<and>
    mset rows = mset (matching q t) \<and>
    sorted_wrt (\<lambda>a b. \<not> order_less i (ob_ascending ob) b a) rows"
proof -
  obtain rows where rows: "collectRows s q t = Inr rows" "mset rows = mset (matching q t)"
    using query_on_collect[OF assms(1)] by blast
  note inv = query_on_inv[OF assms(1)]
  have i: "i < length (tb_schema t)" using assms(4) find_column_Some by (fastforce simp: Table_columnIndex_def)
  have "set rows \<subseteq> set (Table_rowsSnapshot t)"
    using mset_eq_setD[OF rows(2)] by (auto simp: matching_def)
  then have ok: "\<forall>r \<in> set rows. value_ok (r ! i)" using column_value_ok[OF inv _ i] by blast
  have res: "(\<lambda>c. Inr (Table_columnIndex c t)) (ob_column ob) = Inr (Some i)" using assms(4) by simp
  obtain out where out: "sort_rows pf (Some ob) (\<lambda>c. Inr (Table_columnIndex c t)) rows = Inr out"
    "mset out = mset rows" "sorted_wrt (\<lambda>a b. \<not> order_less i (ob_ascending ob) b a) out"
    using sort_rows_spec[where ob = ob and rows = rows and resolve = "\<lambda>c. Inr (Table_columnIndex c t)", OF assms(5) res ok] by blast
  have "executeUnlocked pf (Select q) s = (s, Inr (answer projection columns (sel_limit q) out))"
    using assms(1-3) rows(1) out(1) by (simp add: query_on_def executeSelect_def select_result_answer)
  with out rows show ?thesis by auto
qed

definition sample_ordered :: select_query where
  "sample_ordered = sample_select\<lparr>sel_where := None, sel_limit := Some 2,
     sel_orderBy := Some \<lparr>ob_column = ''id'', ob_ascending = False\<rparr>\<rparr>"

theorem select_orders_rows_witness:
  "\<exists>rows. executeUnlocked sample_platform (Select sample_ordered) sample_executor =
      (sample_executor, Inr (answer [1] [''name''] (Some 2) rows)) \<and>
    mset rows = mset sample_rows \<and> sorted_wrt (\<lambda>a b. \<not> order_less 0 False b a) rows"
proof -
  have on: "query_on sample_executor sample_ordered sample_indexed"
    using sample_query_on
    by (simp add: query_on_def sample_ordered_def sample_select_def where_values_def known_columns_def cond_columns_def)
  have res: "resolveProjection sample_ordered sample_indexed = Inr ([1], [''name''])"
    using sample_resolve by (simp add: resolveProjection_def sample_ordered_def sample_select_def)
  have col: "Table_columnIndex ''id'' sample_indexed = Some 0"
    using sample_columns sample_indexed_facts by (simp add: Table_columnIndex_def)
  have "matching sample_ordered sample_indexed = sample_rows"
    using sample_indexed_facts by (simp add: matching_def sample_ordered_def cond_holds_def)
  moreover have ob: "sel_orderBy sample_ordered = Some \<lparr>ob_column = ''id'', ob_ascending = False\<rparr>"
    "sel_limit sample_ordered = Some 2" by (simp_all add: sample_ordered_def)
  ultimately show ?thesis
    using select_orders_rows[OF on res ob(1) _ sample_platform_simps(1), of 0] col by simp
qed

text \<open>A join over known columns of tables that the state has.\<close>

definition join_on :: "executor \<Rightarrow> select_query \<Rightarrow> join_clause \<Rightarrow> vtable \<Rightarrow> vtable \<Rightarrow> string list \<Rightarrow> bool" where
  "join_on s q j l r columns \<longleftrightarrow> db_ok s \<and> sel_join q = Some j \<and> requireTable (sel_table q) s = Inr l \<and>
     requireTable (jc_table j) s = Inr r \<and> reads_current s l \<and> reads_current s r \<and>
     columns = joined_columns (sel_table q) l (jc_table j) r \<and>
     (\<forall>c \<in> cond_columns (sel_where q). \<exists>i. resolveResultColumn columns c = Inr (Some i))"

text \<open>C12: A join is a nested loop. SELECT with JOIN and without ORDER BY answers with the projection of
  every left row followed by every right row with an equal key, left rows in order and for each the
  right rows in order, where the condition holds, cut at the limit (of at least one row), when the
  tables have the columns it names. As in C6, no transaction is active, or the version store shows the
  rows of both tables, which it may no longer do once a row of one of them was erased.\<close>

theorem join_is_nested_loop:
  assumes "join_on s q j l r columns"
    and "resolveTableColumn l (sel_table q) (jc_leftColumn j) = Some lc"
    and "resolveTableColumn r (jc_table j) (jc_rightColumn j) = Some rc"
    and "join_projection columns (sel_columns q) = Inr (projection, names)" and "sel_orderBy q = None"
  shows "executeUnlocked pf (Select q) s =
    (s, Inr (answer projection names (sel_limit q)
       (nested_join lc rc (cond_holds (\<lambda>c. projr (resolveResultColumn columns c)) (sel_where q))
          (Table_rowsSnapshot l) (Table_rowsSnapshot r))))"
proof -
  have inv: "Table_inv l" "Table_inv r" using assms(1) requireTable_inv unfolding join_on_def by blast+
  have keys: "lc < length (tb_schema l)" "rc < length (tb_schema r)"
    using assms(2,3) find_column_Some
    by (fastforce simp: resolveTableColumn_def Table_columnIndex_def Let_def)+
  have rows: "rowsSnapshotForRead s l = Table_rowsSnapshot l" "rowsSnapshotForRead s r = Table_rowsSnapshot r"
    using reads_rows(1) inv assms(1) by (simp_all add: join_on_def)
  have "join_rows columns (sel_where q) lc rc (Table_rowsSnapshot l) (Table_rowsSnapshot r) =
      Inr (nested_join lc rc (cond_holds (\<lambda>c. projr (resolveResultColumn columns c)) (sel_where q))
        (Table_rowsSnapshot l) (Table_rowsSnapshot r))"
    using assms(1) column_value_ok[OF inv(1) _ keys(1)] column_value_ok[OF inv(2) _ keys(2)]
    by (intro join_rows_nested) (auto simp: join_on_def)
  then show ?thesis
    using assms rows
    by (simp add: join_on_def executeSelect_def executeJoinSelect_def sort_rows_def select_result_answer Let_def)
qed

definition sample_join :: select_query where
  "sample_join = \<lparr>sel_table = ''people'',
     sel_join = Some \<lparr>jc_table = ''people'', jc_leftColumn = ''id'', jc_rightColumn = ''people.id''\<rparr>,
     sel_columns = [''*''], sel_where = None, sel_orderBy = None, sel_limit = None\<rparr>"

theorem join_is_nested_loop_witness:
  "\<exists>r. executeUnlocked sample_platform (Select sample_join) sample_executor = (sample_executor, Inr r) \<and>
    length (qr_rows r) = 5"
proof -
  let ?j = "\<lparr>jc_table = ''people'', jc_leftColumn = ''id'', jc_rightColumn = ''people.id''\<rparr>"
  let ?cols = "joined_columns ''people'' sample_indexed ''people'' sample_indexed"
  have on: "join_on sample_executor sample_join ?j sample_indexed sample_indexed ?cols"
    using sample_requireTable sample_database_facts
    by (simp add: join_on_def sample_join_def reads_current_def cond_columns_def)
  have keys: "resolveTableColumn sample_indexed (sel_table sample_join) (jc_leftColumn ?j) = Some 0"
    "resolveTableColumn sample_indexed (jc_table ?j) (jc_rightColumn ?j) = Some 0"
    using sample_columns sample_indexed_facts
    by (simp_all add: resolveTableColumn_def str_starts_with_def sample_join_def Table_columnIndex_def)
  have res: "join_projection ?cols (sel_columns sample_join) = Inr ([0..<length ?cols], ?cols)"
    by (simp add: join_projection_def sample_join_def)
  have "length (nested_join 0 0 (cond_holds (\<lambda>c. projr (resolveResultColumn ?cols c)) None) sample_rows sample_rows) = 5"
    by (simp add: nested_join_def cond_holds_def sample_rows_def)
  then show ?thesis
    using join_is_nested_loop[OF on keys res] sample_indexed_facts
    by (simp add: sample_join_def answer_def limited_def)
qed

section \<open>INSERT, UPDATE and DELETE\<close>

text \<open>C11: INSERT is all or nothing. When every row fits the schema, the rows are appended in order and
  nothing changes but that table and the log; when one does not, the statement throws and the
  state, the log included, is as before. The log takes the records, and no value is a NaN.\<close>

theorem insert_all_or_nothing:
  assumes "requireTable name s = Inr t" and "db_ok s" and "\<forall>r \<in> set rows. \<forall>v \<in> set r. value_ok v"
    and "can_log (map (\<lambda>r. (WalInsert, insertSql name r)) rows) s"
  shows "if \<forall>r \<in> set rows. row_fits (tb_schema t) r
    then \<exists>s' t'. executeUnlocked pf (Insert name rows) s =
        (s', Inr (messageResult True (''inserted '' @ nat_text (length rows) @ '' row(s)''))) \<and>
      frame (put_table name t' s) s' \<and> requireTable name s' = Inr t' \<and> same_definitions t t' \<and>
      Table_rowsSnapshot t' = Table_rowsSnapshot t @ rows
    else \<exists>m. executeUnlocked pf (Insert name rows) s = (s, Inl (InvalidArgument m))"
proof (cases "\<forall>r \<in> set rows. row_fits (tb_schema t) r")
  case True
  then have ok: "\<forall>r \<in> set rows. row_ok (tb_schema t) r" using assms(3) by (simp add: row_ok_def)
  show ?thesis
    using executeInsert_spec[OF assms(1,2) ok assms(4)] True frame_requireTable requireTable_put[OF assms(1,2)]
    by fastforce
next
  case False
  then show ?thesis using executeInsert_invalid[OF assms(1)] by auto
qed

lemma sample_can_log: "op \<noteq> WalSaveDatabase \<Longrightarrow> wal_op_ok op \<Longrightarrow> length sql < 1000 \<Longrightarrow> can_log [(op, sql)] sample_executor"
  unfolding can_log_def using sample_wal_ok
  by (intro disjI2 exI[of _ 1] exI[of _ "[]"]) (simp add: entries_fit_def length_ok_small)

theorem insert_all_or_nothing_witness:
  "(\<exists>s' t'. executeUnlocked sample_platform (Insert ''people'' [[VInt 9, VNull]]) sample_executor =
      (s', Inr (messageResult True (''inserted '' @ nat_text 1 @ '' row(s)''))) \<and>
     requireTable ''people'' s' = Inr t' \<and> Table_rowsSnapshot t' = sample_rows @ [[VInt 9, VNull]]) \<and>
   (\<exists>m. executeUnlocked sample_platform (Insert ''people'' [[VNull, VNull]]) sample_executor =
      (sample_executor, Inl (InvalidArgument m)))"
proof -
  have log: "can_log (map (\<lambda>r. (WalInsert, insertSql ''people'' r)) [r]) sample_executor"
    if "length (insertSql ''people'' r) < 1000" for r
    using sample_can_log[of WalInsert] that by simp
  have "length (insertSql ''people'' [VInt 9, VNull]) < 1000" "length (insertSql ''people'' [VNull, VNull]) < 1000"
    by (code_simp)+
  from this[THEN log] show ?thesis
    using insert_all_or_nothing[OF sample_requireTable, of "[[VInt 9, VNull]]" sample_platform]
      insert_all_or_nothing[OF sample_requireTable, of "[[VNull, VNull]]" sample_platform]
      sample_database_facts sample_indexed_facts
    by (auto simp: row_fits_def cell_fits_def sample_schema_def)
qed

text \<open>C23: An exception leaves nothing behind. When a statement, or what an EXECUTE runs as, throws, the
  executor is exactly as it was: database, indexes, log, files, transaction and prepared statements.
  It is any statement of the parser but SAVE; an UPDATE or DELETE knows every column of its condition
  or does not know the first one; and the log takes the records it would append.\<close>

theorem refused_statement_changes_nothing:
  assumes "execute pf q s = Some (s', Inl e)" and "db_ok s"
    and "\<forall>q'. runs_as s q q' \<longrightarrow> query_ok q' \<and> q' \<noteq> SaveDatabase \<and> condition_settled q' s \<and> takes_log q' s"
  shows "s' = s"
  using refused_unchanged[OF assms(1) _ assms(2)] assms(3) by (simp add: refusable_def)

definition sample_prepared :: executor where
  "sample_prepared = sample_executor\<lparr>ex_prepared := [(''p'', ''DELETE FROM people WHERE nosuch = ?;'')]\<rparr>"

theorem refused_statement_changes_nothing_witness:
  "execute sample_platform (ExecutePrepared ''p'' [VInt 1]) sample_prepared =
     Some (sample_prepared, Inl (RuntimeError ''unknown predicate column''))"
proof -
  let ?q = "ExecutePrepared ''p'' [VInt 1]"
  let ?cond = "Some (Comparison ''nosuch'' Equal (VInt 1))"
  have bind: "bindPreparedSql ''p'' [VInt 1] sample_prepared = Inr ''DELETE FROM people WHERE nosuch = 1;''"
    unfolding sample_prepared_def by (simp add: bindPreparedSql_def sqlLiteral_def) code_simp
  have parse: "Parser_parse ''DELETE FROM people WHERE nosuch = 1;'' = Inr (Delete ''people'' ?cond)" by code_simp
  have runs: "runs_as sample_prepared ?q (Delete ''people'' ?cond)"
    by (rule runs_bound[OF bind parse runs_itself]) (simp add: is_execute_def)
  have people: "requireTable ''people'' sample_prepared = Inr sample_indexed"
    using sample_requireTable by (simp add: sample_prepared_def requireTable_def)
  have nosuch: "Table_columnIndex ''nosuch'' sample_indexed = None"
    using sample_indexed_facts by (simp add: Table_columnIndex_None sample_schema_def)
  have "delete_loop ?cond sample_rows (rev [0..<length sample_rows]) 0 sample_indexed =
      (sample_indexed, Inl (RuntimeError ''unknown predicate column''))"
    using nosuch by (simp add: selected_def sample_rows_def upt_rec)
  then obtain s' where run: "execute sample_platform ?q sample_prepared = Some (s', Inl (RuntimeError ''unknown predicate column''))"
    using people sample_indexed_facts
    by (simp add: runs_as_execute[OF runs] executeDelete_def Let_def finish_change_def)
  have "length (deleteSql ''people'' ?cond) < 1000" by code_simp
  then have "can_log [(WalDelete, deleteSql ''people'' ?cond)] sample_executor" by (rule sample_can_log[rotated 2]) simp_all
  then have "takes_log (Delete ''people'' ?cond) sample_prepared" by (simp add: sample_prepared_def can_log_def)
  moreover have "query_ok (Delete ''people'' ?cond)" "Delete ''people'' ?cond \<noteq> SaveDatabase"
    using Parser_parse_ok[OF parse] by simp_all
  moreover have "condition_settled (Delete ''people'' ?cond) sample_prepared"
    using people nosuch by (simp add: settled_def)
  ultimately have "\<forall>q'. runs_as sample_prepared ?q q' \<longrightarrow>
      query_ok q' \<and> q' \<noteq> SaveDatabase \<and> condition_settled q' sample_prepared \<and> takes_log q' sample_prepared"
    using runs_as_unique[OF runs] by blast
  moreover have "db_ok sample_prepared" using sample_database_facts by (simp add: sample_prepared_def)
  ultimately have "s' = sample_prepared" using refused_statement_changes_nothing[OF run] by simp
  with run show ?thesis by simp
qed

text \<open>C14: UPDATE changes the cell of exactly the rows that satisfy the condition, in place, answers
  with their number, and changes nothing else but the log, when the table has the columns, the value
  fits its column and is no NaN, and the log takes the record.\<close>

theorem update_changes_matching_rows:
  assumes "requireTable (upd_table u) s = Inr t" and "db_ok s"
    and "known_columns t (cond_columns (upd_where u))" and "Table_columnIndex (upd_column u) t = Some c"
    and "cell_fits (tb_schema t ! c) (upd_value u)" and "value_ok (upd_value u)"
    and "can_log [(WalUpdate, updateSql u)] s"
    and "P = cond_holds (\<lambda>c. Table_columnIndex c t) (upd_where u)"
  shows "\<exists>s' t'. executeUnlocked pf (Update u) s = (s', Inr (messageResult True
        (''updated '' @ nat_text (length (filter P (Table_rowsSnapshot t))) @ '' row(s)''))) \<and>
      frame (put_table (upd_table u) t' s) s' \<and> requireTable (upd_table u) s' = Inr t' \<and> same_definitions t t' \<and>
      Table_rowsSnapshot t' = map (\<lambda>r. if P r then r[c := upd_value u] else r) (Table_rowsSnapshot t)"
  using executeUpdate_spec[OF assms(1-7)] frame_requireTable requireTable_put[OF assms(1,2)]
  unfolding assms(8) set_cell_def[abs_def] by fastforce

theorem update_changes_matching_rows_witness:
  "\<exists>s' t'. executeUnlocked sample_platform (Update sample_update) sample_executor =
      (s', Inr (messageResult True (''updated '' @ nat_text 2 @ '' row(s)''))) \<and>
    requireTable ''people'' s' = Inr t' \<and>
    Table_rowsSnapshot t' = [[VInt 1, VString ''ada''], [VInt 2, VString ''say \"hi\"''], [VInt 2, VString ''say \"hi\"'']]"
proof -
  have u: "upd_table sample_update = ''people''" "upd_column sample_update = ''name''"
    "upd_value sample_update = VString ''say \"hi\"''" "upd_where sample_update = Some (Comparison ''id'' Greater (VInt 1))"
    by (simp_all add: sample_update_def)
  have "length (updateSql sample_update) < 1000" by code_simp
  then have log: "can_log [(WalUpdate, updateSql sample_update)] sample_executor" by (rule sample_can_log[rotated 2]) simp_all
  have req: "requireTable (upd_table sample_update) sample_executor = Inr sample_indexed"
    by (simp add: u sample_requireTable)
  have rest: "known_columns sample_indexed (cond_columns (upd_where sample_update))"
    "Table_columnIndex (upd_column sample_update) sample_indexed = Some 1"
    "cell_fits (tb_schema sample_indexed ! 1) (upd_value sample_update)" "value_ok (upd_value sample_update)"
    using sample_indexed_facts sample_columns
    by (simp_all add: u known_columns_def cond_columns_def Table_columnIndex_def cell_fits_def sample_schema_def)
  define P where "P = cond_holds (\<lambda>c. Table_columnIndex c sample_indexed) (upd_where sample_update)"
  have P: "length (filter P sample_rows) = 2"
    "map (\<lambda>r. if P r then r[1 := upd_value sample_update] else r) sample_rows =
      [[VInt 1, VString ''ada''], [VInt 2, VString ''say \"hi\"''], [VInt 2, VString ''say \"hi\"'']]"
    using sample_indexed_facts sample_columns
    by (simp_all add: P_def u cond_holds_def Table_columnIndex_def sample_rows_def)
  have rows: "Table_rowsSnapshot sample_indexed = sample_rows" and "db_ok sample_executor"
    using sample_indexed_facts sample_database_facts by simp_all
  with update_changes_matching_rows[OF req _ rest log P_def, of sample_platform]
  show ?thesis unfolding rows P u(1) by blast
qed

text \<open>
  An UPDATE whose condition names an unknown column where the evaluation does not always reach it:
  the rows before the one that throws stay changed, and the log does not know.
\<close>

definition partial_condition :: "predicate option" where
  "partial_condition = Some (POr (Comparison ''id'' Equal (VInt 1)) (Comparison ''nosuch'' Equal (VInt 1)))"

lemma partial_update:
  "\<exists>s' t'. executeUnlocked sample_platform (Update (sample_update\<lparr>upd_where := partial_condition\<rparr>)) sample_executor =
      (s', Inl (RuntimeError ''unknown predicate column'')) \<and>
    ex_disk s' = ex_disk sample_executor \<and> requireTable ''people'' s' = Inr t' \<and>
    Table_rowsSnapshot t' = sample_rows[0 := [VInt 1, VString ''say \"hi\"'']]"
proof -
  note facts = sample_indexed_facts sample_columns sample_database_facts
  let ?v = "VString ''say \"hi\"''"
  obtain t' where t': "Table_update 0 1 ?v sample_indexed = Inr (True, t')" "same_definitions sample_indexed t'"
    "Table_rowsSnapshot t' = sample_rows[0 := (sample_rows ! 0)[1 := ?v]]"
    using Table_update_spec[of sample_indexed 0 1 ?v] facts
    by (auto simp: cell_fits_def sample_schema_def sample_rows_def)
  have nosuch: "find_column ''nosuch'' sample_schema = None" by (simp add: find_column_def sample_schema_def)
  have first: "selected partial_condition sample_indexed (sample_rows ! 0) = Inr True"
    using facts by (simp add: selected_def partial_condition_def Table_columnIndex_def sample_rows_def)
  have second: "selected partial_condition t' (sample_rows ! 1) = Inl (RuntimeError ''unknown predicate column'')"
    using facts t'(2) nosuch
    by (simp add: selected_def partial_condition_def Table_columnIndex_def sample_rows_def same_definitions_def)
  have "update_loop partial_condition 1 ?v sample_rows [0..<length sample_rows] 0 sample_indexed =
      (t', Inl (RuntimeError ''unknown predicate column''))"
    using first second t'(1) by (simp add: sample_rows_def upt_rec)
  moreover have "Table_columnIndex ''name'' sample_indexed = Some 1" using facts by (simp add: Table_columnIndex_def)
  ultimately have "executeUpdate (sample_update\<lparr>upd_where := partial_condition\<rparr>) sample_executor =
      (put_table ''people'' t' sample_executor, Inl (RuntimeError ''unknown predicate column''))"
    using facts by (simp add: executeUpdate_def sample_update_def sample_requireTable Let_def finish_change_def)
  then show ?thesis
    using requireTable_put[OF sample_requireTable] t'(3) facts by (simp add: sample_rows_def)
qed

text \<open>C15: DELETE removes exactly the rows that satisfy the condition, keeps the others in order,
  answers with the number removed, and changes nothing else but the log, when the table has the
  columns of the condition and the log takes the record.\<close>

theorem delete_removes_matching_rows:
  assumes "requireTable name s = Inr t" and "db_ok s" and "known_columns t (cond_columns cond)"
    and "can_log [(WalDelete, deleteSql name cond)] s"
    and "P = cond_holds (\<lambda>c. Table_columnIndex c t) cond"
  shows "\<exists>s' t'. executeUnlocked pf (Delete name cond) s = (s', Inr (messageResult True
        (''deleted '' @ nat_text (length (filter P (Table_rowsSnapshot t))) @ '' row(s)''))) \<and>
      frame (put_table name t' s) s' \<and> requireTable name s' = Inr t' \<and> same_definitions t t' \<and>
      Table_rowsSnapshot t' = filter (\<lambda>r. \<not> P r) (Table_rowsSnapshot t)"
  using executeDelete_spec[OF assms(1-4)] frame_requireTable requireTable_put[OF assms(1,2)]
  unfolding assms(5) by fastforce

theorem delete_removes_matching_rows_witness:
  "\<exists>s' t'. executeUnlocked sample_platform (Delete ''people'' (Some (Comparison ''id'' Equal (VInt 1)))) sample_executor =
      (s', Inr (messageResult True (''deleted '' @ nat_text 1 @ '' row(s)''))) \<and>
    requireTable ''people'' s' = Inr t' \<and>
    Table_rowsSnapshot t' = [[VInt 2, VNull], [VInt 2, VString ''bob'']]"
proof -
  let ?cond = "Some (Comparison ''id'' Equal (VInt 1))"
  have "length (deleteSql ''people'' ?cond) < 1000" by code_simp
  then have log: "can_log [(WalDelete, deleteSql ''people'' ?cond)] sample_executor" by (rule sample_can_log[rotated 2]) simp_all
  have known: "known_columns sample_indexed (cond_columns ?cond)"
    using sample_indexed_facts by (simp add: known_columns_def cond_columns_def sample_schema_def)
  define P where "P = cond_holds (\<lambda>c. Table_columnIndex c sample_indexed) ?cond"
  have P: "length (filter P sample_rows) = 1"
    "filter (\<lambda>r. \<not> P r) sample_rows = [[VInt 2, VNull], [VInt 2, VString ''bob'']]"
    using sample_indexed_facts sample_columns
    by (simp_all add: P_def cond_holds_def Table_columnIndex_def sample_rows_def)
  have rows: "Table_rowsSnapshot sample_indexed = sample_rows" and "db_ok sample_executor"
    using sample_indexed_facts sample_database_facts by simp_all
  with delete_removes_matching_rows[OF sample_requireTable _ known log P_def, of sample_platform]
  show ?thesis unfolding rows P by blast
qed

end
