(* ===== verification/Sessions.thy ===== *)
theory Sessions
  imports Refusals Recovery
begin

text \<open>
  Calls of \<open>execute\<close> one after the other. \<open>run_all\<close> performs a list of statements on an executor; a
  statement that throws leaves its state and the list goes on, and a call that does not return
  (an EXECUTE that binds to itself) ends it with \<open>None\<close>. A condition on statements is asked of what
  they run as (\<open>runs_only\<close>): an EXECUTE counts as the statement its template is bound and parsed to.
  The lemmas carry the invariant of the executor, and an open transaction, through a list.
\<close>

fun run_all :: "platform \<Rightarrow> query list \<Rightarrow> executor \<Rightarrow> executor option" where
  "run_all pf [] s = Some s"
| "run_all pf (q # qs) s =
     (case execute pf q s of None \<Rightarrow> None | Some (s', _) \<Rightarrow> run_all pf qs s')"

fun runs_only :: "platform \<Rightarrow> (query \<Rightarrow> bool) \<Rightarrow> query list \<Rightarrow> executor \<Rightarrow> bool" where
  "runs_only pf P [] s \<longleftrightarrow> True"
| "runs_only pf P (q # qs) s \<longleftrightarrow>
     (\<forall>q'. runs_as s q q' \<longrightarrow> P q') \<and>
     (case execute pf q s of None \<Rightarrow> True | Some (s', _) \<Rightarrow> runs_only pf P qs s')"

lemma run_all_append:
  "run_all pf (qs @ qs') s = (case run_all pf qs s of None \<Rightarrow> None | Some s' \<Rightarrow> run_all pf qs' s')"
  by (induction qs arbitrary: s) (auto split: option.split)

text \<open>Without an EXECUTE every call returns, and a condition is one on the statements themselves.\<close>

lemma run_all_returns:
  "list_all (\<lambda>q. \<not> is_execute q) qs \<Longrightarrow> \<exists>s'. run_all pf qs s = Some s'"
  by (induction qs arbitrary: s) (simp_all add: execute_other case_prod_beta)

lemma run_all_None: "run_all pf qs s = None \<Longrightarrow> list_ex is_execute qs"
  using run_all_returns[of qs pf s] by (auto simp: list_all_iff list_ex_iff)

lemma runs_as_itself: "\<not> is_execute q \<Longrightarrow> runs_as s q q' \<longleftrightarrow> q' = q"
  using runs_itself runs_as_unique by blast

lemma runs_only_plain: "list_all (\<lambda>q. \<not> is_execute q \<and> P q) qs \<Longrightarrow> runs_only pf P qs s"
  by (induction qs arbitrary: s) (auto simp: runs_as_itself split: option.split)

text \<open>A session is a run in which every call answers.\<close>

lemma session_run_all: "session pf qs s = Some s' \<Longrightarrow> run_all pf qs s = Some s'"
  by (induction qs arbitrary: s) (auto split: option.splits prod.splits sum.splits)

text \<open>What one call does: nothing, or what the statement it runs as does.\<close>

lemma execute_step:
  assumes "execute pf q s = Some (s', r)" and "\<forall>q'. runs_as s q q' \<longrightarrow> P q'"
    and "I s" and "\<And>q'. P q' \<Longrightarrow> I (fst (executeUnlocked pf q' s))"
  shows "I s'"
proof -
  from execute_returned[OF assms(1)] consider "s' = s"
    | q' where "runs_as s q q'" "s' = fst (executeUnlocked pf q' s)"
    unfolding returned_def by (metis fst_conv prod.inject)
  then show ?thesis
  proof cases
    case 1
    then show ?thesis using assms(3) by simp
  next
    case 2
    then show ?thesis using assms(2,4) by blast
  qed
qed

section \<open>The invariant\<close>

lemma run_all_inv:
  assumes "ex_inv k s" and "k + length qs < 2 ^ 64"
    and "runs_only pf (\<lambda>q. query_ok q \<and> \<not> loads q) qs s" and "run_all pf qs s = Some s'"
  shows "ex_inv (k + length qs) s'"
  using assms
proof (induction qs arbitrary: k s)
  case (Cons q qs)
  then obtain s1 r where one: "execute pf q s = Some (s1, r)" "run_all pf qs s1 = Some s'"
    by (auto split: option.splits)
  have "ex_inv (k + 1) s1"
  proof (rule execute_step[OF one(1), of "\<lambda>q. query_ok q \<and> \<not> loads q" "ex_inv (k + 1)"])
    show "\<forall>q'. runs_as s q q' \<longrightarrow> query_ok q' \<and> \<not> loads q'" using Cons.prems(3) by simp
    show "ex_inv (k + 1) s" using ex_inv_mono[OF Cons.prems(1)] by simp
    show "ex_inv (k + 1) (fst (executeUnlocked pf q' s))" if "query_ok q' \<and> \<not> loads q'" for q'
      using statement_keeps_inv[OF Cons.prems(1)] that Cons.prems(2) by simp
  qed
  from Cons.IH[OF this _ _ one(2)] Cons.prems(2,3) one(1) show ?case by simp
qed simp

section \<open>An open transaction\<close>

text \<open>The statements that end a transaction or replace the session; BEGIN is not one of them.\<close>

fun leaves_transaction :: "query \<Rightarrow> bool" where
  "leaves_transaction CommitTransaction \<longleftrightarrow> True"
| "leaves_transaction RollbackTransaction \<longleftrightarrow> True"
| "leaves_transaction (LoadDatabase name) \<longleftrightarrow> True"
| "leaves_transaction q \<longleftrightarrow> False"

lemma statement_in_transaction:
  assumes "db_ok s" and "ex_snapshot s \<noteq> None" and "query_ok q" and "\<not> leaves_transaction q"
  shows "db_ok (fst (executeUnlocked pf q s)) \<and> same_session s (fst (executeUnlocked pf q s))"
proof (cases "session_command q")
  case False
  from soundD[OF sound_statement[OF assms(3) this] assms(1) prod.collapse[symmetric]] show ?thesis by blast
next
  case True
  with assms(4) have "q = BeginTransaction" by (cases q) auto
  with executeBegin_busy[OF assms(2)] assms(1) show ?thesis by (auto simp: same_session_def)
qed

lemma run_all_transaction:
  assumes "db_ok s" and "ex_snapshot s \<noteq> None"
    and "runs_only pf (\<lambda>q. query_ok q \<and> \<not> leaves_transaction q) qs s" and "run_all pf qs s = Some s'"
  shows "db_ok s' \<and> same_session s s'"
  using assms
proof (induction qs arbitrary: s)
  case Nil
  then show ?case by (simp add: same_session_def)
next
  case (Cons q qs)
  then obtain s1 r where one: "execute pf q s = Some (s1, r)" "run_all pf qs s1 = Some s'"
    by (auto split: option.splits)
  have s1: "db_ok s1 \<and> same_session s s1"
  proof (rule execute_step[OF one(1), of "\<lambda>q. query_ok q \<and> \<not> leaves_transaction q"
        "\<lambda>s1. db_ok s1 \<and> same_session s s1"])
    show "\<forall>q'. runs_as s q q' \<longrightarrow> query_ok q' \<and> \<not> leaves_transaction q'" using Cons.prems(3) by simp
    show "db_ok s \<and> same_session s s" using Cons.prems(1) by (simp add: same_session_def)
  qed (use statement_in_transaction[OF Cons.prems(1,2)] in blast)
  then have "ex_snapshot s1 \<noteq> None" using Cons.prems(2) by (simp add: same_session_def)
  with Cons.IH[OF _ this _ one(2)] s1 Cons.prems(3) one(1) same_session_trans show ?case by auto
qed

end
