(* ===== verification/SessionProperties.thy ===== *)
theory SessionProperties
  imports ExecutorSamples Sessions
begin

text \<open>
  The properties of a session: the invariant of the executor, what transactions give, and which
  calls of \<open>execute\<close> return.
\<close>

section \<open>The invariant and transactions\<close>

lemma sample_ex_inv: "ex_inv 1 sample_executor"
  using sample_database_facts tm_inv_new by (simp add: ex_inv_def)

text \<open>C10: Every call of execute but LOAD keeps the state of the executor well formed, whether it
  answers or throws, an EXECUTE counting as the statement it runs as: after any list of calls with
  statements the parser can give, the database and the snapshot satisfy the invariants of
  databases, tables, row stores, indexes and version stores, and while there is a snapshot the
  active transaction is open in the transaction manager. Only an EXECUTE can keep a list of calls
  from returning.\<close>

theorem executor_invariant:
  assumes "ex_inv k s" and "runs_only pf (\<lambda>q. query_ok q \<and> \<not> loads q) qs s" and "k + length qs < 2 ^ 64"
  shows "case run_all pf qs s of None \<Rightarrow> list_ex is_execute qs | Some s' \<Rightarrow> ex_inv (k + length qs) s'"
  using run_all_inv[OF assms(1,3,2)] run_all_None[of pf qs s] by (auto split: option.split)

theorem executor_invariant_witness:
  "\<exists>s'. run_all sample_platform [BeginTransaction, DropTable ''people'', RollbackTransaction] sample_executor = Some s' \<and>
    ex_inv 4 s'"
proof -
  let ?qs = "[BeginTransaction, DropTable ''people'', RollbackTransaction]"
  have plain: "list_all (\<lambda>q. \<not> is_execute q \<and> query_ok q \<and> \<not> loads q) ?qs"
    by (simp add: word_evals is_execute_def)
  have "case run_all sample_platform ?qs sample_executor of
      None \<Rightarrow> list_ex is_execute ?qs | Some s' \<Rightarrow> ex_inv (1 + length ?qs) s'"
    by (rule executor_invariant[OF sample_ex_inv runs_only_plain[OF plain]]) simp
  moreover have "\<not> list_ex is_execute ?qs" by (simp add: is_execute_def)
  moreover have "1 + length ?qs = 4" by simp
  ultimately show ?thesis by (simp only: split: option.splits) simp
qed

text \<open>C25: COMMIT and ROLLBACK never find an inconsistent transaction: after any such list of calls,
  each succeeds when there is a snapshot, ending the transaction, and otherwise answers that no
  transaction is active and changes nothing.\<close>

theorem transaction_commands_consistent:
  assumes "ex_inv k s0" and "runs_only pf (\<lambda>q. query_ok q \<and> \<not> loads q) qs s0" and "k + length qs < 2 ^ 64"
    and "run_all pf qs s0 = Some s"
  shows "case ex_snapshot s of
      None \<Rightarrow> (\<forall>q \<in> {CommitTransaction, RollbackTransaction}.
        execute pf q s = Some (s, Inr (messageResult False ''no active transaction'')))
    | Some copy \<Rightarrow>
        (\<exists>s'. execute pf CommitTransaction s = Some (s', Inr (messageResult True ''committed transaction'')) \<and>
           ex_database s' = ex_database s \<and> ex_snapshot s' = None \<and> ex_active s' = None) \<and>
        (\<exists>s'. execute pf RollbackTransaction s = Some (s', Inr (messageResult True ''rolled back transaction'')) \<and>
           ex_database s' = Some copy \<and> ex_snapshot s' = None \<and> ex_active s' = None)"
proof -
  have inv: "ex_inv (k + length qs) s" by (rule run_all_inv[OF assms(1,3,2,4)])
  have run: "execute pf CommitTransaction s = Some (executeCommit s)"
    "execute pf RollbackTransaction s = Some (executeRollback s)"
    by (simp_all add: execute_other is_execute_def)
  show ?thesis
    using executeCommit_open[OF inv] executeRollback_open[OF inv] commands_idle[of s]
    by (cases "ex_snapshot s") (fastforce simp: run)+
qed

theorem transaction_commands_consistent_witness:
  "\<exists>s. run_all sample_platform [DropTable ''people'', RollbackTransaction] sample_executor = Some s \<and>
    execute sample_platform CommitTransaction s = Some (s, Inr (messageResult False ''no active transaction''))"
proof -
  let ?qs = "[DropTable ''people'', RollbackTransaction]"
  have plain: "list_all (\<lambda>q. \<not> is_execute q \<and> query_ok q \<and> \<not> loads q) ?qs"
    by (simp add: word_evals is_execute_def)
  define s where "s = fst (executeUnlocked sample_platform (DropTable ''people'') sample_executor)"
  have "db_ok sample_executor" using sample_ex_inv by (simp add: ex_inv_def)
  then have "same_session sample_executor s"
    using soundD[OF sound_statement[of "DropTable ''people''" sample_platform] _ prod.collapse[symmetric]]
    by (simp add: s_def word_evals)
  then have snap: "ex_snapshot s = None" by (simp add: same_session_def)
  then have run: "run_all sample_platform ?qs sample_executor = Some s"
    using commands_idle(2)[OF snap] by (simp add: execute_other is_execute_def case_prod_beta s_def)
  have "1 + length ?qs < 2 ^ 64" by simp
  from transaction_commands_consistent[OF sample_ex_inv runs_only_plain[OF plain] this run] snap run
  show ?thesis by simp
qed

text \<open>C8: ROLLBACK restores. From a well-formed state with a database and no snapshot, BEGIN, then any
  calls of execute that return and run statements of the parser other than COMMIT, ROLLBACK and LOAD
  (CREATE DATABASE, SAVE, further BEGINs, EXECUTEs, which count as the statements they run as, and
  calls that throw included), then ROLLBACK, leave a database with the content it had at BEGIN: its
  name, and every table with its schema, rows and indexes.\<close>

theorem rollback_restores_content:
  assumes "ex_inv k s" and "k + 1 < 2 ^ 64" and "ex_database s = Some db" and "ex_snapshot s = None"
    and "runs_only pf (\<lambda>q. query_ok q \<and> \<not> leaves_transaction q) (BeginTransaction # qs) s"
    and "run_all pf (BeginTransaction # qs) s = Some s1"
  shows "\<exists>s' db'. execute pf RollbackTransaction s1 =
      Some (s', Inr (messageResult True ''rolled back transaction'')) \<and>
    ex_database s' = Some db' \<and> Database_content db' = Database_content db \<and>
    ex_snapshot s' = None \<and> ex_active s' = None"
proof -
  obtain s0 copy where b: "executeBegin s = (s0, Inr (messageResult True ''began transaction''))"
    "ex_inv (k + 1) s0" "ex_snapshot s0 = Some copy" "Database_content copy = Database_content db"
    using executeBegin_idle[OF assms(1,2,4,3)] by blast
  have begun: "execute pf BeginTransaction s = Some (s0, Inr (messageResult True ''began transaction''))"
    by (simp add: execute_other is_execute_def b(1))
  have "db_ok s0" "ex_snapshot s0 \<noteq> None" using b(2,3) by (simp_all add: ex_inv_def)
  then have "db_ok s1 \<and> same_session s0 s1"
    using run_all_transaction[of s0 pf qs s1] assms(5,6) by (simp add: begun)
  then have "ex_inv (k + 1) s1" "ex_snapshot s1 = Some copy"
    using ex_inv_same_session[OF b(2)] b(3) by (simp_all add: same_session_def)
  from executeRollback_open[OF this] b(4) show ?thesis by (auto simp: execute_other is_execute_def)
qed

theorem rollback_restores_content_witness:
  "\<exists>s1 s' db'. run_all sample_platform
      [BeginTransaction, DropTable ''people'', CreateDatabase ''other'', BeginTransaction] sample_executor = Some s1 \<and>
    execute sample_platform RollbackTransaction s1 =
      Some (s', Inr (messageResult True ''rolled back transaction'')) \<and>
    ex_database s' = Some db' \<and> Database_content db' = Database_content sample_database"
proof -
  let ?qs = "[DropTable ''people'', CreateDatabase ''other'', BeginTransaction]"
  have plain: "list_all (\<lambda>q. \<not> is_execute q \<and> query_ok q \<and> \<not> leaves_transaction q) (BeginTransaction # ?qs)"
    by (simp add: word_evals is_execute_def)
  obtain s1 where s1: "run_all sample_platform (BeginTransaction # ?qs) sample_executor = Some s1"
    using run_all_returns[of "BeginTransaction # ?qs"] by (auto simp: is_execute_def)
  have "ex_database sample_executor = Some sample_database" "ex_snapshot sample_executor = None" by simp_all
  from rollback_restores_content[OF sample_ex_inv _ this runs_only_plain[OF plain] s1] s1
  show ?thesis by auto
qed

section \<open>EXECUTE\<close>

lemma flat_drop: "flat_statement (dropTableSql ''people'')"
proof (unfold flat_statement_def, intro allI impI)
  fix vs sql q
  assume bind: "bind_text (dropTableSql ''people'') vs = Inr sql" and parse: "Parser_parse sql = Inr q"
  have "bind_text (dropTableSql ''people'' @ []) vs = ebind (bind_text [] vs) (\<lambda>s. Inr (dropTableSql ''people'' @ s))"
    by (rule bind_text_prefix) (simp add: dropTableSql_def)
  with bind have "sql = dropTableSql ''people''" by (auto split: if_splits)
  moreover have "Parser_parse (dropTableSql ''people'') = Inr (DropTable ''people'')"
    by (rule parse_dropTableSql) (simp add: word_evals)
  ultimately show "\<not> is_execute q" using parse by (auto simp: is_execute_def)
qed

text \<open>C38: A call of execute returns when the statement is no EXECUTE, or when no text that values can
  make of the prepared template parses to an EXECUTE.\<close>

theorem execute_returns:
  assumes "\<forall>name vs sql. q = ExecutePrepared name vs \<longrightarrow> umap_find (=) name (ex_prepared s) = Some sql \<longrightarrow>
    flat_statement sql"
  shows "\<exists>r. execute pf q s = Some r"
  by (rule execute_flat[OF assms])

theorem execute_returns_witness:
  "\<exists>r. execute sample_platform (ExecutePrepared ''drop'' [])
      (sample_executor\<lparr>ex_prepared := [(''drop'', dropTableSql ''people'')]\<rparr>) = Some r"
  by (rule execute_returns) (auto simp: flat_drop split: if_splits)

text \<open>C39: A prepared statement that binds to its own EXECUTE never returns: execute calls itself with
  the same statement and an unchanged state.\<close>

theorem self_execute_diverges:
  assumes "bindPreparedSql name vs s = Inr sql" and "Parser_parse sql = Inr (ExecutePrepared name vs)"
  shows "execute pf (ExecutePrepared name vs) s = None"
  using assms by (intro execute_diverges) (simp add: self_executing_def)

theorem self_execute_diverges_witness:
  "execute sample_platform (ExecutePrepared ''p'' [])
     (sample_executor\<lparr>ex_prepared := [(''p'', ''EXECUTE p;'')]\<rparr>) = None"
proof (rule self_execute_diverges)
  show "bindPreparedSql ''p'' [] (sample_executor\<lparr>ex_prepared := [(''p'', ''EXECUTE p;'')]\<rparr>) = Inr ''EXECUTE p;''"
    by (simp add: bindPreparedSql_def)
  show "Parser_parse ''EXECUTE p;'' = Inr (ExecutePrepared ''p'' [])" by code_simp
qed

end
