(* ===== verification/Concurrency.thy ===== *)
theory Concurrency
  imports ExecutorInvariant
begin

text \<open>
  \<open>LockManager\<close> (src/include/VertexDB/concurrency/lock_manager.hpp, src/src/concurrency) and the
  locking of \<open>QueryExecutor::execute\<close>: threads that call \<open>execute\<close> on one executor, as a step
  relation. The body of a call works on the state it finds when it gets the lock, and what it did
  to the state is stored when it releases it, so that without the lock updates would be lost.
  \<open>conc_inv\<close> is the invariant: the lock counts the threads that hold it, and what a thread that
  holds it works on is the current state.
\<close>

section \<open>The lock\<close>

text \<open>\<open>std::shared_mutex\<close>; None is a call that has to wait.\<close>

record lock_manager =
  lk_readers :: nat
  lk_writer :: bool

definition LockManager_new :: lock_manager where
  "LockManager_new = \<lparr>lk_readers = 0, lk_writer = False\<rparr>"

definition LockManager_acquireRead :: "lock_manager \<Rightarrow> lock_manager option" where
  "LockManager_acquireRead lm =
     (if lk_writer lm then None else Some (lm\<lparr>lk_readers := lk_readers lm + 1\<rparr>))"

definition LockManager_acquireWrite :: "lock_manager \<Rightarrow> lock_manager option" where
  "LockManager_acquireWrite lm =
     (if lk_writer lm \<or> lk_readers lm \<noteq> 0 then None else Some (lm\<lparr>lk_writer := True\<rparr>))"

text \<open>The destructors of \<open>shared_lock\<close> and \<open>unique_lock\<close>.\<close>

definition releaseRead :: "lock_manager \<Rightarrow> lock_manager" where
  "releaseRead lm = lm\<lparr>lk_readers := lk_readers lm - 1\<rparr>"

definition releaseWrite :: "lock_manager \<Rightarrow> lock_manager" where
  "releaseWrite lm = lm\<lparr>lk_writer := False\<rparr>"

section \<open>Threads\<close>

text \<open>
  Where a thread is: outside, in \<open>execute\<close> before the lock, in the body with the shared or the
  exclusive lock, in \<open>bindPreparedSql\<close> with the shared lock, or done with an answer.
\<close>

datatype thread =
    Idle
  | Calling query
  | Reading query executor
  | Writing query executor
  | Looking string "sql_value list" executor
  | Finished "query_result outcome"

record config =
  cf_state :: executor
  cf_lock :: lock_manager
  cf_threads :: "thread list"
  cf_log :: "(query \<times> query_result outcome) list"

definition readOnly :: "query \<Rightarrow> bool" where
  "readOnly q = (case q of Select _ \<Rightarrow> True | ListTables \<Rightarrow> True | _ \<Rightarrow> False)"

text \<open>\<open>execute\<close> and \<open>executePrepared\<close>, cut at the places where the lock is taken and given back.\<close>

inductive step :: "platform \<Rightarrow> nat \<Rightarrow> config \<Rightarrow> config \<Rightarrow> bool" for pf where
  step_call: "i < length (cf_threads c) \<Longrightarrow> cf_threads c ! i = Idle \<Longrightarrow>
    step pf i c (c\<lparr>cf_threads := (cf_threads c)[i := Calling q]\<rparr>)"
| step_read: "i < length (cf_threads c) \<Longrightarrow> cf_threads c ! i = Calling q \<Longrightarrow> \<not> is_execute q \<Longrightarrow> readOnly q \<Longrightarrow>
    LockManager_acquireRead (cf_lock c) = Some lm \<Longrightarrow>
    step pf i c (c\<lparr>cf_lock := lm, cf_threads := (cf_threads c)[i := Reading q (cf_state c)]\<rparr>)"
| step_write: "i < length (cf_threads c) \<Longrightarrow> cf_threads c ! i = Calling q \<Longrightarrow> \<not> is_execute q \<Longrightarrow> \<not> readOnly q \<Longrightarrow>
    LockManager_acquireWrite (cf_lock c) = Some lm \<Longrightarrow>
    step pf i c (c\<lparr>cf_lock := lm, cf_threads := (cf_threads c)[i := Writing q (cf_state c)]\<rparr>)"
| step_look: "i < length (cf_threads c) \<Longrightarrow> cf_threads c ! i = Calling (ExecutePrepared name vs) \<Longrightarrow>
    LockManager_acquireRead (cf_lock c) = Some lm \<Longrightarrow>
    step pf i c (c\<lparr>cf_lock := lm, cf_threads := (cf_threads c)[i := Looking name vs (cf_state c)]\<rparr>)"
| step_read_done: "i < length (cf_threads c) \<Longrightarrow> cf_threads c ! i = Reading q s \<Longrightarrow>
    executeUnlocked pf q s = (s', y) \<Longrightarrow>
    step pf i c (c\<lparr>cf_state := s', cf_lock := releaseRead (cf_lock c),
      cf_threads := (cf_threads c)[i := Finished y], cf_log := cf_log c @ [(q, y)]\<rparr>)"
| step_write_done: "i < length (cf_threads c) \<Longrightarrow> cf_threads c ! i = Writing q s \<Longrightarrow>
    executeUnlocked pf q s = (s', y) \<Longrightarrow>
    step pf i c (c\<lparr>cf_state := s', cf_lock := releaseWrite (cf_lock c),
      cf_threads := (cf_threads c)[i := Finished y], cf_log := cf_log c @ [(q, y)]\<rparr>)"
| step_look_done: "i < length (cf_threads c) \<Longrightarrow> cf_threads c ! i = Looking name vs s \<Longrightarrow>
    step pf i c (c\<lparr>cf_lock := releaseRead (cf_lock c), cf_threads := (cf_threads c)[i :=
      (case ebind (bindPreparedSql name vs s) Parser_parse of Inl e \<Rightarrow> Finished (Inl e) | Inr q \<Rightarrow> Calling q)]\<rparr>)"
| step_leave: "i < length (cf_threads c) \<Longrightarrow> cf_threads c ! i = Finished y \<Longrightarrow>
    step pf i c (c\<lparr>cf_threads := (cf_threads c)[i := Idle]\<rparr>)"

inductive_cases stepE: "step pf i c c'"

definition initial :: "nat \<Rightarrow> executor \<Rightarrow> config" where
  "initial n s = \<lparr>cf_state = s, cf_lock = LockManager_new, cf_threads = replicate n Idle, cf_log = []\<rparr>"

inductive reach :: "platform \<Rightarrow> nat \<Rightarrow> executor \<Rightarrow> config \<Rightarrow> bool" for pf n s0 where
  reach_start: "reach pf n s0 (initial n s0)"
| reach_step: "reach pf n s0 c \<Longrightarrow> step pf i c c' \<Longrightarrow> reach pf n s0 c'"

section \<open>The invariant\<close>

fun view :: "thread \<Rightarrow> executor option" where
  "view (Reading q s) = Some s"
| "view (Writing q s) = Some s"
| "view (Looking name vs s) = Some s"
| "view _ = None"

fun exclusive :: "thread \<Rightarrow> bool" where
  "exclusive (Writing q s) \<longleftrightarrow> True"
| "exclusive _ \<longleftrightarrow> False"

fun_cases exclusiveE: "exclusive t"

definition shared :: "thread \<Rightarrow> bool" where
  "shared t \<longleftrightarrow> view t \<noteq> None \<and> \<not> exclusive t"

lemma shared_simps [simp]:
  "shared (Reading q s)" "shared (Looking name vs s)" "\<not> shared (Writing q s)" "\<not> shared Idle"
  "\<not> shared (Calling q)" "\<not> shared (Finished y)"
  by (simp_all add: shared_def)

definition holders :: "(thread \<Rightarrow> bool) \<Rightarrow> thread list \<Rightarrow> nat" where
  "holders P ts = length (filter P ts)"

lemma holders_update:
  "i < length ts \<Longrightarrow> holders P (ts[i := t]) + (if P (ts ! i) then 1 else 0) = holders P ts + (if P t then 1 else 0)"
  unfolding holders_def
proof (induction ts arbitrary: i)
  case (Cons u ts)
  then show ?case by (cases i) auto
qed simp

lemma holders_0: "holders P ts = 0 \<longleftrightarrow> (\<forall>t \<in> set ts. \<not> P t)"
  by (induction ts) (simp_all add: holders_def)

definition locked_ok :: "lock_manager \<Rightarrow> thread list \<Rightarrow> bool" where
  "locked_ok lm ts \<longleftrightarrow> lk_readers lm = holders shared ts \<and> (if lk_writer lm then 1 else 0) = holders exclusive ts \<and>
     (lk_writer lm \<longrightarrow> lk_readers lm = 0)"

definition views_ok :: "executor \<Rightarrow> thread list \<Rightarrow> bool" where
  "views_ok s ts \<longleftrightarrow> (\<forall>t \<in> set ts. view t = None \<or> view t = Some s) \<and>
     (\<forall>q s'. Reading q s' \<in> set ts \<longrightarrow> readOnly q)"

definition conc_inv :: "config \<Rightarrow> bool" where
  "conc_inv c \<longleftrightarrow> locked_ok (cf_lock c) (cf_threads c) \<and> views_ok (cf_state c) (cf_threads c)"

lemma locked_same:
  "locked_ok lm ts \<Longrightarrow> i < length ts \<Longrightarrow> shared t = shared (ts ! i) \<Longrightarrow> exclusive t = exclusive (ts ! i) \<Longrightarrow>
   locked_ok lm (ts[i := t])"
  using holders_update[of i ts shared t] holders_update[of i ts exclusive t] by (auto simp: locked_ok_def)

lemma locked_read:
  "locked_ok lm ts \<Longrightarrow> i < length ts \<Longrightarrow> view (ts ! i) = None \<Longrightarrow> \<not> exclusive (ts ! i) \<Longrightarrow> shared t \<Longrightarrow>
   LockManager_acquireRead lm = Some lm' \<Longrightarrow> locked_ok lm' (ts[i := t])"
  using holders_update[of i ts shared t] holders_update[of i ts exclusive t]
  by (auto simp: locked_ok_def LockManager_acquireRead_def shared_def split: if_splits)

lemma locked_write:
  "locked_ok lm ts \<Longrightarrow> i < length ts \<Longrightarrow> view (ts ! i) = None \<Longrightarrow> \<not> exclusive (ts ! i) \<Longrightarrow> exclusive t \<Longrightarrow>
   LockManager_acquireWrite lm = Some lm' \<Longrightarrow> locked_ok lm' (ts[i := t])"
  using holders_update[of i ts shared t] holders_update[of i ts exclusive t]
  by (auto simp: locked_ok_def LockManager_acquireWrite_def shared_def split: if_splits)

lemma locked_release_read:
  "locked_ok lm ts \<Longrightarrow> i < length ts \<Longrightarrow> shared (ts ! i) \<Longrightarrow> view t = None \<Longrightarrow> \<not> exclusive t \<Longrightarrow>
   locked_ok (releaseRead lm) (ts[i := t])"
  using holders_update[of i ts shared t] holders_update[of i ts exclusive t]
  by (auto simp: locked_ok_def releaseRead_def shared_def split: if_splits)

lemma locked_release_write:
  "locked_ok lm ts \<Longrightarrow> i < length ts \<Longrightarrow> exclusive (ts ! i) \<Longrightarrow> view t = None \<Longrightarrow> \<not> exclusive t \<Longrightarrow>
   locked_ok (releaseWrite lm) (ts[i := t]) \<and> (\<forall>t \<in> set (ts[i := t]). view t = None)"
  using holders_update[of i ts shared t] holders_update[of i ts exclusive t]
    holders_0[of shared "ts[i := t]"] holders_0[of exclusive "ts[i := t]"]
  by (auto simp: locked_ok_def releaseWrite_def shared_def split: if_splits)

lemma views_update:
  "views_ok s ts \<Longrightarrow> view t = None \<or> view t = Some s \<Longrightarrow> (case t of Reading q _ \<Rightarrow> readOnly q | _ \<Rightarrow> True) \<Longrightarrow>
   views_ok s (ts[i := t])"
  unfolding views_ok_def using set_update_subset_insert[of ts i t] by (fastforce split: thread.splits)

lemma readOnly_same: "readOnly q \<Longrightarrow> fst (executeUnlocked pf q s) = s"
  by (cases q) (simp_all add: readOnly_def)

lemma views_at: "views_ok s ts \<Longrightarrow> i < length ts \<Longrightarrow> view (ts ! i) = Some s' \<Longrightarrow> s' = s"
  unfolding views_ok_def using nth_mem by fastforce

lemma step_inv:
  assumes "step pf i c c'" and "conc_inv c"
  shows "conc_inv c'"
proof -
  have lock: "locked_ok (cf_lock c) (cf_threads c)" and views: "views_ok (cf_state c) (cf_threads c)"
    using assms(2) by (simp_all add: conc_inv_def)
  from assms(1) show ?thesis
  proof (cases rule: step.cases)
    case (step_call q)
    then show ?thesis using locked_same[OF lock] views_update[OF views] by (simp add: conc_inv_def)
  next
    case (step_read q lm)
    then show ?thesis using locked_read[OF lock] views_update[OF views] by (simp add: conc_inv_def)
  next
    case (step_write q lm)
    then show ?thesis using locked_write[OF lock] views_update[OF views] by (simp add: conc_inv_def)
  next
    case (step_look name vs lm)
    then show ?thesis using locked_read[OF lock] views_update[OF views] by (simp add: conc_inv_def)
  next
    case (step_read_done q s s' y)
    then have "Reading q s \<in> set (cf_threads c)" by (metis nth_mem)
    then have "readOnly q" using views by (auto simp: views_ok_def)
    moreover have "s = cf_state c" using views_at[OF views step_read_done(2)] step_read_done(3) by simp
    ultimately have "s' = cf_state c" using readOnly_same[of q pf s] step_read_done(4) by simp
    then show ?thesis
      using step_read_done locked_release_read[OF lock] views_update[OF views] by (simp add: conc_inv_def)
  next
    case (step_write_done q s s' y)
    then show ?thesis
      using locked_release_write[OF lock, of i "Finished y"] by (auto simp: conc_inv_def views_ok_def)
  next
    case (step_look_done name vs s)
    then show ?thesis
      using locked_release_read[OF lock] views_update[OF views]
      by (simp add: conc_inv_def split: sum.split)
  next
    case (step_leave y)
    then show ?thesis using locked_same[OF lock] views_update[OF views] by (simp add: conc_inv_def)
  qed
qed

lemma initial_inv: "conc_inv (initial n s)"
  by (auto simp: conc_inv_def initial_def locked_ok_def views_ok_def holders_def LockManager_new_def)

lemma reach_inv: "reach pf n s0 c \<Longrightarrow> conc_inv c \<and> length (cf_threads c) = n"
proof (induction rule: reach.induct)
  case reach_start
  then show ?case using initial_inv by (simp add: initial_def)
next
  case (reach_step c i c')
  then show ?case using step_inv by (auto elim: stepE)
qed

section \<open>The order of the calls\<close>

text \<open>Executing the calls of the log one after the other, with the answers they gave.\<close>

fun serial :: "platform \<Rightarrow> (query \<times> query_result outcome) list \<Rightarrow> executor \<Rightarrow> executor \<Rightarrow> bool" where
  "serial pf [] s s' \<longleftrightarrow> s' = s"
| "serial pf ((q, y) # calls) s s' \<longleftrightarrow>
     snd (executeUnlocked pf q s) = y \<and> serial pf calls (fst (executeUnlocked pf q s)) s'"

lemma serial_snoc:
  "serial pf calls s s1 \<Longrightarrow> executeUnlocked pf q s1 = (s2, y) \<Longrightarrow> serial pf (calls @ [(q, y)]) s s2"
  by (induction pf calls s s1 rule: serial.induct) auto

lemma reach_serial: "reach pf n s0 c \<Longrightarrow> serial pf (cf_log c) s0 (cf_state c)"
proof (induction rule: reach.induct)
  case (reach_step c i c')
  have views: "views_ok (cf_state c) (cf_threads c)" using reach_inv[OF reach_step(1)] by (simp add: conc_inv_def)
  from reach_step(2) show ?case
  proof (cases rule: step.cases)
    case (step_read_done q s s' y)
    then show ?thesis using views_at[OF views step_read_done(2)] serial_snoc[OF reach_step(3)] by simp
  next
    case (step_write_done q s s' y)
    then show ?thesis using views_at[OF views step_write_done(2)] serial_snoc[OF reach_step(3)] by simp
  qed (use reach_step(3) in simp_all)
qed (simp add: initial_def)

section \<open>Progress\<close>

lemma step_finishes:
  assumes "i < length (cf_threads c)" and "view (cf_threads c ! i) \<noteq> None"
  shows "\<exists>c'. step pf i c c'"
proof (cases "cf_threads c ! i")
  case (Reading q s)
  then show ?thesis using step_read_done[OF assms(1) Reading prod.collapse[symmetric]] by blast
next
  case (Writing q s)
  then show ?thesis using step_write_done[OF assms(1) Writing prod.collapse[symmetric]] by blast
next
  case (Looking name vs s)
  then show ?thesis using step_look_done[OF assms(1) Looking] by blast
qed (use assms(2) in simp_all)

lemma step_acquires:
  assumes "i < length (cf_threads c)" and "cf_threads c ! i = Calling q"
    and "lk_readers (cf_lock c) = 0" and "\<not> lk_writer (cf_lock c)"
  shows "\<exists>c'. step pf i c c'"
proof -
  obtain lr lw where free: "LockManager_acquireRead (cf_lock c) = Some lr" "LockManager_acquireWrite (cf_lock c) = Some lw"
    using assms(3,4) by (simp add: LockManager_acquireRead_def LockManager_acquireWrite_def)
  show ?thesis
  proof (cases "is_execute q")
    case True
    then obtain name vs where "q = ExecutePrepared name vs" by (auto simp: is_execute_def split: query.splits)
    then show ?thesis using step_look[OF assms(1)] assms(2) free(1) by blast
  next
    case False
    then show ?thesis
      using step_read[OF assms(1,2) False _ free(1)] step_write[OF assms(1,2) False _ free(2)] by blast
  qed
qed

lemma reach_progress:
  assumes "reach pf n s0 c" and "i < n" and "cf_threads c ! i \<noteq> Idle"
  shows "\<exists>j c'. j < n \<and> cf_threads c ! j \<noteq> Idle \<and> step pf j c c'"
proof -
  have len: "length (cf_threads c) = n" and lock: "locked_ok (cf_lock c) (cf_threads c)"
    using reach_inv[OF assms(1)] by (simp_all add: conc_inv_def)
  show ?thesis
  proof (cases "\<exists>j < n. view (cf_threads c ! j) \<noteq> None")
    case True
    then obtain j where "j < n" "view (cf_threads c ! j) \<noteq> None" by blast
    moreover from this have "cf_threads c ! j \<noteq> Idle" by auto
    ultimately show ?thesis using step_finishes[of j c pf] len by blast
  next
    case False
    then have "\<forall>t \<in> set (cf_threads c). view t = None" by (auto simp: in_set_conv_nth len)
    then have "holders shared (cf_threads c) = 0" "holders exclusive (cf_threads c) = 0"
      by (auto simp: holders_0 shared_def elim!: exclusiveE)
    then have free: "lk_readers (cf_lock c) = 0" "\<not> lk_writer (cf_lock c)"
      using lock by (auto simp: locked_ok_def split: if_splits)
    show ?thesis
    proof (cases "cf_threads c ! i")
      case (Calling q)
      then show ?thesis using step_acquires[of i c q pf] free assms len by blast
    next
      case (Finished y)
      then show ?thesis using step_leave[of i c y pf] assms len by blast
    qed (use False assms in \<open>auto\<close>)
  qed
qed

section \<open>One thread\<close>

text \<open>
  A call with no other thread around is \<open>execute\<close> of \<open>Executor\<close>: whatever \<open>execute\<close> gives, the steps
  of the one thread reach it, with the lock free again.
\<close>

definition alone :: "thread \<Rightarrow> executor \<Rightarrow> config \<Rightarrow> bool" where
  "alone t s c \<longleftrightarrow> cf_threads c = [t] \<and> cf_state c = s \<and> cf_lock c = LockManager_new"

lemma alone_step:
  assumes "alone (Calling q) s c" and "\<not> is_execute q"
  shows "\<exists>c'. (step pf 0)\<^sup>*\<^sup>* c c' \<and> alone (Finished (snd (executeUnlocked pf q s))) (fst (executeUnlocked pf q s)) c'"
proof (cases "readOnly q")
  case True
  let ?c = "c\<lparr>cf_lock := \<lparr>lk_readers = 1, lk_writer = False\<rparr>, cf_threads := [Reading q s]\<rparr>"
  have "step pf 0 c ?c"
    using step_read[of 0 c q "\<lparr>lk_readers = 1, lk_writer = False\<rparr>" pf] assms True
    by (simp add: alone_def LockManager_acquireRead_def LockManager_new_def)
  moreover have "\<exists>c'. step pf 0 ?c c' \<and>
      alone (Finished (snd (executeUnlocked pf q s))) (fst (executeUnlocked pf q s)) c'"
    by (intro exI conjI, rule step_read_done[OF _ _ prod.collapse[symmetric]])
      (simp_all add: alone_def releaseRead_def LockManager_new_def)
  ultimately show ?thesis by (meson converse_rtranclp_into_rtranclp r_into_rtranclp)
next
  case False
  let ?c = "c\<lparr>cf_lock := \<lparr>lk_readers = 0, lk_writer = True\<rparr>, cf_threads := [Writing q s]\<rparr>"
  have "step pf 0 c ?c"
    using step_write[of 0 c q "\<lparr>lk_readers = 0, lk_writer = True\<rparr>" pf] assms False
    by (simp add: alone_def LockManager_acquireWrite_def LockManager_new_def)
  moreover have "\<exists>c'. step pf 0 ?c c' \<and>
      alone (Finished (snd (executeUnlocked pf q s))) (fst (executeUnlocked pf q s)) c'"
    by (intro exI conjI, rule step_write_done[OF _ _ prod.collapse[symmetric]])
      (simp_all add: alone_def releaseWrite_def LockManager_new_def)
  ultimately show ?thesis by (meson converse_rtranclp_into_rtranclp r_into_rtranclp)
qed

lemma alone_look:
  assumes "alone (Calling (ExecutePrepared name vs)) s c"
  shows "\<exists>c'. (step pf 0)\<^sup>*\<^sup>* c c' \<and>
    alone (case ebind (bindPreparedSql name vs s) Parser_parse of Inl e \<Rightarrow> Finished (Inl e) | Inr q \<Rightarrow> Calling q) s c'"
proof -
  let ?c = "c\<lparr>cf_lock := \<lparr>lk_readers = 1, lk_writer = False\<rparr>, cf_threads := [Looking name vs s]\<rparr>"
  have "step pf 0 c ?c"
    using step_look[of 0 c name vs "\<lparr>lk_readers = 1, lk_writer = False\<rparr>" pf] assms
    by (simp add: alone_def LockManager_acquireRead_def LockManager_new_def)
  moreover have "\<exists>c'. step pf 0 ?c c' \<and>
    alone (case ebind (bindPreparedSql name vs s) Parser_parse of Inl e \<Rightarrow> Finished (Inl e) | Inr q \<Rightarrow> Calling q) s c'"
    by (intro exI conjI, rule step_look_done[where vs = vs and name = name and s = s])
      (use assms in \<open>simp_all add: alone_def releaseRead_def LockManager_new_def\<close>)
  ultimately show ?thesis by (meson converse_rtranclp_into_rtranclp r_into_rtranclp)
qed

lemma alone_executes:
  assumes "execute pf q s = Some (s', y)" and "alone (Calling q) s c"
  shows "\<exists>c'. (step pf 0)\<^sup>*\<^sup>* c c' \<and> alone (Finished y) s' c'"
proof -
  have "\<forall>c. alone (Calling q) s c \<longrightarrow> (\<exists>c'. (step pf 0)\<^sup>*\<^sup>* c c' \<and> alone (Finished (snd r)) (fst r) c')"
    if "execute pf q s = Some r" for r
  proof (rule execute.raw_induct[OF _ that], rule allI, rule impI)
    fix ex pf q s r c
    assume IH: "\<And>pf q s r. ex pf q s = Some r \<Longrightarrow>
        \<forall>c. alone (Calling q) s c \<longrightarrow> (\<exists>c'. (step pf 0)\<^sup>*\<^sup>* c c' \<and> alone (Finished (snd r)) (fst r) c')"
      and run: "(case q of
          ExecutePrepared name parameters \<Rightarrow>
            (case ebind (bindPreparedSql name parameters s) Parser_parse of
               Inl e \<Rightarrow> Some (s, Inl e) | Inr q' \<Rightarrow> ex pf q' s)
        | _ \<Rightarrow> Some (executeUnlocked pf q s)) = Some r"
      and c: "alone (Calling q) s c"
    show "\<exists>c'. (step pf 0)\<^sup>*\<^sup>* c c' \<and> alone (Finished (snd r)) (fst r) c'"
    proof (cases "is_execute q")
      case False
      then have "r = executeUnlocked pf q s" using run by (auto simp: is_execute_def split: query.splits)
      with alone_step[OF c False] show ?thesis by simp
    next
      case True
      then obtain name vs where q: "q = ExecutePrepared name vs" by (auto simp: is_execute_def split: query.splits)
      obtain c1 where c1: "(step pf 0)\<^sup>*\<^sup>* c c1" "alone (case ebind (bindPreparedSql name vs s) Parser_parse of
          Inl e \<Rightarrow> Finished (Inl e) | Inr q \<Rightarrow> Calling q) s c1"
        using alone_look[of name vs s c] c q by blast
      show ?thesis
      proof (cases "ebind (bindPreparedSql name vs s) Parser_parse")
        case (Inl e)
        then show ?thesis using c1 run q by auto
      next
        case (Inr q')
        then have "ex pf q' s = Some r" "alone (Calling q') s c1" using c1(2) run q by simp_all
        with IH obtain c' where "(step pf 0)\<^sup>*\<^sup>* c1 c'" "alone (Finished (snd r)) (fst r) c'" by blast
        with c1(1) show ?thesis by (meson rtranclp_trans)
      qed
    qed
  qed
  from this[OF assms(1)] assms(2) show ?thesis by auto
qed

text \<open>A call that gets the free lock and writes.\<close>

lemma reach_written:
  assumes "reach pf n s0 c" and "i < length (cf_threads c)" and "cf_threads c ! i = Calling q"
    and "\<not> is_execute q" and "\<not> readOnly q" and "cf_lock c = LockManager_new"
    and "executeUnlocked pf q (cf_state c) = (s', y)"
  shows "reach pf n s0 (c\<lparr>cf_state := s', cf_threads := (cf_threads c)[i := Finished y], cf_log := cf_log c @ [(q, y)]\<rparr>)"
proof -
  let ?lm = "\<lparr>lk_readers = 0, lk_writer = True\<rparr>"
  have "LockManager_acquireWrite (cf_lock c) = Some ?lm"
    by (simp add: assms(6) LockManager_acquireWrite_def LockManager_new_def)
  from reach_step[OF assms(1) step_write[OF assms(2-5) this]]
  have "reach pf n s0 (c\<lparr>cf_lock := ?lm, cf_threads := (cf_threads c)[i := Writing q (cf_state c)]\<rparr>)" .
  from reach_step[OF this step_write_done[where i = i and q = q and s = "cf_state c" and s' = s' and y = y]] assms(2,6,7)
  show ?thesis by (cases c) (simp add: releaseWrite_def LockManager_new_def)
qed

end
