(* ===== verification/ConcurrencyProperties.thy ===== *)
theory ConcurrencyProperties
  imports Concurrency Durability
begin

text \<open>
  The properties of concurrent calls: mutual exclusion, that the calls take effect in one order,
  that a crash loses none of them, and that they do not wait for each other for ever. The witnesses follow two threads, one of
  which drops a table while the other waits.
\<close>

text \<open>C20: Mutual exclusion. While a thread is in the body of a statement that writes, no other thread
  is in a body or looks up a prepared statement; and what a thread in a body works on is the
  current state, so nothing changed it since the thread got the lock.\<close>

theorem writers_exclude:
  assumes "reach pf n s0 c" and "i < n" and "cf_threads c ! i = Writing q s"
  shows "s = cf_state c \<and> (\<forall>j < n. j \<noteq> i \<longrightarrow> view (cf_threads c ! j) = None)"
proof -
  have len: "length (cf_threads c) = n" and lock: "locked_ok (cf_lock c) (cf_threads c)"
    and views: "views_ok (cf_state c) (cf_threads c)"
    using reach_inv[OF assms(1)] by (simp_all add: conc_inv_def)
  have "view t = None" if "t \<in> set ((cf_threads c)[i := Idle])" for t
    using locked_release_write[OF lock, of i Idle] that assms(2,3) len by simp
  then have "view (cf_threads c ! j) = None" if "j < n" "j \<noteq> i" for j
    using that len by (metis length_list_update nth_list_update_neq nth_mem)
  then show ?thesis using views_at[OF views, of i s] assms(2,3) len by auto
qed

abbreviation after_calls :: config where
  "after_calls \<equiv> (initial 2 sample_executor)\<lparr>cf_threads := [Calling (DropTable ''people''), Calling ListTables]\<rparr>"

lemma reach_calls: "reach sample_platform 2 sample_executor after_calls"
proof -
  have "reach sample_platform 2 sample_executor
      ((initial 2 sample_executor)\<lparr>cf_threads := [Calling (DropTable ''people''), Idle]\<rparr>)"
    using reach_step[OF reach_start[of sample_platform 2 sample_executor] step_call[where i = 0 and q = "DropTable ''people''"]]
    by (simp add: initial_def numeral_2_eq_2)
  from reach_step[OF this step_call[where i = 1 and q = ListTables]] show ?thesis by (simp add: initial_def)
qed

lemma reach_writing:
  "reach sample_platform 2 sample_executor (after_calls\<lparr>cf_lock := \<lparr>lk_readers = 0, lk_writer = True\<rparr>,
     cf_threads := [Writing (DropTable ''people'') sample_executor, Calling ListTables]\<rparr>)"
  using reach_step[OF reach_calls step_write[where i = 0 and q = "DropTable ''people''" and lm = "\<lparr>lk_readers = 0, lk_writer = True\<rparr>"]]
  by (simp add: initial_def readOnly_def is_execute_def LockManager_acquireWrite_def LockManager_new_def)

theorem writers_exclude_witness:
  "\<exists>c. reach sample_platform 2 sample_executor c \<and>
    cf_threads c = [Writing (DropTable ''people'') sample_executor, Calling ListTables] \<and>
    cf_state c = sample_executor \<and> view (cf_threads c ! 1) = None"
proof -
  obtain c where c: "reach sample_platform 2 sample_executor c"
    "cf_threads c = [Writing (DropTable ''people'') sample_executor, Calling ListTables]"
    using reach_writing by fastforce
  from writers_exclude[OF c(1), of 0] c show ?thesis by fastforce
qed



text \<open>C21: No deadlock. In every reachable configuration in which a thread is inside a call, some
  thread that is inside a call can take a step.\<close>

theorem calls_progress:
  assumes "reach pf n s0 c" and "i < n" and "cf_threads c ! i \<noteq> Idle"
  shows "\<exists>j c'. j < n \<and> cf_threads c ! j \<noteq> Idle \<and> step pf j c c'"
  by (rule reach_progress[OF assms])

theorem calls_progress_witness:
  "\<exists>j c'. j < 2 \<and> step sample_platform j after_calls c'"
  using calls_progress[OF reach_calls, of 0] by auto

section \<open>Concurrent calls and crashes\<close>

text \<open>A condition of one comparison is known, or its first column is not.\<close>

fun simple_condition :: "query \<Rightarrow> bool" where
  "simple_condition (Update u) \<longleftrightarrow> (case upd_where u of None \<Rightarrow> True | Some (Comparison column op v) \<Rightarrow> True | _ \<Rightarrow> False)"
| "simple_condition (Delete table cond) \<longleftrightarrow> (case cond of None \<Rightarrow> True | Some (Comparison column op v) \<Rightarrow> True | _ \<Rightarrow> False)"
| "simple_condition q \<longleftrightarrow> True"

lemma settled_simple:
  "settled t None" "settled t (Some (Comparison column op v))"
  using Table_columnIndex_None[of column t] by (auto simp: settled_def known_columns_def cond_columns_def)

lemma simple_condition_settled: "simple_condition q \<Longrightarrow> condition_settled q s"
  by (cases q) (auto simp: settled_simple split: sum.splits option.splits predicate.splits)

lemma replayable_refusable:
  assumes "replayable q" and "simple_condition q" and "takes_log q s"
  shows "refusable q s"
  using assms(1) simple_condition_settled[OF assms(2)] assms(3) by (cases q) (simp_all add: refusable_def)

text \<open>The calls that the life of an installation knows, and the records of all of them.\<close>

definition durable_call :: "query \<times> query_result outcome \<Rightarrow> bool" where
  "durable_call = (\<lambda>(q, y). replayable q \<and> (isl y \<longrightarrow> simple_condition q))"

definition call_entries :: "(query \<times> query_result outcome) list \<Rightarrow> (wal_operation \<times> string) list" where
  "call_entries calls = concat (map (\<lambda>(q, y). log_entries q) calls)"

lemma serial_lifetime:
  assumes "fresh_disk d" and "reliable pf" and "lifetime pf d k s" and "serial pf calls s s'"
    and "list_all durable_call calls" and "entries_fit (call_entries calls)"
    and "k + length (call_entries calls) < 2 ^ 64"
  shows "\<exists>k'. lifetime pf d k' s'"
  using assms(3-7)
proof (induction calls arbitrary: k s)
  case Nil
  then show ?case by auto
next
  case (Cons call calls)
  obtain q y where call: "call = (q, y)" by fastforce
  obtain s1 where run: "executeUnlocked pf q s = (s1, y)" and rest: "serial pf calls s1 s'"
    using Cons.prems(2) by (auto simp: call prod_eq_iff)
  have q: "replayable q" "isl y \<longrightarrow> simple_condition q" and calls: "list_all durable_call calls"
    using Cons.prems(3) by (simp_all add: call durable_call_def)
  have fit: "entries_fit (log_entries q)" "entries_fit (call_entries calls)"
    and room: "k + length (log_entries q) + length (call_entries calls) < 2 ^ 64"
    using Cons.prems(4,5) by (simp_all add: call call_entries_def entries_fit_def)
  have "\<exists>k'. lifetime pf d k' s1 \<and> k' \<le> k + length (log_entries q)"
  proof (cases y)
    case (Inr x)
    from answered_itself[OF Cons.prems(1) q(1) run[unfolded Inr] fit(1)] room show ?thesis by auto
  next
    case (Inl e)
    have "takes_log q s"
      by (rule durable_can_log[OF lifetime_durable[OF Cons.prems(1) assms(1,2)] fit(1)]) (use room in simp)
    then have "refusable q s" using replayable_refusable q Inl by simp
    moreover have plain: "\<not> is_execute q" using q(1) by (cases q) (simp_all add: is_execute_def)
    ultimately have "\<forall>q'. runs_as s q q' \<longrightarrow> refusable q' s" using runs_as_unique runs_itself by blast
    from refused[OF Cons.prems(1) this, of s1 e] run Inl have "lifetime pf d k s1" by (simp add: execute_other plain)
    then show ?thesis by auto
  qed
  then obtain k' where "lifetime pf d k' s1" "k' + length (call_entries calls) < 2 ^ 64" using room by fastforce
  from Cons.IH[OF this(1) rest calls fit(2) this(2)] show ?case .
qed

text \<open>C4: Concurrent calls survive a crash. Any number of threads call an executor that was started
  on a fresh directory. Whenever the process dies between two steps of the lock protocol, an
  executor that is started on the directory has the content that the finished calls left. The
  finished calls are the statements of C2 (after an EXECUTE was resolved): no SAVE, LOAD or ROLLBACK,
  and double literals only when their text of six digits reads back to them; an UPDATE or DELETE
  that threw has at most one comparison in its condition. The platform is that of C1.\<close>

theorem concurrent_calls_durable:
  assumes "reach pf n (QueryExecutor_new pf d) c" and "fresh_disk d" and "reliable pf"
    and "list_all durable_call (cf_log c)" and "entries_fit (call_entries (cf_log c))"
    and "1 + length (call_entries (cf_log c)) < 2 ^ 64"
  shows "contents (QueryExecutor_new pf (ex_disk (cf_state c))) = contents (cf_state c)"
proof -
  obtain k where "lifetime pf d k (cf_state c)"
    using serial_lifetime[OF assms(2,3) installed reach_serial[OF assms(1)] assms(4-6)] by blast
  from durable_restart(1)[OF lifetime_durable[OF this assms(2,3)] assms(3)] show ?thesis .
qed

theorem concurrent_calls_durable_witness:
  "\<exists>c x. reach sample_platform 2 (QueryExecutor_new sample_platform sample_disk) c \<and>
    cf_log c = [(CreateDatabase ''city'', Inr x), (Insert ''people'' [[VInt 1]], Inl (RuntimeError ''unknown table''))] \<and>
    contents (QueryExecutor_new sample_platform (ex_disk (cf_state c))) = Some (''city'', [])"
proof -
  let ?q1 = "CreateDatabase ''city''" and ?q2 = "Insert ''people'' [[VInt 1]]"
  let ?s0 = "QueryExecutor_new sample_platform sample_disk"
  note durable = lifetime_durable[OF installed fresh_sample_disk, of sample_platform]
  have reliable: "reliable sample_platform" by (simp add: reliable_def sample_platform_simps)
  have "length (insertSql ''people'' [VInt 1]) < 1000" by code_simp
  then have fits: "entries_fit (log_entries ?q1)" "entries_fit (log_entries ?q2)"
    by (simp_all add: entries_fit_def length_ok_small)
  have log: "can_log [(WalCreateDatabase, ''city'')] ?s0"
    using durable_can_log[OF durable[OF reliable] fits(1)] by simp
  obtain s1 db where s1: "executeUnlocked sample_platform ?q1 ?s0 =
      (s1, Inr (messageResult True (''created database '' @ ''city'')))" "ex_database s1 = Some db" "Database_new ''city'' = Inr db"
    using executeCreateDatabase_spec[OF log] by auto
  then have db: "db = \<lparr>db_name = ''city'', db_tables = []\<rparr>" by (simp add: Database_new_def)
  have refuse: "executeUnlocked sample_platform ?q2 s1 = (s1, Inl (RuntimeError ''unknown table''))"
    using s1(2) by (simp add: executeInsert_def requireTable_def Database_table_def db)
  let ?c = "(initial 2 ?s0)\<lparr>cf_threads := [Calling ?q1, Calling ?q2]\<rparr>"
  have "reach sample_platform 2 ?s0 ((initial 2 ?s0)\<lparr>cf_threads := [Calling ?q1, Idle]\<rparr>)"
    using reach_step[OF reach_start[of sample_platform 2 ?s0] step_call[where i = 0 and q = ?q1]]
    by (simp add: initial_def numeral_2_eq_2)
  from reach_step[OF this step_call[where i = 1 and q = ?q2]] have "reach sample_platform 2 ?s0 ?c"
    by (simp add: initial_def)
  from reach_written[OF this, of 0 ?q1 s1] s1(1)
  have "reach sample_platform 2 ?s0 (?c\<lparr>cf_state := s1, cf_threads := [Finished (Inr (messageResult True ''created database city'')), Calling ?q2],
      cf_log := [(?q1, Inr (messageResult True ''created database city''))]\<rparr>)"
    by (simp add: initial_def is_execute_def readOnly_def)
  from reach_written[OF this, of 1 ?q2 s1] refuse obtain c where c: "reach sample_platform 2 ?s0 c" "cf_state c = s1"
    "cf_log c = [(?q1, Inr (messageResult True ''created database city'')), (?q2, Inl (RuntimeError ''unknown table''))]"
    by (fastforce simp: initial_def is_execute_def readOnly_def)
  have "replayable ?q1" "replayable ?q2" by (simp_all add: query_evals row_wf_def)
  then have "list_all durable_call (cf_log c)" by (simp add: c durable_call_def)
  moreover have "entries_fit (call_entries (cf_log c))" "1 + length (call_entries (cf_log c)) < 2 ^ 64"
    using fits by (simp_all add: c call_entries_def entries_fit_def)
  ultimately have "contents (QueryExecutor_new sample_platform (ex_disk s1)) = contents s1"
    using concurrent_calls_durable[OF c(1) fresh_sample_disk reliable] c(2) by simp
  then show ?thesis using c s1(2) by (auto simp: contents_def db Database_content_def)
qed

end
