(* ===== verification/Shell.thy ===== *)
theory Shell
  imports Recovery
begin

text \<open>
  The interactive shell (src/src/main.cpp): a loop that reads a line, parses and executes it and
  prints the result or the error. What it reads is the list of lines of the input, what it prints
  is a list of chunks to the two streams. A result whose message is \<open>exit\<close> ends the loop;
  \<open>message_exit\<close> says that only EXIT gives one.
\<close>

datatype chunk = Out string | Err string

text \<open>\<open>exception::what\<close>; for what the library throws the text is the model's own.\<close>

fun what :: "exn \<Rightarrow> string" where
  "what (RuntimeError m) = m"
| "what (InvalidArgument m) = m"
| "what (OutOfRange m) = m"
| "what (LengthError m) = m"

definition newline :: string where
  "newline = [CHR 0x0A]"

definition tab :: string where
  "tab = [CHR 0x09]"

definition printResult :: "query_result \<Rightarrow> string" where
  "printResult r =
     (if qr_message r \<noteq> [] then qr_message r @ newline else []) @
     (if qr_rows r = [] then []
      else concat (map (\<lambda>column. column @ tab) (qr_columns r)) @ newline @
        concat (map (\<lambda>row. concat (map (\<lambda>v. Value_toString v @ tab) row) @ newline) (qr_rows r)))"

definition prompt :: string where
  "prompt = ''VertexDB> ''"

definition report :: "exn \<Rightarrow> chunk" where
  "report e = Err (''error: '' @ what e @ newline)"

text \<open>One line: the state, what is printed, and whether the loop ends; None when it does not return.\<close>

definition shell_line :: "platform \<Rightarrow> string \<Rightarrow> executor \<Rightarrow> (executor \<times> chunk list \<times> bool) option" where
  "shell_line pf line s =
     (if line = [] then Some (s, [], False)
      else case Parser_parse line of
        Inl e \<Rightarrow> Some (s, [report e], False)
      | Inr q \<Rightarrow>
          (case execute pf q s of
             None \<Rightarrow> None
           | Some (s', Inl e) \<Rightarrow> Some (s', [report e], False)
           | Some (s', Inr r) \<Rightarrow> Some (s', [Out (printResult r)], qr_message r = ''exit'')))"

fun shell_loop :: "platform \<Rightarrow> string list \<Rightarrow> executor \<Rightarrow> (executor \<times> chunk list) option" where
  "shell_loop pf [] s = Some (s, [Out prompt])"
| "shell_loop pf (line # lines) s =
     (case shell_line pf line s of
        None \<Rightarrow> None
      | Some (s', out, stop) \<Rightarrow>
          if stop then Some (s', Out prompt # out)
          else map_option (\<lambda>(s'', out'). (s'', Out prompt # out @ out')) (shell_loop pf lines s'))"

definition shell_main :: "platform \<Rightarrow> string list \<Rightarrow> disk \<Rightarrow> (executor \<times> chunk list) option" where
  "shell_main pf lines d =
     map_option (\<lambda>(s, out). (s, Out (''VertexDB interactive shell. Type EXIT; to quit.'' @ newline) # out))
       (shell_loop pf lines (QueryExecutor_new pf d))"

section \<open>What ends the loop\<close>

lemma reply_message [simp]: "reply b m s = (s', Inr r) \<longleftrightarrow> s' = s \<and> r = messageResult b m"
  by (auto simp: reply_def)

lemma qr_message_simps [simp]: "qr_message (messageResult b m) = m"
  by (simp add: messageResult_def)

lemma join_message:
  assumes "executeJoinSelect pf c j s = Inr r"
  shows "qr_message r = ''selected rows''"
proof -
  obtain lt rt where t: "requireTable (sel_table c) s = Inr lt" "requireTable (jc_table j) s = Inr rt"
    using assms by (auto simp: executeJoinSelect_def ebind_eq_Inr)
  show ?thesis
    using assms
    by (cases "resolveTableColumn lt (sel_table c) (jc_leftColumn j)";
        cases "resolveTableColumn rt (jc_table j) (jc_rightColumn j)")
      (auto simp: executeJoinSelect_def t ebind_eq_Inr Let_def select_result_def)
qed

lemma select_message: "executeSelect pf c s = Inr r \<Longrightarrow> qr_message r = ''selected rows''"
  using join_message by (cases "sel_join c") (auto simp: executeSelect_def select_result_def ebind_eq_Inr)

lemma message_exit:
  assumes "executeUnlocked pf q s = (s', Inr r)" and "qr_message r = ''exit''"
  shows "q = Exit"
  using assms
proof (cases q)
  case (Select c)
  then show ?thesis using assms select_message[of pf c s r] by auto
qed (auto simp: handlers Let_def split: option.splits sum.splits prod.splits if_splits)

end
