(* ===== verification/ShellProperties.thy ===== *)
theory ShellProperties
  imports Shell ExecutorSamples Sessions
begin

text \<open>
  The properties of the interactive shell: what ends its loop, and that the lines it reads are
  the session of their statements.
\<close>

text \<open>Only EXIT ends the shell. When a line ends the loop, it parses to EXIT, or to an EXECUTE whose
  template is one in the end, the state is as before it, and nothing but the word is printed; no
  other answer of the executor is taken for it.\<close>

lemma only_exit_ends:
  assumes "shell_line pf line s = Some (s', out, True)"
  shows "s' = s \<and> out = [Out (''exit'' @ newline)] \<and>
    (\<exists>q. Parser_parse line = Inr q \<and> (q = Exit \<or> is_execute q))"
proof -
  obtain q r where q: "Parser_parse line = Inr q" "execute pf q s = Some (s', Inr r)"
    and r: "out = [Out (printResult r)]" "qr_message r = ''exit''"
    using assms by (auto simp: shell_line_def split: if_splits sum.splits option.splits)
  obtain q' where q': "executeUnlocked pf q' s = (s', Inr r)" "is_execute q \<or> q' = q"
    using execute_outcome[OF q(2)] by (auto simp: outcome_of_def)
  have "q' = Exit" by (rule message_exit[OF q'(1) r(2)])
  with q' q r show ?thesis by (auto simp: printResult_def messageResult_def)
qed

lemma only_exit_ends_witness:
  "shell_line sample_platform ''exit'' sample_executor = Some (sample_executor, [Out (''exit'' @ newline)], True)"
proof -
  have "Parser_parse ''exit'' = Inr Exit" by code_simp
  then obtain s' out where run: "shell_line sample_platform ''exit'' sample_executor = Some (s', out, True)"
    by (simp add: shell_line_def execute_other is_execute_def reply_def)
  from only_exit_ends[OF this] run show ?thesis by simp
qed

text \<open>The statements of the lines that are not empty and parse.\<close>

definition line_statements :: "string list \<Rightarrow> query list" where
  "line_statements lines =
     List.map_filter (\<lambda>line. if line = [] then None
       else case Parser_parse line of Inl _ \<Rightarrow> None | Inr q \<Rightarrow> Some q) lines"

lemma line_statements_simps [simp]:
  "line_statements [] = []"
  "line_statements ([] # lines) = line_statements lines"
  "line \<noteq> [] \<Longrightarrow> line_statements (line # lines) =
     (case Parser_parse line of Inl _ \<Rightarrow> line_statements lines | Inr q \<Rightarrow> q # line_statements lines)"
  by (simp_all add: line_statements_def List.map_filter_simps split: sum.split)

lemma exit_answer:
  assumes "execute pf q s = Some (s', Inr r)" and "\<forall>q'. runs_as s q q' \<longrightarrow> q' \<noteq> Exit"
  shows "qr_message r \<noteq> ''exit''"
proof
  assume exit: "qr_message r = ''exit''"
  obtain q' where "runs_as s q q'" "executeUnlocked pf q' s = (s', Inr r)"
    using execute_returned[OF assms(1)] by (auto simp: returned_def)
  with message_exit[OF _ exit] assms(2) show False by blast
qed

text \<open>C40: The shell is the run of its lines. When every call of execute for the statements of the
  lines returns, answering or throwing, and none of them runs as EXIT (an EXECUTE counting as the
  statement it runs as), then at the line EXIT that follows the loop ends with the state after
  these calls, and never reads the lines after it. Empty lines and lines that do not parse leave
  the state; an error is printed unless every other line parses and every statement answers.\<close>

theorem shell_runs_session:
  assumes "run_all pf (line_statements lines) s = Some s'"
    and "runs_only pf (\<lambda>q. q \<noteq> Exit) (line_statements lines) s"
    and "Parser_parse last_line = Inr Exit" and "last_line \<noteq> []"
  shows "\<exists>out. shell_loop pf (lines @ last_line # unread) s = Some (s', out) \<and>
    ((\<forall>m. Err m \<notin> set out) \<longleftrightarrow>
      (\<forall>line \<in> set lines. line \<noteq> [] \<longrightarrow> \<not> fails (Parser_parse line)) \<and>
      session pf (line_statements lines) s = Some s')"
  using assms(1,2)
proof (induction lines arbitrary: s)
  case Nil
  have "shell_line pf last_line s = Some (s, [Out (''exit'' @ newline)], True)"
    using assms(3,4)
    by (simp add: shell_line_def execute_other is_execute_def reply_def printResult_def messageResult_def)
  then show ?case using Nil by simp
next
  case (Cons line lines)
  consider "line = []" | e where "line \<noteq> []" "Parser_parse line = Inl e"
    | q where "line \<noteq> []" "Parser_parse line = Inr q" by (cases "Parser_parse line") auto
  then show ?case
  proof cases
    case 1
    with Cons.prems obtain out where "shell_loop pf (lines @ last_line # unread) s = Some (s', out)"
      "(\<forall>m. Err m \<notin> set out) \<longleftrightarrow>
        (\<forall>line \<in> set lines. line \<noteq> [] \<longrightarrow> \<not> fails (Parser_parse line)) \<and>
        session pf (line_statements lines) s = Some s'"
      using Cons.IH[of s] by auto
    with 1 show ?thesis by (intro exI[of _ "Out prompt # out"]) (simp add: shell_line_def)
  next
    case 2
    then have "shell_line pf line s = Some (s, [report e], False)" by (simp add: shell_line_def)
    moreover obtain out where "shell_loop pf (lines @ last_line # unread) s = Some (s', out)"
      using Cons.IH[of s] Cons.prems 2 by auto
    ultimately show ?thesis using 2
      by (intro exI[of _ "Out prompt # report e # out"]) (auto simp: report_def)
  next
    case 3
    from Cons.prems 3 obtain s1 r where run: "execute pf q s = Some (s1, r)"
      "run_all pf (line_statements lines) s1 = Some s'"
      "runs_only pf (\<lambda>q. q \<noteq> Exit) (line_statements lines) s1" "\<forall>q'. runs_as s q q' \<longrightarrow> q' \<noteq> Exit"
      by (auto split: option.splits)
    obtain out where out: "shell_loop pf (lines @ last_line # unread) s1 = Some (s', out)"
      "(\<forall>m. Err m \<notin> set out) \<longleftrightarrow>
        (\<forall>line \<in> set lines. line \<noteq> [] \<longrightarrow> \<not> fails (Parser_parse line)) \<and>
        session pf (line_statements lines) s1 = Some s'"
      using Cons.IH[OF run(2,3)] by blast
    have ok: "\<not> fails (Parser_parse line)" using 3 by (simp add: fails_def)
    show ?thesis
    proof (cases r)
      case (Inl e)
      then have "shell_line pf line s = Some (s1, [report e], False)" using 3 run(1) by (simp add: shell_line_def)
      with Inl 3 run(1) out(1) show ?thesis
        by (intro exI[of _ "Out prompt # report e # out"]) (auto simp: report_def)
    next
      case (Inr x)
      have "shell_line pf line s = Some (s1, [Out (printResult x)], False)"
        using 3 run(1) exit_answer[OF _ run(4)] Inr by (simp add: shell_line_def)
      with Inr 3 run(1) out ok show ?thesis
        by (intro exI[of _ "Out prompt # Out (printResult x) # out"]) simp
    qed
  qed
qed

theorem shell_runs_session_witness:
  "\<exists>s out. shell_loop sample_platform ([''CREATE DATABASE city;'', [], createTableSql ''people'' sample_schema,
      ''INSERT INTO people VALUES (1, \"ada\"), (2, NULL);''] @ ''exit'' # [''DROP TABLE people'']) (started sample_disk) =
      Some (s, out) \<and> (\<forall>m. Err m \<notin> set out) \<and> session sample_platform sample_session (started sample_disk) = Some s"
proof -
  let ?lines = "[''CREATE DATABASE city;'', [], createTableSql ''people'' sample_schema,
      ''INSERT INTO people VALUES (1, \"ada\"), (2, NULL);'']"
  have parse: "Parser_parse ''CREATE DATABASE city;'' = Inr (CreateDatabase ''city'')"
    "Parser_parse ''INSERT INTO people VALUES (1, \"ada\"), (2, NULL);'' =
       Inr (Insert ''people'' [[VInt 1, VString ''ada''], [VInt 2, VNull]])"
    "Parser_parse (createTableSql ''people'' sample_schema) = Inr (CreateTable ''people'' sample_schema)"
    "Parser_parse ''exit'' = Inr Exit"
    by code_simp+
  obtain s where s: "session sample_platform sample_session (started sample_disk) = Some s"
    using sample_session_runs by blast
  have lines: "line_statements ?lines = sample_session"
    using parse by (simp add: sample_session_def createTableSql_def)
  have plain: "list_all (\<lambda>q. \<not> is_execute q \<and> q \<noteq> Exit) sample_session"
    by (simp add: sample_session_def is_execute_def)
  have run: "run_all sample_platform (line_statements ?lines) (started sample_disk) = Some s"
    unfolding lines by (rule session_run_all[OF s])
  have ok: "\<forall>line \<in> set ?lines. line \<noteq> [] \<longrightarrow> \<not> fails (Parser_parse line)"
    using parse by (simp add: fails_def)
  from shell_runs_session[OF run _ parse(4), of "[''DROP TABLE people'']"] runs_only_plain[OF plain] lines s ok
  show ?thesis by auto
qed

end
