(* ===== verification/Spec2Isabelle.thy ===== *)
theory Spec2Isabelle
  imports StorageProperties TextProperties PersistenceProperties DurabilityProperties QueryProperties SessionProperties
    ConcurrencyProperties ShellProperties
begin

text \<open>
  VertexDB (the namespace of all code under src/include/VertexDB and src/src): a small SQL database
  with paged rows, hash and B+ tree indexes, a write-ahead log, binary snapshots, transactions and
  an interactive shell. The development models every source file of the program, from
  the values up to the loop of \<open>main\<close>, and proves what makes each part and their composition
  correct.

  \<^bold>\<open>The program.\<close> A line of input is tokenized and parsed to a \<open>Query\<close>; \<open>QueryExecutor::execute\<close>
  takes the lock and dispatches on it. The executor owns a \<open>Database\<close>, which is an ordered map of
  \<open>Table\<close>s. A table keeps its rows in a \<open>PageRowStore\<close> (whose pages are also serialised into a
  \<open>BufferPool\<close>), each version of a row in an \<open>MVCCRowStore\<close>, and a \<open>BTreeIndex\<close> and a \<open>HashIndex\<close> for
  every created index. Statements that change the database are written to the \<open>WriteAheadLog\<close> as
  SQL text; \<open>StorageManager\<close> writes and reads whole databases. A new executor loads the first saved
  database it finds and replays the log by parsing and executing its records.

  \<^bold>\<open>Theories of the model\<close> (each opens with what it holds):
  \<^item> \<open>Prelude\<close>: exceptions as values (\<open>exn\<close>, \<open>outcome\<close>), loops that throw, ordered and unordered maps
    with their laws in the locales \<open>weak_order\<close>, \<open>strict_total_order\<close> and \<open>key_equivalence\<close>, and the
    collections \<open>handlers\<close> and \<open>char_evals\<close>.
  \<^item> \<open>CharText\<close>, \<open>Doubles\<close>: characters, \<open>toupper\<close>, decimal text; IEEE 754 doubles as 64-bit words,
    \<open>strtod\<close> and the six digits an \<open>ostream\<close> prints.
  \<^item> \<open>Values\<close> (common/value.cpp), \<open>Bytes\<close>, \<open>BufferPool\<close>, \<open>RowStore\<close> (storage/buffer_pool.cpp, row_store.cpp):
    the locale \<open>row_store\<close> is the interface \<open>RowStore\<close>, interpreted for both classes.
  \<^item> \<open>IndexSpec\<close>, \<open>HashIndex\<close>, \<open>BTreeIndex\<close> (indexing): the locales \<open>row_index\<close> and \<open>ordered_index\<close>, and
    the two indexes that provide them.
  \<^item> \<open>Transactions\<close> (transaction): the transaction manager and the version store.
  \<^item> \<open>Table\<close>, \<open>Database\<close> (storage/table.cpp, database.cpp). A table that the code reaches through a
    shared pointer is a value that is read, changed and put back (\<open>Database_putTable\<close>, \<open>put_table\<close>).
  \<^item> \<open>Tokenizer\<close>, \<open>Ast\<close>, \<open>Parser\<close> (parser): one definition per parsing function, on the tokens that
    are left; \<open>SqlText\<close> is the SQL that the executor prints.
  \<^item> \<open>Files\<close>, \<open>Wal\<close>, \<open>StorageManager\<close> (persistence): files as byte lists, the locale \<open>codec\<close>, the log
    and the snapshot format byte by byte.
  \<^item> \<open>Planner\<close>, \<open>Executor\<close> (planner, execution): the access paths, and one definition per handler of
    \<open>QueryExecutor\<close>, as a function from the state to the state and an answer or an exception; the
    changes a handler made before it throws are in the state it returns.
  \<^item> \<open>Concurrency\<close> (concurrency/lock_manager.cpp, \<open>execute\<close>): threads and the lock as a step relation,
    which with one thread is \<open>execute\<close>.
  \<^item> \<open>Shell\<close> (main.cpp).

  \<^bold>\<open>Theories of lemmas.\<close> \<open>Refinement\<close> is the locale \<open>refinement\<close>, a step-by-step simulation, from
  which it follows for all lists of calls; \<open>StoreCalls\<close> and \<open>TableCalls\<close> interpret it for the row
  stores, the buffer pool, the indexes and the tables. A table refines two machines: \<open>table_spec\<close> holds
  schema, rows and indexed columns, \<open>full_table_spec\<close> the name and the versions as well, so that it
  answers every public call. An ordered index is specified with its order (\<open>sorted_ids\<close>). \<open>Queries\<close> says what collecting, joining,
  sorting and cutting rows compute, \<open>Effects\<close> and \<open>ExecutorEffects\<close> what UPDATE, DELETE, INSERT and CREATE
  leave in the state, \<open>ExecutorInvariant\<close> the invariant of the executor. \<open>ParserSound\<close>, \<open>LogText\<close> and
  \<open>Prepared\<close> are about parsed, logged and prepared statements, \<open>SnapshotCut\<close> about files that are cut
  short. \<open>Mirrors\<close>, \<open>Logging\<close> and \<open>Recovery\<close> are about the log as a script of the session that wrote it:
  the locale \<open>replay_shadow\<close> says what a relation between a live and a replaying executor needs, and
  is interpreted for equal databases (\<open>Recovery\<close>) and, after a snapshot was read back (\<open>Restart\<close>), for
  databases of the same content (\<open>Likeness\<close>, by the refinement of \<open>TableCalls\<close>). \<open>Refusals\<close> is about statements
  that throw, and about what an EXECUTE runs as; \<open>Sessions\<close> is about lists of calls of \<open>execute\<close>, with
  conditions on what each call runs as. \<open>Durability\<close> puts these together: the life of an
  installation as a relation of answered and refused statements, saves and restarts, and its invariant.
  \<open>Samples\<close> and \<open>ExecutorSamples\<close> hold what the witnesses run on.

  \<^bold>\<open>Properties\<close>, numbered C1 to C40 in the order of their importance:
  \<^item> \<open>StorageProperties\<close>: a table is rows and versions for every sequence of its calls (C5), the two row
    stores and the two indexes agree (C16, C17), the shape of the B+ tree (C18), the buffer pool is
    an LRU cache (C19), typed rows (C32), versions and transactions (C33, C34, C36).
  \<^item> \<open>TextProperties\<close>: round trips through the tokenizer and the parser (C7), well-formed
    statements (C31), prepared INSERTs (C22).
  \<^item> \<open>PersistenceProperties\<close>: the round trip of snapshots for either evaluation order (C9), the log
    (C24, C26), damaged snapshots and failed saves (C27, C28).
  \<^item> \<open>DurabilityProperties\<close>: a crash loses nothing in the life of an installation within the scope below
    (C1), recovery from a log alone is exact (C2), and what can be lost outside it: by a SAVE that
    fails (C29) or falls short unnoticed (C30); LOAD after a save (C35), and that neither LOAD nor
    ROLLBACK reaches the log (C35, C37).
  \<^item> \<open>QueryProperties\<close>: SELECT with any access path (C6), joins (C12), ORDER BY (C13), and INSERT, UPDATE
    and DELETE (C11, C14, C15), and that a statement that throws changes nothing (C23).
  \<^item> \<open>SessionProperties\<close>: the invariant (C10), transactions (C8, C25), and which calls return (C38, C39).
  \<^item> \<open>ConcurrencyProperties\<close>: serializability (C3), that a crash loses none of the finished calls (C4),
    mutual exclusion (C20), progress (C21).
  \<^item> \<open>ShellProperties\<close>: the shell is the run of its lines (C40).

  \<^bold>\<open>Scope of the durability properties.\<close> The log does not know every change. The properties about it are
  for the statements it does know (\<open>replayable\<close>, \<open>literals_exact\<close>): not ROLLBACK and LOAD, and with double
  literals only when their text of six digits reads back to them (\<open>double_reads_back\<close>: 1.5, but not
  1.2345678, 120000.0 or 1234567.0); what happens to the others is in C35, C37 and in the findings. A
  save that fails or falls short is in C29 and C30; C1 and C4 are about the others (\<open>reliable\<close>). What a
  transaction reads is the version store (\<open>reads_current\<close>): C6, C12 and C13 hold there as long as it
  shows the rows of the tables, which C33 says it does until a row is erased.

  \<^bold>\<open>Numbers, bounds and fuel.\<close> Row ids, sizes and positions in memory are natural numbers. Values, limits,
  transaction ids, log sequence numbers and all sizes in files are words of their width and wrap;
  where a wrap would matter the properties have the bound as a hypothesis (fewer than \<open>2 ^ 64\<close>
  transactions, records, bytes of a text). The tokenizer, the parser and the reader of the log
  terminate on a measure of their input, so nothing needs fuel; only \<open>execute\<close> can run for ever and
  is a partial function into \<open>option\<close> (C39 is a call that does). NaN values cannot come out of the
  parser; the order of values is only meant for the others (\<open>value_ok\<close>).

  \<^bold>\<open>Parameters.\<close> What the standard leaves open is the record \<open>platform\<close>: how \<open>std::ranges::sort\<close> orders
  equal rows (its contract, \<open>sort_contract\<close>, is a hypothesis where it is used, and \<open>insertion_sort\<close>
  meets it), the order in which a directory is listed, whether the steps of a save succeed, and
  the order in which the two arguments of one call in \<open>loadDatabase\<close> are evaluated. What the device
  does to the next write to the log is a part of the disk (\<open>log_device\<close>). A write that falls short
  may be noticed by the stream or only by its destructor, which drops the error.

  \<^bold>\<open>Not modelled.\<close> The mutexes inside tables, databases and indexes, since every call comes from an
  executor that holds its own lock, and \<open>currentDatabase\<close>, which hands out the database without a
  lock to tests; the memory of the process (no allocation fails, the stack does not overflow); the tests and benchmarks, the build files, the scripts and the documents.
\<close>

end
